(* ===== verification/Neon_Prelude.thy ===== *)
theory Neon_Prelude
  imports Main "HOL-Library.Word"
begin

text \<open>
  Shared vocabulary of the development.

  Rust's fixed-width integers are HOL words of the same width. A call that can fail has
  an outcome: \<open>Ok\<close>, \<open>Err\<close> (a \<open>Result::Err\<close>, the effect of \<open>bail!\<close> and of \<open>?\<close>) or
  \<open>Panic\<close> (a failed \<open>assert!\<close>, \<open>unwrap\<close> or overflow check). A method taking
  \<open>&mut self\<close> is a function from the old state to an outcome and the new state. The new
  state is present on every outcome, since Rust keeps the assignments made before an
  early return.

  The second half is a small weakest-precondition calculus for such methods. The
  equations of the collection \<open>wp\<close> push a postcondition through a method body, so that
  a proof about a handler reduces to facts about its guards and updates.
\<close>

type_synonym u8 = "8 word"
type_synonym u16 = "16 word"
type_synonym u32 = "32 word"
type_synonym u64 = "64 word"
type_synonym usize = "64 word"
type_synonym byte = "8 word"

datatype ('e, 'a) outcome = Ok 'a | Err 'e | Panic

type_synonym ('s, 'e, 'a) rust = "'s \<Rightarrow> ('e, 'a) outcome \<times> 's"

section \<open>Method bodies\<close>

definition ret :: "'a \<Rightarrow> ('s, 'e, 'a) rust" where
  "ret x = (\<lambda>s. (Ok x, s))"

definition bail :: "'e \<Rightarrow> ('s, 'e, 'a) rust" where
  "bail e = (\<lambda>s. (Err e, s))"

definition panic :: "('s, 'e, 'a) rust" where
  "panic = (\<lambda>s. (Panic, s))"

text \<open>Sequencing with \<open>?\<close>: an error or a panic skips the rest of the body.\<close>

definition andthen :: "('s, 'e, 'a) rust \<Rightarrow> ('a \<Rightarrow> ('s, 'e, 'b) rust) \<Rightarrow> ('s, 'e, 'b) rust" where
  "andthen m f = (\<lambda>s. case m s of
       (Ok x, s') \<Rightarrow> f x s'
     | (Err e, s') \<Rightarrow> (Err e, s')
     | (Panic, s') \<Rightarrow> (Panic, s'))"

definition read :: "('s \<Rightarrow> 'a) \<Rightarrow> ('s, 'e, 'a) rust" where
  "read f = (\<lambda>s. (Ok (f s), s))"

definition update :: "('s \<Rightarrow> 's) \<Rightarrow> ('s, 'e, unit) rust" where
  "update f = (\<lambda>s. (Ok (), f s))"

definition require :: "('s \<Rightarrow> bool) \<Rightarrow> 'e \<Rightarrow> ('s, 'e, unit) rust" where
  "require b e = (\<lambda>s. if b s then (Ok (), s) else (Err e, s))"

definition assert_that :: "('s \<Rightarrow> bool) \<Rightarrow> ('s, 'e, unit) rust" where
  "assert_that b = (\<lambda>s. if b s then (Ok (), s) else (Panic, s))"

text \<open>An option whose \<open>None\<close> stands for a panic (\<open>unwrap\<close>, checked arithmetic).\<close>

definition unwrap :: "('s \<Rightarrow> 'a option) \<Rightarrow> ('s, 'e, 'a) rust" where
  "unwrap f = (\<lambda>s. case f s of Some x \<Rightarrow> (Ok x, s) | None \<Rightarrow> (Panic, s))"

definition run_if :: "('s \<Rightarrow> bool) \<Rightarrow> ('s, 'e, unit) rust \<Rightarrow> ('s, 'e, unit) rust" where
  "run_if b m = (\<lambda>s. if b s then m s else (Ok (), s))"

definition branch :: "('s \<Rightarrow> bool) \<Rightarrow> ('s, 'e, 'a) rust \<Rightarrow> ('s, 'e, 'a) rust \<Rightarrow> ('s, 'e, 'a) rust" where
  "branch b m n = (\<lambda>s. if b s then m s else n s)"

text \<open>A method of a field, called through the struct that owns the field.\<close>

definition on_field :: "('s \<Rightarrow> 't) \<Rightarrow> ('t \<Rightarrow> 's \<Rightarrow> 's) \<Rightarrow> ('t, 'e, 'a) rust \<Rightarrow> ('s, 'e, 'a) rust" where
  "on_field get put m = (\<lambda>s. case m (get s) of (r, t) \<Rightarrow> (r, put t s))"

text \<open>\<open>Result::map_err\<close>, the conversion that \<open>?\<close> applies to an error.\<close>

definition map_err :: "('e \<Rightarrow> 'f) \<Rightarrow> ('s, 'e, 'a) rust \<Rightarrow> ('s, 'f, 'a) rust" where
  "map_err g m = (\<lambda>s. case m s of
       (Ok x, t) \<Rightarrow> (Ok x, t) | (Err e, t) \<Rightarrow> (Err (g e), t) | (Panic, t) \<Rightarrow> (Panic, t))"

text \<open>A \<open>match\<close> on the result of a call that goes on after an error.\<close>

definition catch :: "('s, 'e, 'a) rust \<Rightarrow> ('e \<Rightarrow> ('s, 'f, 'a) rust) \<Rightarrow> ('s, 'f, 'a) rust" where
  "catch m h = (\<lambda>s. case m s of
       (Ok x, t) \<Rightarrow> (Ok x, t) | (Err e, t) \<Rightarrow> h e t | (Panic, t) \<Rightarrow> (Panic, t))"

section \<open>Weakest preconditions\<close>

text \<open>
  \<open>wp m Q E F s\<close>: running \<open>m\<close> from \<open>s\<close> ends in \<open>Q\<close> on success, in \<open>E\<close> on an error
  and in \<open>F\<close> on a panic.
\<close>

definition wp :: "('s, 'e, 'a) rust \<Rightarrow> ('a \<Rightarrow> 's \<Rightarrow> bool) \<Rightarrow> ('e \<Rightarrow> 's \<Rightarrow> bool) \<Rightarrow> ('s \<Rightarrow> bool) \<Rightarrow> 's \<Rightarrow> bool" where
  "wp m Q E F s = (case m s of
       (Ok x, s') \<Rightarrow> Q x s' | (Err e, s') \<Rightarrow> E e s' | (Panic, s') \<Rightarrow> F s')"

named_theorems wp \<open>equations that compute weakest preconditions\<close>

lemma wp_ret [wp]: "wp (ret x) Q E F = Q x"
  by (simp add: wp_def ret_def fun_eq_iff)

lemma wp_bail [wp]: "wp (bail e) Q E F = E e"
  by (simp add: wp_def bail_def fun_eq_iff)

lemma wp_panic [wp]: "wp panic Q E F = F"
  by (simp add: wp_def panic_def fun_eq_iff)

lemma wp_andthen [wp]: "wp (andthen m f) Q E F = wp m (\<lambda>x. wp (f x) Q E F) E F"
  by (auto simp: wp_def andthen_def fun_eq_iff split: prod.splits outcome.splits)

lemma wp_read [wp]: "wp (read f) Q E F = (\<lambda>s. Q (f s) s)"
  by (simp add: wp_def read_def fun_eq_iff)

lemma wp_update [wp]: "wp (update f) Q E F = (\<lambda>s. Q () (f s))"
  by (simp add: wp_def update_def fun_eq_iff)

lemma wp_require [wp]: "wp (require b e) Q E F = (\<lambda>s. if b s then Q () s else E e s)"
  by (simp add: wp_def require_def fun_eq_iff)

lemma wp_assert_that [wp]: "wp (assert_that b) Q E F = (\<lambda>s. if b s then Q () s else F s)"
  by (simp add: wp_def assert_that_def fun_eq_iff)

lemma wp_unwrap [wp]: "wp (unwrap f) Q E F = (\<lambda>s. case f s of Some x \<Rightarrow> Q x s | None \<Rightarrow> F s)"
  by (simp add: wp_def unwrap_def fun_eq_iff split: option.splits)

lemma wp_run_if [wp]: "wp (run_if b m) Q E F = (\<lambda>s. if b s then wp m Q E F s else Q () s)"
  by (simp add: wp_def run_if_def fun_eq_iff)

lemma wp_branch [wp]: "wp (branch b m n) Q E F = (\<lambda>s. if b s then wp m Q E F s else wp n Q E F s)"
  by (simp add: wp_def branch_def fun_eq_iff)

lemma wp_on_field [wp]:
  "wp (on_field get put m) Q E F =
     (\<lambda>s. wp m (\<lambda>x t. Q x (put t s)) (\<lambda>e t. E e (put t s)) (\<lambda>t. F (put t s)) (get s))"
  by (auto simp: wp_def on_field_def fun_eq_iff split: prod.splits outcome.splits)

lemma wp_map_err [wp]: "wp (map_err g m) Q E F = wp m Q (\<lambda>e. E (g e)) F"
  by (auto simp: wp_def map_err_def fun_eq_iff split: prod.splits outcome.splits)

lemma wp_catch [wp]: "wp (catch m h) Q E F = wp m Q (\<lambda>e. wp (h e) Q E F) F"
  by (auto simp: wp_def catch_def fun_eq_iff split: prod.splits outcome.splits)

lemma wp_mono:
  assumes "wp m Q E F s"
    and "\<And>x t. Q x t \<Longrightarrow> Q' x t" and "\<And>e t. E e t \<Longrightarrow> E' e t" and "\<And>t. F t \<Longrightarrow> F' t"
  shows "wp m Q' E' F' s"
  using assms by (auto simp: wp_def split: prod.splits outcome.splits)

lemma wp_conj:
  "wp m Q E F s \<Longrightarrow> wp m Q' E' F' s \<Longrightarrow>
     wp m (\<lambda>x t. Q x t \<and> Q' x t) (\<lambda>e t. E e t \<and> E' e t) (\<lambda>t. F t \<and> F' t) s"
  by (auto simp: wp_def split: prod.splits outcome.splits)

text \<open>The three readings of a triple that the properties use.\<close>

lemma wp_Ok: "wp m Q E F s \<Longrightarrow> m s = (Ok x, t) \<Longrightarrow> Q x t"
  by (simp add: wp_def)

lemma wp_Err: "wp m Q E F s \<Longrightarrow> m s = (Err e, t) \<Longrightarrow> E e t"
  by (simp add: wp_def)

lemma wp_Panic: "wp m Q E F s \<Longrightarrow> m s = (Panic, t) \<Longrightarrow> F t"
  by (simp add: wp_def)

text \<open>
  Steps: every outcome of \<open>m\<close> leaves the state related to the old one by \<open>R\<close>. For a
  reflexive and transitive \<open>R\<close> this composes along a method body.
\<close>

definition steps :: "('s \<Rightarrow> 's \<Rightarrow> bool) \<Rightarrow> ('s, 'e, 'a) rust \<Rightarrow> bool" where
  "steps R m = (\<forall>s. R s (snd (m s)))"

lemma steps_wp: "steps R m \<longleftrightarrow> (\<forall>s. wp m (\<lambda>_. R s) (\<lambda>_. R s) (R s) s)"
proof -
  have "R s (snd (m s)) = wp m (\<lambda>_. R s) (\<lambda>_. R s) (R s) s" for s
    by (cases "m s"; cases "fst (m s)") (auto simp: wp_def)
  then show ?thesis by (simp add: steps_def)
qed

lemma stepsD: "steps R m \<Longrightarrow> m s = (r, t) \<Longrightarrow> R s t"
  unfolding steps_def by (metis snd_conv)

lemma wp_snd: "wp m (\<lambda>_. R) (\<lambda>_. R) R s \<longleftrightarrow> R (snd (m s))"
  by (cases "m s"; cases "fst (m s)") (auto simp: wp_def)

text \<open>
  \<open>keeps I E F m\<close>: from \<open>I\<close>, the method ends in \<open>I\<close> on success, in \<open>E\<close> on an error and
  in \<open>F\<close> on a panic. The rules of the collection \<open>keeps\<close> follow the structure of a body.
\<close>

definition keeps :: "('s \<Rightarrow> bool) \<Rightarrow> ('e \<Rightarrow> 's \<Rightarrow> bool) \<Rightarrow> ('s \<Rightarrow> bool) \<Rightarrow> ('s, 'e, 'a) rust \<Rightarrow> bool" where
  "keeps I E F m = (\<forall>s. I s \<longrightarrow> wp m (\<lambda>_. I) E F s)"

named_theorems keeps \<open>methods that keep an invariant\<close>

lemma keepsI: "(\<And>s. I s \<Longrightarrow> wp m (\<lambda>_. I) E F s) \<Longrightarrow> keeps I E F m"
  by (simp add: keeps_def)

lemma keepsD: "keeps I E F m \<Longrightarrow> I s \<Longrightarrow> wp m (\<lambda>_. I) E F s"
  by (simp add: keeps_def)

lemma keeps_andthen [keeps]:
  "keeps I E F m \<Longrightarrow> (\<And>x. keeps I E F (f x)) \<Longrightarrow> keeps I E F (andthen m f)"
  by (auto simp: keeps_def wp intro: wp_mono)

lemma keeps_ret [keeps]: "keeps I E F (ret x)"
  and keeps_read [keeps]: "keeps I E F (read g)"
  by (simp_all add: keeps_def wp)

lemma keeps_update [keeps]: "(\<And>s. I s \<Longrightarrow> I (g s)) \<Longrightarrow> keeps I E F (update g)"
  by (simp add: keeps_def wp)

lemma keeps_bail [keeps]: "(\<And>s. I s \<Longrightarrow> E e s) \<Longrightarrow> keeps I E F (bail e)"
  by (simp add: keeps_def wp)

lemma keeps_require [keeps]: "(\<And>s. I s \<Longrightarrow> \<not> b s \<Longrightarrow> E e s) \<Longrightarrow> keeps I E F (require b e)"
  by (simp add: keeps_def wp)

lemma keeps_assert [keeps]: "(\<And>s. I s \<Longrightarrow> \<not> b s \<Longrightarrow> F s) \<Longrightarrow> keeps I E F (assert_that b)"
  by (simp add: keeps_def wp)

lemma keeps_unwrap [keeps]: "(\<And>s. I s \<Longrightarrow> g s = None \<Longrightarrow> F s) \<Longrightarrow> keeps I E F (unwrap g)"
  by (simp add: keeps_def wp split: option.splits)

lemma keeps_run_if [keeps]: "keeps I E F m \<Longrightarrow> keeps I E F (run_if b m)"
  by (simp add: keeps_def wp)

lemma keeps_branch [keeps]: "keeps I E F m \<Longrightarrow> keeps I E F n \<Longrightarrow> keeps I E F (branch b m n)"
  by (simp add: keeps_def wp)

lemma keeps_if [keeps]: "(b \<Longrightarrow> keeps I E F m) \<Longrightarrow> (\<not> b \<Longrightarrow> keeps I E F n) \<Longrightarrow> keeps I E F (if b then m else n)"
  by simp

text \<open>\<open>returns P m\<close>: every value that \<open>m\<close> returns satisfies \<open>P\<close>.\<close>

definition returns :: "('a \<Rightarrow> bool) \<Rightarrow> ('s, 'e, 'a) rust \<Rightarrow> bool" where
  "returns P m = (\<forall>s. wp m (\<lambda>x _. P x) (\<lambda>_ _. True) (\<lambda>_. True) s)"

lemma wp_True: "wp m (\<lambda>_ _. True) (\<lambda>_ _. True) (\<lambda>_. True) s"
  by (auto simp: wp_def split: prod.splits outcome.splits)

lemma returns_andthen [keeps]: "(\<And>x. returns P (f x)) \<Longrightarrow> returns P (andthen m f)"
  by (auto simp: returns_def wp intro: wp_mono [OF wp_True])

lemma returns_simps [keeps]:
  "P x \<Longrightarrow> returns P (ret x)" "(\<And>s. P (g s)) \<Longrightarrow> returns P (read g)" "returns P (bail e)"
  "returns P m \<Longrightarrow> returns P n \<Longrightarrow> returns P (branch b m n)"
  "(c \<Longrightarrow> returns P m) \<Longrightarrow> (\<not> c \<Longrightarrow> returns P n) \<Longrightarrow> returns P (if c then m else n)"
  by (simp_all add: returns_def wp)

section \<open>Checked arithmetic\<close>

text \<open>\<open>u64::checked_add\<close> and \<open>u64::checked_sub\<close>.\<close>

definition checked_add :: "'a::len word \<Rightarrow> 'a word \<Rightarrow> 'a word option" where
  "checked_add a b = (if unat a + unat b < 2 ^ LENGTH('a) then Some (a + b) else None)"

definition checked_sub :: "'a::len word \<Rightarrow> 'a word \<Rightarrow> 'a word option" where
  "checked_sub a b = (if b \<le> a then Some (a - b) else None)"

lemma checked_add_Some:
  "checked_add a b = Some c \<longleftrightarrow> unat a + unat b < 2 ^ LENGTH('a) \<and> c = a + b"
  for a b :: "'a::len word"
  by (auto simp: checked_add_def)

lemma unat_add_no_overflow:
  "unat a + unat b < 2 ^ LENGTH('a) \<Longrightarrow> unat (a + b) = unat a + unat b"
  for a b :: "'a::len word"
  by (simp add: unat_word_ariths)

lemma checked_add_unat: "checked_add a b = Some c \<Longrightarrow> unat c = unat a + unat b"
  for a b :: "'a::len word"
  by (auto simp: checked_add_Some unat_add_no_overflow)

lemma checked_sub_unat: "checked_sub a b = Some c \<Longrightarrow> unat c = unat a - unat b \<and> b \<le> a"
  for a b :: "'a::len word"
  by (auto simp: checked_sub_def unat_sub split: if_splits)

lemma checked_add_le: "checked_add a b = Some c \<Longrightarrow> a \<le> c"
  for a b :: "'a::len word"
  by (drule checked_add_unat) (simp add: word_le_nat_alt)

end
