(* ===== verification/Rust_Std.thy ===== *)
theory Rust_Std
  imports Neon_Prelude
begin

text \<open>
  The parts of Rust's standard library that the modelled code uses on strings and on
  byte arrays: hexadecimal formatting (\<open>{:X}\<close>, \<open>{:08X}\<close>, \<open>{:02x}\<close>),
  \<open>uN::from_str_radix(_, 16)\<close>, \<open>str::split\<close>, \<open>str::trim\<close> and the
  \<open>to_le_bytes\<close> / \<open>from_be_bytes\<close> family. A \<open>str\<close> is a list of its bytes; \<open>trim\<close> is
  modelled on the ASCII white space characters only.
\<close>

section \<open>Hexadecimal formatting\<close>

definition hex_char :: "bool \<Rightarrow> nat \<Rightarrow> char" where
  "hex_char up d =
     (if d < 10 then char_of (48 + d) else if up then char_of (55 + d) else char_of (87 + d))"

fun hex_digits :: "bool \<Rightarrow> nat \<Rightarrow> string" where
  "hex_digits up n =
     (if n < 16 then [hex_char up n] else hex_digits up (n div 16) @ [hex_char up (n mod 16)])"

declare hex_digits.simps [simp del]

definition pad_left :: "nat \<Rightarrow> string \<Rightarrow> string" where
  "pad_left w s = replicate (w - length s) CHR ''0'' @ s"

definition fmt_hex :: "bool \<Rightarrow> nat \<Rightarrow> 'a::len word \<Rightarrow> string" where
  "fmt_hex up w x = pad_left w (hex_digits up (unat x))"

section \<open>Hexadecimal parsing\<close>

definition hex_val :: "char \<Rightarrow> nat option" where
  "hex_val c = (let k = of_char c :: nat in
     if 48 \<le> k \<and> k \<le> 57 then Some (k - 48)
     else if 65 \<le> k \<and> k \<le> 70 then Some (k - 55)
     else if 97 \<le> k \<and> k \<le> 102 then Some (k - 87)
     else None)"

fun parse_digits :: "nat \<Rightarrow> string \<Rightarrow> nat option" where
  "parse_digits acc [] = Some acc"
| "parse_digits acc (c # cs) =
     (case hex_val c of None \<Rightarrow> None | Some d \<Rightarrow> parse_digits (acc * 16 + d) cs)"

text \<open>
  An empty string and a lone sign are errors, one leading \<open>+\<close> is accepted, and a value
  that does not fit the type is an error.
\<close>

definition from_str_radix16 :: "string \<Rightarrow> 'a::len word option" where
  "from_str_radix16 s =
     (let ds = (case s of c # cs \<Rightarrow> if c = CHR ''+'' then cs else s | [] \<Rightarrow> []) in
      if ds = [] then None
      else case parse_digits 0 ds of
          None \<Rightarrow> None
        | Some n \<Rightarrow> if n < 2 ^ LENGTH('a) then Some (of_nat n) else None)"

section \<open>Splitting and trimming\<close>

fun split_on :: "char \<Rightarrow> string \<Rightarrow> string list" where
  "split_on c [] = [[]]"
| "split_on c (x # xs) =
     (if x = c then [] # split_on c xs
      else case split_on c xs of [] \<Rightarrow> [[x]] | y # ys \<Rightarrow> (x # y) # ys)"

definition is_space :: "char \<Rightarrow> bool" where
  "is_space c = (of_char c \<in> {9 :: nat, 10, 11, 12, 13, 32})"

definition trim :: "string \<Rightarrow> string" where
  "trim s = rev (dropWhile is_space (rev (dropWhile is_space s)))"

section \<open>Byte order\<close>

primrec nat_to_le :: "nat \<Rightarrow> nat \<Rightarrow> byte list" where
  "nat_to_le 0 n = []"
| "nat_to_le (Suc k) n = of_nat (n mod 256) # nat_to_le k (n div 256)"

primrec le_to_nat :: "byte list \<Rightarrow> nat" where
  "le_to_nat [] = 0"
| "le_to_nat (b # bs) = unat b + 256 * le_to_nat bs"

definition to_le_bytes :: "'a::len word \<Rightarrow> byte list" where
  "to_le_bytes x = nat_to_le (LENGTH('a) div 8) (unat x)"

definition from_le_bytes :: "byte list \<Rightarrow> 'a::len word" where
  "from_le_bytes bs = of_nat (le_to_nat bs)"

definition to_be_bytes :: "'a::len word \<Rightarrow> byte list" where
  "to_be_bytes x = rev (to_le_bytes x)"

definition from_be_bytes :: "byte list \<Rightarrow> 'a::len word" where
  "from_be_bytes bs = from_le_bytes (rev bs)"

section \<open>Lemmas on hexadecimal text\<close>

lemma hex_val_hex_char [simp]: "d < 16 \<Longrightarrow> hex_val (hex_char up d) = Some d"
  by (auto simp: hex_val_def hex_char_def Let_def)

lemma hex_val_zero [simp]: "hex_val CHR ''0'' = Some 0"
  by (simp add: hex_val_def Let_def)

lemma hex_val_sep [simp]:
  "hex_val CHR ''+'' = None" "hex_val CHR ''/'' = None" "hex_val CHR ''-'' = None"
  "hex_val CHR ''.'' = None"
  by (simp_all add: hex_val_def Let_def)

lemma hex_val_space: "is_space c \<Longrightarrow> hex_val c = None"
  by (auto simp: is_space_def hex_val_def Let_def)

lemma parse_digits_append:
  "parse_digits acc (xs @ ys) =
     (case parse_digits acc xs of None \<Rightarrow> None | Some n \<Rightarrow> parse_digits n ys)"
  by (induction xs arbitrary: acc) (auto split: option.splits)

lemma parse_digits_replicate0 [simp]:
  "parse_digits 0 (replicate k CHR ''0'' @ s) = parse_digits 0 s"
  by (induction k) auto

lemma parse_hex_digits [simp]: "parse_digits 0 (hex_digits up n) = Some n"
proof (induction up n rule: hex_digits.induct)
  case (1 up n)
  show ?case
  proof (cases "n < 16")
    case True
    then show ?thesis by (simp add: hex_digits.simps [of up n])
  next
    case False
    with 1 show ?thesis
      by (simp add: hex_digits.simps [of up n] parse_digits_append)
  qed
qed

lemma hex_digits_valid: "c \<in> set (hex_digits up n) \<Longrightarrow> hex_val c \<noteq> None"
proof (induction up n rule: hex_digits.induct)
  case (1 up n)
  then show ?case
    by (cases "n < 16") (auto simp: hex_digits.simps [of up n])
qed

lemma hex_digits_nonempty [simp]: "hex_digits up n \<noteq> []"
  by (subst hex_digits.simps) auto

lemma hex_digits_length: "n < 16 ^ Suc k \<Longrightarrow> length (hex_digits up n) \<le> Suc k"
proof (induction k arbitrary: n)
  case 0
  then show ?case by (simp add: hex_digits.simps [of up n])
next
  case (Suc k)
  show ?case
  proof (cases "n < 16")
    case True
    then show ?thesis by (simp add: hex_digits.simps [of up n])
  next
    case False
    from Suc.prems have "n div 16 < 16 ^ Suc k"
      by (simp add: less_mult_imp_div_less mult.commute)
    with Suc.IH False show ?thesis
      by (simp add: hex_digits.simps [of up n])
  qed
qed

lemma pad_left_valid:
  "(\<And>c. c \<in> set s \<Longrightarrow> hex_val c \<noteq> None) \<Longrightarrow> c \<in> set (pad_left w s) \<Longrightarrow> hex_val c \<noteq> None"
  by (auto simp: pad_left_def)

lemma fmt_hex_valid: "c \<in> set (fmt_hex up w x) \<Longrightarrow> hex_val c \<noteq> None"
  unfolding fmt_hex_def by (rule pad_left_valid [OF hex_digits_valid])

lemma fmt_hex_nonempty [simp]: "fmt_hex up w x \<noteq> []"
  by (simp add: fmt_hex_def pad_left_def)

lemma fmt_hex_length:
  fixes x :: "'a::len word"
  assumes "LENGTH('a) = 4 * Suc k" and "w = Suc k"
  shows "length (fmt_hex up w x) = w"
proof -
  have "unat x < 2 ^ LENGTH('a)" by (rule unsigned_less)
  also have "(2::nat) ^ LENGTH('a) = 16 ^ Suc k"
    by (simp add: assms(1) power_add power_mult)
  finally have "length (hex_digits up (unat x)) \<le> Suc k"
    by (rule hex_digits_length)
  then show ?thesis by (simp add: fmt_hex_def pad_left_def assms(2))
qed

lemma fmt_hex_length_u8 [simp]: "length (fmt_hex up 2 (x :: u8)) = 2"
  by (rule fmt_hex_length [of 1]) simp_all

lemma fmt_hex_length_u32 [simp]: "length (fmt_hex up 8 (x :: u32)) = 8"
  by (rule fmt_hex_length [of 7]) simp_all

lemma fmt_hex_length_u64 [simp]: "length (fmt_hex up 16 (x :: u64)) = 16"
  by (rule fmt_hex_length [of 15]) simp_all

lemma from_str_radix16_valid:
  assumes "\<And>c. c \<in> set s \<Longrightarrow> hex_val c \<noteq> None" and "s \<noteq> []"
  shows "from_str_radix16 s = (case parse_digits 0 s of None \<Rightarrow> None
           | Some n \<Rightarrow> if n < 2 ^ LENGTH('a) then Some (of_nat n :: 'a::len word) else None)"
proof -
  have "hd s \<noteq> CHR ''+''"
    using assms hex_val_sep(1) by (metis hd_in_set)
  then show ?thesis
    using assms(2) by (cases s) (auto simp: from_str_radix16_def Let_def)
qed

text \<open>Printing a word in hexadecimal, padded or not, and parsing it back.\<close>

lemma from_str_radix16_fmt_hex_cast:
  "from_str_radix16 (fmt_hex up w (x :: 'a::len word)) =
     (if unat x < 2 ^ LENGTH('b) then Some (ucast x :: 'b::len word) else None)"
proof -
  have "parse_digits 0 (fmt_hex up w x) = Some (unat x)"
    by (simp add: fmt_hex_def pad_left_def)
  then show ?thesis
    by (subst from_str_radix16_valid) (auto dest: fmt_hex_valid)
qed

lemma from_str_radix16_fmt_hex [simp]: "from_str_radix16 (fmt_hex up w x) = Some (x :: 'a::len word)"
  using unsigned_less [of x] by (simp add: from_str_radix16_fmt_hex_cast)

section \<open>Lemmas on splitting and trimming\<close>

lemma split_on_nonempty [simp]: "split_on c s \<noteq> []"
  by (induction s) (auto split: list.splits)

lemma split_on_none: "c \<notin> set s \<Longrightarrow> split_on c s = [s]"
  by (induction s) auto

lemma split_on_append: "c \<notin> set a \<Longrightarrow> split_on c (a @ c # b) = a # split_on c b"
  by (induction a) (auto split: list.splits)

lemma trim_id:
  assumes "s \<noteq> []" and "\<not> is_space (hd s)" and "\<not> is_space (last s)"
  shows "trim s = s"
proof -
  have "dropWhile is_space s = s" using assms(1,2) by (cases s) auto
  moreover have "dropWhile is_space (rev s) = rev s"
    using assms(1,3) by (cases "rev s") (auto simp: last_rev hd_rev)
  ultimately show ?thesis by (simp add: trim_def)
qed

section \<open>Lemmas on byte order\<close>

lemma nat_to_le_length [simp]: "length (nat_to_le k n) = k"
  by (induction k arbitrary: n) auto

lemma le_to_nat_of_nat_to_le: "n < 256 ^ k \<Longrightarrow> le_to_nat (nat_to_le k n) = n"
proof (induction k arbitrary: n)
  case 0
  then show ?case by simp
next
  case (Suc k)
  from Suc.prems have "n div 256 < 256 ^ k"
    by (simp add: less_mult_imp_div_less mult.commute)
  then have "le_to_nat (nat_to_le k (n div 256)) = n div 256" by (rule Suc.IH)
  moreover have "unat (of_nat (n mod 256) :: byte) = n mod 256"
    by (simp add: unat_of_nat)
  ultimately show ?case by simp
qed

lemma nat_to_le_of_le_to_nat: "nat_to_le (length bs) (le_to_nat bs) = bs"
proof (induction bs)
  case Nil
  then show ?case by simp
next
  case (Cons b bs)
  have "unat b < 256" using unsigned_less [of b] by simp
  then have "(unat b + 256 * le_to_nat bs) mod 256 = unat b"
    and "(unat b + 256 * le_to_nat bs) div 256 = le_to_nat bs" by simp_all
  with Cons.IH show ?case by simp
qed

lemma le_to_nat_bound: "le_to_nat bs < 256 ^ length bs"
proof (induction bs)
  case Nil
  then show ?case by simp
next
  case (Cons b bs)
  have "unat b < 256" using unsigned_less [of b] by simp
  with Cons.IH show ?case by simp
qed

lemma from_to_le_bytes:
  fixes x :: "'a::len word"
  assumes "8 dvd LENGTH('a)"
  shows "from_le_bytes (to_le_bytes x) = x"
proof -
  have "(256::nat) ^ (LENGTH('a) div 8) = 2 ^ (8 * (LENGTH('a) div 8))"
    by (simp add: power_mult)
  also have "8 * (LENGTH('a) div 8) = LENGTH('a)" using assms by simp
  finally have "unat x < 256 ^ (LENGTH('a) div 8)" using unsigned_less [of x] by simp
  then show ?thesis
    by (simp add: from_le_bytes_def to_le_bytes_def le_to_nat_of_nat_to_le)
qed

lemma to_from_le_bytes:
  assumes "8 dvd LENGTH('a::len)" and "length bs = LENGTH('a) div 8"
  shows "to_le_bytes (from_le_bytes bs :: 'a word) = bs"
proof -
  have "(256::nat) ^ length bs = 2 ^ (8 * length bs)"
    by (simp add: power_mult)
  also have "8 * length bs = LENGTH('a)" using assms by simp
  finally have "le_to_nat bs < 2 ^ LENGTH('a)" using le_to_nat_bound [of bs] by simp
  then have "unat (of_nat (le_to_nat bs) :: 'a word) = le_to_nat bs"
    by (simp add: unat_of_nat)
  then show ?thesis
    using nat_to_le_of_le_to_nat [of bs] assms(2)
    by (simp add: from_le_bytes_def to_le_bytes_def)
qed

lemma to_le_bytes_length [simp]: "length (to_le_bytes (x :: 'a::len word)) = LENGTH('a) div 8"
  by (simp add: to_le_bytes_def)

lemma to_be_bytes_length [simp]: "length (to_be_bytes (x :: 'a::len word)) = LENGTH('a) div 8"
  by (simp add: to_be_bytes_def)

lemma from_to_be_bytes:
  "8 dvd LENGTH('a) \<Longrightarrow> from_be_bytes (to_be_bytes x) = (x :: 'a::len word)"
  by (simp add: from_be_bytes_def to_be_bytes_def from_to_le_bytes)

lemma to_from_be_bytes:
  assumes "8 dvd LENGTH('a::len)" and "length bs = LENGTH('a) div 8"
  shows "to_be_bytes (from_be_bytes bs :: 'a word) = bs"
  using to_from_le_bytes [where 'a = 'a, of "rev bs"] assms
  by (simp add: from_be_bytes_def to_be_bytes_def)

end
