(* ===== verification/Lsn.thy ===== *)
theory Lsn
  imports Rust_Std
begin

unbundle bit_operations_syntax

text \<open>
  \<open>libs/utils/src/lsn.rs\<close>: log sequence numbers. \<open>Lsn(u64)\<close> is the 64-bit word it
  wraps, so its derived order is the order of words. \<open>usize\<close> is 64 bits wide. Division
  and remainder by zero and the addition \<open>Lsn + u64\<close> on overflow panic: \<open>None\<close>.
\<close>

type_synonym lsn = u64

definition XLOG_BLCKSZ :: u64 where
  "XLOG_BLCKSZ = 8192"

definition Lsn_MAX :: lsn where
  "Lsn_MAX = - 1"

definition Lsn_INVALID :: lsn where
  "Lsn_INVALID = 0"

definition lsn_checked_sub :: "lsn \<Rightarrow> u64 \<Rightarrow> lsn option" where
  "lsn_checked_sub self other = checked_sub self other"

definition widening_sub :: "lsn \<Rightarrow> u64 \<Rightarrow> int" where
  "widening_sub self other = uint self - uint other"

definition from_hex :: "string \<Rightarrow> lsn option" where
  "from_hex s = from_str_radix16 s"

definition segment_offset :: "lsn \<Rightarrow> usize \<Rightarrow> usize option" where
  "segment_offset self seg_sz = (if seg_sz = 0 then None else Some (self mod seg_sz))"

definition segment_lsn :: "lsn \<Rightarrow> usize \<Rightarrow> lsn option" where
  "segment_lsn self seg_sz = (if seg_sz = 0 then None else Some (self - self mod seg_sz))"

definition segment_number :: "lsn \<Rightarrow> usize \<Rightarrow> u64 option" where
  "segment_number self seg_sz = (if seg_sz = 0 then None else Some (self div seg_sz))"

definition block_offset :: "lsn \<Rightarrow> u64" where
  "block_offset self = self mod XLOG_BLCKSZ"

definition page_lsn :: "lsn \<Rightarrow> lsn" where
  "page_lsn self = self - block_offset self"

definition page_offset_in_segment :: "lsn \<Rightarrow> usize \<Rightarrow> u64 option" where
  "page_offset_in_segment self seg_sz =
     map_option (\<lambda>l. (self - block_offset self) - l) (segment_lsn self seg_sz)"

definition remaining_in_block :: "lsn \<Rightarrow> u64" where
  "remaining_in_block self = XLOG_BLCKSZ - self mod XLOG_BLCKSZ"

definition calc_padding :: "lsn \<Rightarrow> u64 \<Rightarrow> u64 option" where
  "calc_padding self sz = (if sz = 0 then None else Some ((sz - self) mod sz))"

text \<open>\<open>self.0 + 7\<close> is the plain addition: it wraps in a release build.\<close>

definition align :: "lsn \<Rightarrow> lsn" where
  "align self = (self + 7) AND NOT 7"

definition is_aligned :: "lsn \<Rightarrow> bool" where
  "is_aligned self = (self = align self)"

definition is_valid :: "lsn \<Rightarrow> bool" where
  "is_valid self = (self \<noteq> Lsn_INVALID)"

definition lsn_from_str :: "string \<Rightarrow> lsn option" where
  "lsn_from_str s = (case split_on CHR ''/'' (trim s) of
       [left, right] \<Rightarrow>
         (case from_str_radix16 left :: u32 option of
            None \<Rightarrow> None
          | Some left_num \<Rightarrow>
              (case from_str_radix16 right :: u32 option of
                 None \<Rightarrow> None
               | Some right_num \<Rightarrow> Some (push_bit 32 (ucast left_num) OR ucast right_num)))
     | _ \<Rightarrow> None)"

definition lsn_fmt :: "lsn \<Rightarrow> string" where
  "lsn_fmt self = fmt_hex True 0 (drop_bit 32 self) @ CHR ''/'' # fmt_hex True 0 (self AND 0xffffffff)"

definition lsn_add :: "lsn \<Rightarrow> u64 \<Rightarrow> lsn option" where
  "lsn_add self other = checked_add self other"

text \<open>
  \<open>AtomicLsn\<close>: one shared cell; each operation is one atomic step, which returns the
  old value. \<open>fetch_add\<close> stores the wrapped sum before its overflow assertion.
\<close>

definition atomic_store :: "lsn \<Rightarrow> (lsn, 'e, unit) rust" where
  "atomic_store l = update (\<lambda>_. l)"

definition atomic_fetch_add :: "u64 \<Rightarrow> (lsn, 'e, lsn) rust" where
  "atomic_fetch_add val =
     andthen (read id) (\<lambda>prev.
     andthen (update (\<lambda>cur. cur + val)) (\<lambda>_.
     andthen (assert_that (\<lambda>_. checked_add prev val \<noteq> None)) (\<lambda>_.
     ret prev)))"

definition atomic_fetch_max :: "lsn \<Rightarrow> (lsn, 'e, lsn) rust" where
  "atomic_fetch_max l =
     andthen (read id) (\<lambda>prev.
     andthen (update (\<lambda>cur. max cur l)) (\<lambda>_.
     ret prev))"

record record_lsn =
  rl_last :: lsn
  rl_prev :: lsn

definition record_cnt_advance :: "lsn \<Rightarrow> (record_lsn, 'e, unit) rust" where
  "record_cnt_advance l =
     andthen (assert_that (\<lambda>self. rl_last self \<le> l)) (\<lambda>_.
     update (\<lambda>self. self\<lparr>rl_last := l, rl_prev := rl_last self\<rparr>))"

definition record_cnt_value :: "record_lsn \<Rightarrow> lsn" where
  "record_cnt_value self = rl_last self"

lemma unat_lt: "unat l < 18446744073709551616" for l :: u64
  using unsigned_less [of l, where ?'a = nat] by simp

section \<open>Positions within segments and blocks\<close>

lemma segment_offset_Some:
  "segment_offset l sz = Some n \<longleftrightarrow> sz \<noteq> 0 \<and> n = l mod sz"
  by (auto simp: segment_offset_def)

lemma segment_number_Some:
  "segment_number l sz = Some n \<longleftrightarrow> sz \<noteq> 0 \<and> n = l div sz"
  by (auto simp: segment_number_def)

lemma unat_mod_less: "sz \<noteq> 0 \<Longrightarrow> unat (l mod sz) < unat sz" for l sz :: u64
  by (simp add: unat_mod word_neq_0_conv unat_gt_0)

lemma unat_minus_mod: "unat (l - l mod sz) = unat l - unat l mod unat sz" for l sz :: u64
proof -
  have "unat (l mod sz) \<le> unat l" by (simp add: unat_mod)
  then have "l mod sz \<le> l" by (simp add: word_le_nat_alt)
  then show ?thesis by (simp add: unat_sub unat_mod)
qed

text \<open>Segment number and offset determine the position, as in \<open>XLogSegNoOffsetToRecPtr\<close>.\<close>

lemma segment_decompose:
  assumes "segment_number l sz = Some n" and "segment_offset l sz = Some k"
  shows "unat l = unat n * unat sz + unat k" and "unat k < unat sz"
proof -
  from assms have "n = l div sz" and "k = l mod sz" and "sz \<noteq> 0"
    by (simp_all add: segment_number_Some segment_offset_Some)
  then show "unat l = unat n * unat sz + unat k" and "unat k < unat sz"
    by (simp_all only: unat_div unat_mod div_mult_mod_eq unat_mod_less [unfolded unat_mod] not_False_eq_True)
qed

lemma segment_lsn_le: "segment_lsn l sz = Some b \<Longrightarrow> b \<le> l"
  by (auto simp: segment_lsn_def word_le_nat_alt unat_minus_mod split: if_splits)

section \<open>Alignment\<close>

lemma align_alt: "align l = (l + 7) - take_bit 3 (l + 7)"
proof -
  have "align l = (l + 7) AND NOT (mask 3)"
    by (simp add: align_def mask_eq_exp_minus_1)
  also have "\<dots> = push_bit 3 (drop_bit 3 (l + 7))"
    by (rule bit_eqI) (auto simp: bit_simps)
  also have "\<dots> = (l + 7) - take_bit 3 (l + 7)"
    using bits_ident [of 3 "l + 7"] by (simp add: eq_diff_eq)
  finally show ?thesis .
qed

lemma unat_align: "unat (align l) = 8 * (unat (l + 7) div 8)"
proof -
  have t: "take_bit 3 (l + 7) = (l + 7) mod 8" by (simp add: take_bit_eq_mod)
  have "unat (align l) = unat (l + 7) - unat (l + 7) mod 8"
    by (simp only: align_alt t unat_minus_mod) simp
  then show ?thesis by (simp add: minus_mod_eq_mult_div)
qed

lemma unat_align_no_wrap:
  "unat l + 7 < 2 ^ 64 \<Longrightarrow> unat (align l) = 8 * ((unat l + 7) div 8)"
  using unat_add_no_overflow [of l 7] by (simp add: unat_align)

lemma align_idem: "align (align l) = align l"
proof -
  have d: "unat (align l) = 8 * (unat (l + 7) div 8)" by (rule unat_align)
  have "unat (l + 7) < 2 ^ 64" using unsigned_less [of "l + 7"] by simp
  with d have "unat (align l) + 7 < 2 ^ 64" by (simp add: d) presburger
  from unat_align_no_wrap [OF this] have "unat (align (align l)) = unat (align l)"
    by (simp add: d)
  then show ?thesis by (simp add: word_unat_eq_iff)
qed

section \<open>Properties\<close>

text \<open>
  C28. Printing and parsing: \<open>Lsn::from_str\<close> recovers every LSN from its
  \<open>Display\<close> form \<open>{:X}/{:X}\<close>.
\<close>

theorem lsn_from_str_fmt: "lsn_from_str (lsn_fmt l) = Some l"
proof -
  let ?a = "fmt_hex True 0 (drop_bit 32 l)" and ?b = "fmt_hex True 0 (l AND 0xffffffff)"
  have m: "l AND 0xffffffff = take_bit 32 l"
    by (simp add: take_bit_eq_mask mask_eq_exp_minus_1)
  have sl: "CHR ''/'' \<notin> set ?a" "CHR ''/'' \<notin> set ?b"
    by (auto dest: fmt_hex_valid)
  have sp: "\<not> is_space (hd (lsn_fmt l))" "\<not> is_space (last (lsn_fmt l))"
    using fmt_hex_valid [OF hd_in_set, of True 0 "drop_bit 32 l"]
      fmt_hex_valid [OF last_in_set, of True 0 "l AND 0xffffffff"]
    by (auto simp: lsn_fmt_def dest: hex_val_space)
  have "split_on CHR ''/'' (trim (lsn_fmt l)) = [?a, ?b]"
    using trim_id [OF _ sp] sl by (simp add: lsn_fmt_def split_on_append split_on_none)
  moreover have "unat (drop_bit 32 l) < 2 ^ 32" "unat (take_bit 32 l) < 2 ^ 32"
    using unat_lt [of l]
    by (simp_all only: unsigned_drop_bit_eq unsigned_take_bit_eq)
      (simp_all add: drop_bit_eq_div take_bit_eq_mod less_mult_imp_div_less)
  moreover have "push_bit 32 (ucast (ucast (drop_bit 32 l) :: u32)) OR
      ucast (ucast (take_bit 32 l) :: u32) = l"
    by (rule bit_eqI) (auto simp: bit_simps)
  ultimately show ?thesis
    by (simp add: lsn_from_str_def from_str_radix16_fmt_hex_cast m)
qed

end
