(* ===== verification/Xlog_Utils.thy ===== *)
theory Xlog_Utils
  imports Lsn
begin

text \<open>
  Version-independent helpers of \<open>libs/postgres_ffi/src\<close>: names of WAL segment files, the
  normalization of positions, the arithmetic of transaction ids (\<open>xlog_utils.rs\<close>,
  \<open>lib.rs\<close>), and page headers and free space map addresses (\<open>lib.rs\<close>). A \<open>None\<close> is a
  panic: a division by zero, a slice out of range or a failed \<open>unwrap\<close>.
\<close>

unbundle bit_operations_syntax

definition PG_TLI :: u32 where
  "PG_TLI = 1"

definition XLOG_FNAME_LEN :: nat where
  "XLOG_FNAME_LEN = 24"

section \<open>Segment file names\<close>

definition XLogSegmentsPerXLogId :: "u64 \<Rightarrow> u64 option" where
  "XLogSegmentsPerXLogId wal_segsz_bytes =
     (if wal_segsz_bytes = 0 then None else Some (0x100000000 div wal_segsz_bytes))"

definition XLogSegNoOffsetToRecPtr :: "u64 \<Rightarrow> u32 \<Rightarrow> u64 \<Rightarrow> u64" where
  "XLogSegNoOffsetToRecPtr segno offset wal_segsz_bytes = segno * wal_segsz_bytes + ucast offset"

definition XLogFileName :: "u32 \<Rightarrow> u64 \<Rightarrow> u64 \<Rightarrow> string option" where
  "XLogFileName tli logSegNo wal_segsz_bytes = (case XLogSegmentsPerXLogId wal_segsz_bytes of
       None \<Rightarrow> None
     | Some n \<Rightarrow> if n = 0 then None
         else Some (fmt_hex True 8 tli @ fmt_hex True 8 (logSegNo div n) @ fmt_hex True 8 (logSegNo mod n)))"

definition XLogFromFileName :: "string \<Rightarrow> u64 \<Rightarrow> (u64 \<times> u32) option" where
  "XLogFromFileName fname wal_seg_size =
     (if length fname < 24 then None
      else case (from_str_radix16 (take 8 fname) :: u32 option,
                 from_str_radix16 (take 8 (drop 8 fname)) :: u32 option,
                 from_str_radix16 (take 8 (drop 16 fname)) :: u32 option,
                 XLogSegmentsPerXLogId wal_seg_size) of
          (Some tli, Some lg, Some seg, Some n) \<Rightarrow> Some (ucast lg * n + ucast seg, tli)
        | _ \<Rightarrow> None)"

definition IsXLogFileName :: "string \<Rightarrow> bool" where
  "IsXLogFileName fname = (length fname = XLOG_FNAME_LEN \<and> list_all (\<lambda>c. hex_val c \<noteq> None) fname)"

definition ends_with :: "string \<Rightarrow> string \<Rightarrow> bool" where
  "ends_with s suf = (length suf \<le> length s \<and> drop (length s - length suf) s = suf)"

definition IsPartialXLogFileName :: "string \<Rightarrow> bool" where
  "IsPartialXLogFileName fname =
     (ends_with fname ''.partial'' \<and> IsXLogFileName (take (length fname - 8) fname))"

section \<open>Positions and transaction ids\<close>

definition normalize_lsn :: "nat \<Rightarrow> nat \<Rightarrow> lsn \<Rightarrow> u64 \<Rightarrow> lsn option" where
  "normalize_lsn long_phd short_phd l seg_sz =
     (if l mod XLOG_BLCKSZ = 0 then
        (if seg_sz = 0 then None
         else lsn_add l (of_nat (if l mod seg_sz = 0 then long_phd else short_phd)))
      else Some (align l))"

definition XID_CHECKPOINT_INTERVAL :: u32 where
  "XID_CHECKPOINT_INTERVAL = 1024"

definition FIRST_NORMAL_TRANSACTION_ID :: u32 where
  "FIRST_NORMAL_TRANSACTION_ID = 3"

text \<open>\<open>CheckPoint::update_next_xid\<close> on the field \<open>nextXid\<close>; \<open>epoch += 1\<close> wraps.\<close>

definition update_next_xid :: "u32 \<Rightarrow> u64 \<Rightarrow> bool \<times> u64" where
  "update_next_xid xid full_xid =
     (let new_xid = max (xid + 1) FIRST_NORMAL_TRANSACTION_ID;
          new_xid = (new_xid + (XID_CHECKPOINT_INTERVAL - 1)) AND NOT (XID_CHECKPOINT_INTERVAL - 1);
          old_xid = ucast full_xid :: u32
      in if sint (new_xid - old_xid) > 0 then
           (let epoch = drop_bit 32 full_xid;
                epoch = (if new_xid < old_xid then epoch + 1 else epoch);
                nextXid = push_bit 32 epoch OR ucast new_xid
            in if nextXid \<noteq> full_xid then (True, nextXid) else (False, full_xid))
         else (False, full_xid))"

definition transaction_id_is_normal :: "u32 \<Rightarrow> bool" where
  "transaction_id_is_normal i = (i > FIRST_NORMAL_TRANSACTION_ID)"

definition transaction_id_precedes :: "u32 \<Rightarrow> u32 \<Rightarrow> bool" where
  "transaction_id_precedes id1 id2 =
     (if \<not> transaction_id_is_normal id1 \<or> \<not> transaction_id_is_normal id2 then id1 < id2
      else sint (id1 - id2) < 0)"

text \<open>
  A \<open>SystemTime\<close> is the \<open>Duration\<close> (seconds, nanoseconds) since the Unix epoch, or
  \<open>None\<close> before it. The subtraction and the sum of \<open>to_pg_timestamp\<close> wrap.
\<close>

type_synonym duration = "u64 \<times> u32"

definition SECS_DIFF_UNIX_TO_POSTGRES_EPOCH :: u64 where
  "SECS_DIFF_UNIX_TO_POSTGRES_EPOCH = (2451545 - 2440588) * 86400"

definition USECS_PER_SEC :: u64 where
  "USECS_PER_SEC = 1000000"

definition to_pg_timestamp :: "duration option \<Rightarrow> 64 word option" where
  "to_pg_timestamp time = (case time of
       None \<Rightarrow> None
     | Some (secs, nanos) \<Rightarrow>
         Some ((secs - SECS_DIFF_UNIX_TO_POSTGRES_EPOCH) * USECS_PER_SEC + ucast (nanos div 1000)))"

definition from_pg_timestamp :: "64 word \<Rightarrow> duration option" where
  "from_pg_timestamp time =
     (if sint time < 0 then None
      else let since = time + SECS_DIFF_UNIX_TO_POSTGRES_EPOCH * USECS_PER_SEC in
        Some (since div 1000000, ucast (since mod 1000000) * 1000))"

section \<open>Pages\<close>

definition page_is_new :: "byte list \<Rightarrow> bool option" where
  "page_is_new pg = (if length pg < 16 then None else Some (pg ! 14 = 0 \<and> pg ! 15 = 0))"

definition page_get_lsn :: "byte list \<Rightarrow> lsn option" where
  "page_get_lsn pg = (if length pg < 8 then None
     else Some (push_bit 32 (ucast (from_le_bytes (take 4 pg) :: u32))
                OR ucast (from_le_bytes (take 4 (drop 4 pg)) :: u32)))"

definition page_set_lsn :: "byte list \<Rightarrow> lsn \<Rightarrow> byte list option" where
  "page_set_lsn pg l = (if length pg < 8 then None
     else Some (to_le_bytes (ucast (drop_bit 32 l) :: u32) @ to_le_bytes (ucast l :: u32) @ drop 8 pg))"

definition SLOTS_PER_FSM_PAGE :: u32 where
  "SLOTS_PER_FSM_PAGE = 8192 - 24 - 4 - (8192 div 2 - 1)"

text \<open>The additions are plain: they wrap in a release build.\<close>

fun fsm_pages :: "nat \<Rightarrow> u32 \<Rightarrow> u32 \<Rightarrow> u32" where
  "fsm_pages 0 leafno pages = pages"
| "fsm_pages (Suc n) leafno pages = fsm_pages n (leafno div SLOTS_PER_FSM_PAGE) (pages + (leafno + 1))"

definition fsm_logical_to_physical :: "u32 \<Rightarrow> u32" where
  "fsm_logical_to_physical addr = fsm_pages (if SLOTS_PER_FSM_PAGE \<ge> 1626 then 3 else 4) addr 0 - 1"

section \<open>Lemmas on file names\<close>

lemma fmt_hex_length_bound:
  assumes "unat x < 16 ^ Suc k"
  shows "length (fmt_hex up (Suc k) x) = Suc k"
  using hex_digits_length [OF assms, of up] by (simp add: fmt_hex_def pad_left_def)

lemma from_str_radix16_8:
  "unat (x :: u64) < 2 ^ 32 \<Longrightarrow> from_str_radix16 (fmt_hex up 8 x) = Some (ucast x :: u32)"
  by (simp add: from_str_radix16_fmt_hex_cast)

lemma fmt_hex_length_8: "unat (x :: u64) < 2 ^ 32 \<Longrightarrow> length (fmt_hex up 8 x) = 8"
  using fmt_hex_length_bound [of x 7 up] by simp

lemma XLogFileName_Some:
  assumes "XLogFileName tli segno sz = Some f" and "segno div (0x100000000 div sz) < 2 ^ 32"
  shows "XLogFromFileName f sz = Some (segno, tli) \<and> IsXLogFileName f"
proof -
  define n where "n = 0x100000000 div sz"
  from assms have n: "XLogSegmentsPerXLogId sz = Some n" "n \<noteq> 0" and "sz \<noteq> 0"
    and f: "f = fmt_hex True 8 tli @ fmt_hex True 8 (segno div n) @ fmt_hex True 8 (segno mod n)"
    by (auto simp: XLogFileName_def XLogSegmentsPerXLogId_def n_def split: if_splits option.splits)
  from assms(2) have hi: "unat (segno div n) < 2 ^ 32"
    by (simp add: n_def word_less_nat_alt)
  have "unat n \<le> 2 ^ 32" using div_le_dividend [of "unat (0x100000000 :: u64)" "unat sz"]
    by (simp add: n_def unat_div)
  with unat_mod_less [OF n(2), of segno] have lo: "unat (segno mod n) < 2 ^ 32" by simp
  have len8: "length (fmt_hex True 8 (segno div n)) = 8" "length (fmt_hex True 8 (segno mod n)) = 8"
    using hi lo by (blast intro: fmt_hex_length_8)+
  have len: "length f = 24" by (simp add: f len8)
  have parts: "take 8 f = fmt_hex True 8 tli" "take 8 (drop 8 f) = fmt_hex True 8 (segno div n)"
    "take 8 (drop 16 f) = fmt_hex True 8 (segno mod n)"
    by (simp_all add: f len8)
  have c: "ucast (ucast x :: u32) = x" if "unat x < 2 ^ 32" for x :: u64
    using that by (simp add: word_unat_eq_iff unsigned_ucast_eq unsigned_take_bit_eq take_bit_eq_mod unat_mod)
  have "XLogFromFileName f sz = Some (segno div n * n + segno mod n, tli)"
    by (simp add: XLogFromFileName_def len parts n(1) from_str_radix16_8 [OF hi] from_str_radix16_8 [OF lo]
      c [OF hi] c [OF lo])
  moreover have "segno div n * n + segno mod n = segno" by (rule word_mod_div_equality)
  moreover have "IsXLogFileName f"
    using len by (auto simp: IsXLogFileName_def XLOG_FNAME_LEN_def list_all_iff f dest: fmt_hex_valid)
  ultimately show ?thesis by simp
qed

lemma seg_log_bound:
  fixes l sz :: u64
  assumes "unat sz dvd 2 ^ 32"
  shows "l div sz div (0x100000000 div sz) < 2 ^ 32" and "0x100000000 div sz \<noteq> 0"
proof -
  from assms obtain k where k: "2 ^ 32 = unat sz * k" by (elim dvdE)
  then have pos: "unat sz > 0" "k > 0" by (auto intro: Nat.gr0I)
  have kk: "2 ^ 32 div unat sz = k" using k pos(1) by (metis nonzero_mult_div_cancel_left less_numeral_extra(3))
  then have n: "unat (0x100000000 div sz) = k" by (simp add: unat_div)
  with pos(2) show "0x100000000 div sz \<noteq> 0" by auto
  have "unat l div unat sz div k = unat l div 2 ^ 32"
    by (simp only: k div_mult2_eq)
  also have "\<dots> < 2 ^ 32" using unat_lt [of l] by (simp add: less_mult_imp_div_less)
  finally show "l div sz div (0x100000000 div sz) < 2 ^ 32"
    using kk by (simp add: word_less_nat_alt unat_div)
qed

lemma ends_with_partial: "IsXLogFileName f \<Longrightarrow> \<not> ends_with f ''.partial''"
proof
  assume f: "IsXLogFileName f" and "ends_with f ''.partial''"
  then have "CHR ''.'' \<in> set (drop (length f - 8) f)" by (simp add: ends_with_def numeral_eq_Suc)
  then have "CHR ''.'' \<in> set f" by (rule in_set_dropD)
  with f show False by (auto simp: IsXLogFileName_def list_all_iff)
qed

section \<open>Lemmas on transaction ids\<close>

lemma xid_align:
  fixes a :: u32
  shows "(a + (XID_CHECKPOINT_INTERVAL - 1)) AND NOT (XID_CHECKPOINT_INTERVAL - 1)
           = a + 1023 - (a + 1023) mod 1024"
proof -
  have "(a + 1023) AND NOT (mask 10) = push_bit 10 (drop_bit 10 (a + 1023))"
    by (rule bit_eqI) (auto simp: bit_simps)
  also have "\<dots> = (a + 1023) - take_bit 10 (a + 1023)"
    using bits_ident [of 10 "a + 1023"] by (simp add: eq_diff_eq)
  finally show ?thesis
    by (simp add: XID_CHECKPOINT_INTERVAL_def mask_eq_exp_minus_1 take_bit_eq_mod)
qed

text \<open>The candidate for \<open>nextXid\<close> is a little above the given \<open>xid\<close>, modulo the width.\<close>

definition next_xid_for :: "u32 \<Rightarrow> u32" where
  "next_xid_for xid = (let a = max (xid + 1) 3 in a + 1023 - (a + 1023) mod 1024)"

lemma next_xid_for_dist:
  "\<exists>e. next_xid_for xid = xid + of_nat e \<and> 1 \<le> e \<and> e \<le> 1027"
proof -
  define a where "a = max (xid + 1) 3"
  obtain k where k: "a = xid + of_nat k" "1 \<le> k" "k \<le> 4"
  proof (cases "3 \<le> xid + 1")
    case True
    then have "a = xid + of_nat 1" by (simp add: a_def max_def)
    then show ?thesis by (rule that) simp_all
  next
    case False
    then have "unat (xid + 1) < 3" by (simp add: not_le word_less_nat_alt)
    then consider "unat (xid + 1) = 0" | "unat (xid + 1) = 1" | "unat (xid + 1) = 2" by linarith
    then consider "xid + 1 = 0" | "xid + 1 = 1" | "xid + 1 = 2"
      by cases (simp_all add: word_unat_eq_iff)
    then have "a = xid + of_nat 4 \<or> a = xid + of_nat 3 \<or> a = xid + of_nat 2"
    proof cases
      case 1
      then have "xid = - 1" by (simp add: eq_neg_iff_add_eq_0)
      then show ?thesis by (simp add: a_def max_def)
    next
      case 2
      then show ?thesis by (simp add: a_def max_def)
    next
      case 3
      then have "xid = 2 - 1" by (simp only: eq_diff_eq)
      then show ?thesis by (simp add: a_def max_def)
    qed
    then show ?thesis by (elim disjE) (erule that; simp)+
  qed
  define r where "r = unat ((a + 1023) mod 1024)"
  have r: "r \<le> 1023" by (simp add: r_def unat_mod)
  have r2: "(a + 1023) mod 1024 = of_nat r" by (simp only: r_def of_nat_unat ucast_id)
  have "next_xid_for xid = xid + of_nat (k + (1023 - r))"
    using r r2 by (simp add: next_xid_for_def Let_def flip: a_def) (simp add: k(1) of_nat_diff)
  moreover have "1 \<le> k + (1023 - r) \<and> k + (1023 - r) \<le> 1027" using k r by linarith
  ultimately show ?thesis by blast
qed

lemma unat_full_xid:
  fixes x :: u32 and e :: u64
  shows "unat (push_bit 32 e OR ucast x) = (unat e * 2 ^ 32) mod 2 ^ 64 + unat x"
    and "ucast (push_bit 32 e OR ucast x) = x"
proof -
  have "push_bit 32 e OR ucast x = push_bit 32 e + (ucast x :: u64)"
    by (rule disjunctive_add [symmetric]) (auto simp: bit_simps dest: bit_imp_le_length)
  moreover have "unat (push_bit 32 e) = (unat e * 2 ^ 32) mod 2 ^ 64"
    by (simp add: push_bit_eq_mult unat_word_ariths)
  moreover have "unat (ucast x :: u64) = unat x"
    using unsigned_less [of x, where ?'a = nat] by (simp add: unsigned_ucast_eq take_bit_nat_eq_self)
  moreover have "(unat e * 2 ^ 32) mod 2 ^ 64 = (unat e mod 2 ^ 32) * 2 ^ 32"
    using mod_mult_mult2 [of "unat e" "2 ^ 32" "2 ^ 32"] by simp
  moreover have "unat e mod 2 ^ 32 < 2 ^ 32" by simp
  then have "(unat e mod 2 ^ 32) * 2 ^ 32 + unat x < 2 ^ 64"
    using unsigned_less [of x, where ?'a = nat] by simp
  ultimately show "unat (push_bit 32 e OR ucast x) = (unat e * 2 ^ 32) mod 2 ^ 64 + unat x"
    using unat_add_no_overflow [of "push_bit 32 e" "ucast x :: u64"] by simp
  show "ucast (push_bit 32 e OR ucast x) = x"
    by (rule bit_eqI) (auto simp: bit_simps)
qed

lemma full_xid_split: "unat f = unat (drop_bit 32 f) * 2 ^ 32 + unat (ucast f :: u32)" for f :: u64
  by (simp add: unsigned_drop_bit_eq drop_bit_eq_div unsigned_ucast_eq unsigned_take_bit_eq take_bit_eq_mod unat_div)

text \<open>The 64-bit id a new 32-bit one stands for, next to the stored one.\<close>

definition next_full_xid :: "u32 \<Rightarrow> u64 \<Rightarrow> u64" where
  "next_full_xid new full =
     push_bit 32 (drop_bit 32 full + (if new < ucast full then 1 else 0)) OR ucast new"

lemma next_full_xid_low [simp]: "ucast (next_full_xid new full) = new"
  by (simp add: next_full_xid_def unat_full_xid)

lemma next_full_xid_ge:
  assumes "full < 0xFFFFFFFF00000000"
  shows "full \<le> next_full_xid new full"
proof -
  define h where "h = unat (drop_bit 32 full)"
  define k :: nat where "k = (if new < ucast full then 1 else 0)"
  have "unat full < 0xFFFFFFFF00000000" using assms by (simp add: word_less_nat_alt)
  then have h: "h < 0xFFFFFFFF"
    by (simp add: h_def unsigned_drop_bit_eq drop_bit_eq_div less_mult_imp_div_less unat_div)
  have "unat (drop_bit 32 full + (if new < ucast full then 1 else 0)) = h + k"
    using h by (auto simp: h_def k_def unat_word_ariths)
  then have "unat (next_full_xid new full) = ((h + k) * 2 ^ 32) mod 2 ^ 64 + unat new"
    by (simp only: next_full_xid_def unat_full_xid)
  moreover have "(h + k) * 2 ^ 32 < 2 ^ 64" using h by (simp add: k_def)
  ultimately have n: "unat (next_full_xid new full) = (h + k) * 2 ^ 32 + unat new" by simp
  have "unat full = h * 2 ^ 32 + unat (ucast full :: u32)"
    unfolding h_def by (rule full_xid_split)
  moreover have "unat (ucast full :: u32) < 2 ^ 32" using unsigned_less [of "ucast full :: u32"] by simp
  ultimately show ?thesis
    using n by (auto simp: word_le_nat_alt k_def word_less_nat_alt split: if_splits)
qed

lemma update_next_xid_cases:
  "update_next_xid xid full =
     (let new = next_xid_for xid in
      if sint (new - ucast full) > 0 \<and> next_full_xid new full \<noteq> full
      then (True, next_full_xid new full) else (False, full))"
  unfolding update_next_xid_def next_xid_for_def xid_align FIRST_NORMAL_TRANSACTION_ID_def next_full_xid_def
  by (simp add: Let_def)

lemma next_full_xid_ne:
  "sint (next_xid_for xid - ucast full) > 0 \<Longrightarrow> next_full_xid (next_xid_for xid) full \<noteq> full"
proof
  assume pos: "sint (next_xid_for xid - ucast full) > 0" and "next_full_xid (next_xid_for xid) full = full"
  then have "ucast full = next_xid_for xid" using next_full_xid_low by metis
  with pos show False by simp
qed

lemma sint_minus_small: "e \<le> 1027 \<Longrightarrow> sint (- of_nat e :: u32) = - int e"
  by (simp add: sint_word_ariths signed_of_nat signed_take_bit_int_eq_self)

text \<open>On a range where neither side wraps, the signed distance adds up.\<close>

lemma sint_plus_small:
  fixes d :: u32
  assumes "sint d + int e < 2 ^ 31" and "e \<le> 1027"
  shows "sint (d + of_nat e) = sint d + int e"
proof -
  have "sint (of_nat e :: u32) = int e"
    using assms(2) by (simp add: signed_of_nat signed_take_bit_int_eq_self)
  moreover have "- (2 ^ 31) \<le> sint d" using sint_ge [of d] by simp
  ultimately show ?thesis
    using assms(1) by (simp add: sint_word_add signed_take_bit_int_eq_self)
qed

section \<open>Properties\<close>

text \<open>
  C29. Segment file names: for every LSN and every segment size that divides 4 GiB, the name
  of the segment that holds the LSN is a WAL file name, is not a partial one (and with the suffix
  \<open>.partial\<close> it is), and \<open>XLogFromFileName\<close> recovers segment number and timeline.
\<close>

theorem xlog_file_name_roundtrip:
  assumes "unat sz dvd 2 ^ 32"
  shows "\<exists>n f. segment_number l sz = Some n \<and> XLogFileName tli n sz = Some f
           \<and> XLogFromFileName f sz = Some (n, tli) \<and> IsXLogFileName f
           \<and> \<not> IsPartialXLogFileName f \<and> IsPartialXLogFileName (f @ ''.partial'')"
proof -
  note b = seg_log_bound(1) [OF assms, of l] seg_log_bound(2) [OF assms]
  then have sz: "sz \<noteq> 0" by auto
  with b(2) obtain f where f: "XLogFileName tli (l div sz) sz = Some f"
    by (simp add: XLogFileName_def XLogSegmentsPerXLogId_def)
  note r = XLogFileName_Some [OF f b(1)]
  then have "\<not> IsPartialXLogFileName f" "IsPartialXLogFileName (f @ ''.partial'')"
    using ends_with_partial [of f] by (auto simp: IsPartialXLogFileName_def ends_with_def)
  with r f sz show ?thesis by (simp add: segment_number_def)
qed

theorem xlog_file_name_roundtrip_witness:
  "\<exists>n f. segment_number 0x123456789AB 16777216 = Some n \<and> XLogFileName PG_TLI n 16777216 = Some f
     \<and> XLogFromFileName f 16777216 = Some (n, PG_TLI) \<and> IsXLogFileName f
     \<and> \<not> IsPartialXLogFileName f \<and> IsPartialXLogFileName (f @ ''.partial'')"
  by (rule xlog_file_name_roundtrip) simp

text \<open>
  C30. \<open>CheckPoint::update_next_xid\<close>: as long as the epoch does not overflow and the new
  xid is not half the id space away from the stored one, the full 64-bit \<open>nextXid\<close> never
  decreases, the xid precedes the new \<open>nextXid\<close> in the circular order of Postgres, and the
  result tells whether \<open>nextXid\<close> changed.
\<close>

theorem update_next_xid_advances:
  assumes "update_next_xid xid full = (b, full')"
    and "full < 0xFFFFFFFF00000000"
    and "- (2 ^ 31) + 1027 < sint (xid - ucast full)" and "sint (xid - ucast full) < 2 ^ 31 - 1027"
  shows "full \<le> full' \<and> sint (xid - ucast full') < 0 \<and> (b \<longleftrightarrow> full' \<noteq> full)"
proof -
  define old :: u32 where "old = ucast full"
  obtain e where e: "next_xid_for xid = xid + of_nat e" "1 \<le> e" "e \<le> 1027"
    using next_xid_for_dist [of xid] by blast
  have "sint ((xid - old) + of_nat e) = sint (xid - old) + int e"
    using assms(4) e(3) by (intro sint_plus_small) (auto simp: old_def)
  then have s: "sint (next_xid_for xid - old) = sint (xid - old) + int e"
    by (simp add: e(1) algebra_simps)
  show ?thesis
  proof (cases "b")
    case False
    with assms(1) have "full' = full" and "sint (next_xid_for xid - old) \<le> 0"
      using next_full_xid_ne [of xid full]
      by (auto simp: update_next_xid_cases Let_def old_def split: if_splits)
    with False s e(2) show ?thesis by (simp add: old_def)
  next
    case True
    then have full': "full' = next_full_xid (next_xid_for xid) full" and "full' \<noteq> full"
      using assms(1) by (auto simp: update_next_xid_cases Let_def split: if_splits)
    moreover have "sint (- of_nat e :: u32) < 0"
      using e sint_minus_small [of e] by simp
    ultimately show ?thesis
      using True next_full_xid_ge [OF assms(2)] by (simp add: next_full_xid_low e(1))
  qed
qed

theorem update_next_xid_advances_witness:
  "(0x1FFFFFC00 :: u64) \<le> 0x200000400 \<and> sint ((5 :: u32) - ucast (0x200000400 :: u64)) < 0
     \<and> (True \<longleftrightarrow> (0x200000400 :: u64) \<noteq> 0x1FFFFFC00)"
proof (rule update_next_xid_advances)
  show "update_next_xid 5 0x1FFFFFC00 = (True, 0x200000400)"
    by (simp add: update_next_xid_cases next_xid_for_def next_full_xid_def Let_def)
qed simp_all

text \<open>
  C31. Page headers: \<open>page_get_lsn\<close> reads what \<open>page_set_lsn\<close> stored, and setting the
  LSN changes neither the length of the page nor any byte after the first eight.
\<close>

theorem page_lsn_roundtrip:
  assumes "8 \<le> length pg"
  shows "\<exists>pg'. page_set_lsn pg l = Some pg' \<and> page_get_lsn pg' = Some l
           \<and> length pg' = length pg \<and> drop 8 pg' = drop 8 pg"
proof -
  have "push_bit 32 (ucast (ucast (drop_bit 32 l) :: u32)) OR ucast (ucast l :: u32) = l" for l :: u64
    by (rule bit_eqI) (auto simp: bit_simps)
  with assms show ?thesis
    by (simp add: page_set_lsn_def page_get_lsn_def from_to_le_bytes)
qed

theorem page_lsn_roundtrip_witness:
  "\<exists>pg'. page_set_lsn (replicate 8192 0) 0x123456789AB = Some pg' \<and> page_get_lsn pg' = Some 0x123456789AB
     \<and> length pg' = length (replicate 8192 (0 :: byte)) \<and> drop 8 pg' = drop 8 (replicate 8192 0)"
  by (rule page_lsn_roundtrip) simp

section \<open>Free space map addresses\<close>

lemma fsm_unfold:
  "fsm_logical_to_physical a = a + a div 4069 + a div 4069 div 4069 + 2"
  by (simp add: fsm_logical_to_physical_def SLOTS_PER_FSM_PAGE_def numeral_3_eq_3)



section \<open>Timestamps\<close>

lemma to_pg_timestamp_unat:
  assumes "946684800 \<le> unat secs" and "unat secs < 10000000000" and "unat nanos < 1000000000"
    and "to_pg_timestamp (Some (secs, nanos)) = Some t"
  shows "unat t = (unat secs - 946684800) * 1000000 + unat nanos div 1000"
proof -
  have n: "unat (ucast (nanos div 1000) :: u64) = unat nanos div 1000"
    using assms(3) by (simp add: unsigned_ucast_eq unat_div take_bit_nat_eq_self)
  have d: "unat (secs - 946684800) = unat secs - 946684800"
    using assms(1) by (simp add: unat_sub word_le_nat_alt)
  have "unat nanos div 1000 < 1000000" using assms(3) by (simp add: less_mult_imp_div_less)
  with d assms(2) have "unat ((secs - 946684800) * 1000000 + ucast (nanos div 1000))
      = (unat secs - 946684800) * 1000000 + unat nanos div 1000"
    by (simp only: unat_word_ariths n) simp
  moreover have "t = (secs - 946684800) * 1000000 + ucast (nanos div 1000)"
    using assms(4) by (simp add: to_pg_timestamp_def SECS_DIFF_UNIX_TO_POSTGRES_EPOCH_def USECS_PER_SEC_def)
  ultimately show ?thesis by (simp only:)
qed

text \<open>
  C33. Timestamps: for a time between the Postgres epoch and the year 2286,
  \<open>from_pg_timestamp\<close> gives back what \<open>to_pg_timestamp\<close> was given, truncated to microseconds.
\<close>

theorem pg_timestamp_roundtrip:
  assumes "946684800 \<le> unat secs" and "unat secs < 10000000000" and "unat nanos < 1000000000"
  shows "Option.bind (to_pg_timestamp (Some (secs, nanos))) from_pg_timestamp
           = Some (secs, nanos div 1000 * 1000)"
proof -
  define n where "n = unat nanos div 1000"
  have n: "n < 1000000" using assms(3) by (simp add: n_def less_mult_imp_div_less)
  obtain t where t: "to_pg_timestamp (Some (secs, nanos)) = Some t" by (simp add: to_pg_timestamp_def)
  have ut: "unat t = (unat secs - 946684800) * 1000000 + n"
    using to_pg_timestamp_unat [OF assms t] by (simp add: n_def)
  then have "unat t < 2 ^ 63" using assms n by simp
  then have "uint t < 2 ^ 63" by (simp only: uint_nat of_nat_less_numeral_power_cancel_iff)
  moreover have "- (2 ^ 63) \<le> uint t" by (rule order_trans [OF _ uint_ge_0]) simp
  ultimately have "sint t = uint t" by (simp add: sint_uint signed_take_bit_int_eq_self)
  then have pos: "\<not> sint t < 0" by (simp only: not_less uint_ge_0)
  have since: "unat (t + 946684800000000) = unat secs * 1000000 + n"
    using ut assms n by (simp add: unat_word_ariths)
  have "(t + 946684800000000) div 1000000 = secs"
    using n by (simp add: word_unat_eq_iff unat_div since)
  moreover have "ucast ((t + 946684800000000) mod 1000000) = nanos div 1000"
    using n by (simp add: word_unat_eq_iff unsigned_ucast_eq unat_mod since unat_div n_def take_bit_nat_eq_self)
  ultimately show ?thesis
    using pos by (simp add: t from_pg_timestamp_def Let_def SECS_DIFF_UNIX_TO_POSTGRES_EPOCH_def USECS_PER_SEC_def)
qed

theorem pg_timestamp_roundtrip_witness:
  "Option.bind (to_pg_timestamp (Some (1700000000, 123456789))) from_pg_timestamp
     = Some (1700000000, 123456789 div 1000 * 1000)"
  by (rule pg_timestamp_roundtrip) simp_all

end
