(* ===== verification/Wire.thy ===== *)
theory Wire
  imports Rust_Std
begin

text \<open>
  Reading and writing byte buffers. The integer codecs of the \<open>bytes\<close> and
  \<open>byteorder\<close> crates are the parameter \<open>wire\<close> of everything that uses them. The locale
  \<open>wire_format\<close> names what is relied on: an integer of width \<open>8 k\<close> takes \<open>k\<close> bytes
  and decoding inverts encoding. A buffer cursor is a byte list; a parser is a method on
  it, which panics where \<open>Buf::get_*\<close> would run past the end.
\<close>

record wire =
  enc_u32_le :: "u32 \<Rightarrow> byte list"
  dec_u32_le :: "byte list \<Rightarrow> u32"
  enc_u64_le :: "u64 \<Rightarrow> byte list"
  dec_u64_le :: "byte list \<Rightarrow> u64"
  enc_u32_be :: "u32 \<Rightarrow> byte list"
  dec_u32_be :: "byte list \<Rightarrow> u32"
  enc_u64_be :: "u64 \<Rightarrow> byte list"
  dec_u64_be :: "byte list \<Rightarrow> u64"

definition str_bytes :: "string \<Rightarrow> byte list" where
  "str_bytes s = map of_char s"

section \<open>Cursor operations\<close>

definition get_bytes :: "nat \<Rightarrow> (byte list, 'e, byte list) rust" where
  "get_bytes n = (\<lambda>bs. if length bs < n then (Panic, bs) else (Ok (take n bs), drop n bs))"

definition get_u8 :: "(byte list, 'e, u8) rust" where
  "get_u8 = andthen (get_bytes 1) (\<lambda>b. ret (hd b))"

definition get_u32_le :: "wire \<Rightarrow> (byte list, 'e, u32) rust" where
  "get_u32_le W = andthen (get_bytes 4) (\<lambda>b. ret (dec_u32_le W b))"

definition get_u64_le :: "wire \<Rightarrow> (byte list, 'e, u64) rust" where
  "get_u64_le W = andthen (get_bytes 8) (\<lambda>b. ret (dec_u64_le W b))"

definition get_u32_be :: "wire \<Rightarrow> (byte list, 'e, u32) rust" where
  "get_u32_be W = andthen (get_bytes 4) (\<lambda>b. ret (dec_u32_be W b))"

definition get_u64_be :: "wire \<Rightarrow> (byte list, 'e, u64) rust" where
  "get_u64_be W = andthen (get_bytes 8) (\<lambda>b. ret (dec_u64_be W b))"

text \<open>\<open>if bytes.remaining() < n { bail!(..) }\<close>\<close>

definition need :: "nat \<Rightarrow> 'e \<Rightarrow> (byte list, 'e, unit) rust" where
  "need n e = require (\<lambda>bs. n \<le> length bs) e"

text \<open>\<open>read_cstr\<close> of \<open>libs/pq_proto/src/lib.rs\<close>: the bytes before the first NUL.\<close>

definition read_cstr :: "(byte list, unit, byte list) rust" where
  "read_cstr = (\<lambda>bs. if 0 \<in> set bs
     then (Ok (takeWhile (\<lambda>b. b \<noteq> 0) bs), drop 1 (dropWhile (\<lambda>b. b \<noteq> 0) bs))
     else (Err (), bs))"

section \<open>Parsers that consume exactly their input\<close>

definition reads :: "(byte list, 'e, 'a) rust \<Rightarrow> byte list \<Rightarrow> 'a \<Rightarrow> bool" where
  "reads m bs x = (\<forall>rest. m (bs @ rest) = (Ok x, rest))"

named_theorems reads \<open>parsers that consume exactly an encoding\<close>

lemma readsD: "reads m bs x \<Longrightarrow> m (bs @ rest) = (Ok x, rest)"
  by (simp add: reads_def)

lemma andthen_Ok [reads]: "m s = (Ok x, t) \<Longrightarrow> andthen m f s = f x t"
  by (simp add: andthen_def)

lemma get_u8_Cons [reads]: "get_u8 (b # rest) = (Ok b, rest)"
  by (simp add: get_u8_def get_bytes_def andthen_def ret_def)

lemma get_bytes_append: "length bs = n \<Longrightarrow> get_bytes n (bs @ rest) = (Ok bs, rest)"
  by (simp add: get_bytes_def)

lemma need_ok [reads]: "n \<le> length bs \<Longrightarrow> need n e bs = (Ok (), bs)"
  by (simp add: need_def require_def)

lemma ret_apply [reads]: "ret x s = (Ok x, s)"
  by (simp add: ret_def)

lemma assert_that_apply [reads]: "b s \<Longrightarrow> assert_that b s = (Ok (), s)"
  by (simp add: assert_that_def)

lemma read_cstr_append [reads]: "0 \<notin> set bs \<Longrightarrow> read_cstr (bs @ 0 # rest) = (Ok bs, rest)"
proof -
  assume "0 \<notin> set bs"
  then have "\<forall>b\<in>set bs. b \<noteq> 0" by auto
  then have "takeWhile (\<lambda>b. b \<noteq> 0) (bs @ 0 # rest) = bs"
    and "dropWhile (\<lambda>b. b \<noteq> 0) (bs @ 0 # rest) = 0 # rest"
    by (simp_all add: takeWhile_append2 dropWhile_append2)
  then show ?thesis by (simp add: read_cstr_def)
qed

lemma wp_get_bytes [wp]:
  "wp (get_bytes n) Q E F = (\<lambda>s. if length s < n then F s else Q (take n s) (drop n s))"
  by (simp add: wp_def get_bytes_def fun_eq_iff)

lemma wp_need [wp]: "wp (need n e) Q E F = (\<lambda>s. if n \<le> length s then Q () s else E e s)"
  by (simp add: need_def wp)

lemma wp_get_ints [wp]:
  "wp (get_u32_le W) Q E F = (\<lambda>s. if length s < 4 then F s else Q (dec_u32_le W (take 4 s)) (drop 4 s))"
  "wp (get_u64_le W) Q' E F = (\<lambda>s. if length s < 8 then F s else Q' (dec_u64_le W (take 8 s)) (drop 8 s))"
  by (simp_all add: get_u32_le_def get_u64_le_def wp)

section \<open>The interface\<close>

locale wire_format =
  fixes W :: wire
  assumes u32_le: "length (enc_u32_le W x) = 4" "dec_u32_le W (enc_u32_le W x) = x"
    and u64_le: "length (enc_u64_le W y) = 8" "dec_u64_le W (enc_u64_le W y) = y"
    and u32_be: "length (enc_u32_be W x) = 4" "dec_u32_be W (enc_u32_be W x) = x"
    and u64_be: "length (enc_u64_be W y) = 8" "dec_u64_be W (enc_u64_be W y) = y"
begin

lemma get_ints:
  "get_u32_le W (enc_u32_le W x @ rest) = (Ok x, rest)"
  "get_u64_le W (enc_u64_le W y @ rest) = (Ok y, rest)"
  "get_u32_be W (enc_u32_be W x @ rest) = (Ok x, rest)"
  "get_u64_be W (enc_u64_be W y @ rest) = (Ok y, rest)"
  by (simp_all add: get_u32_le_def get_u64_le_def get_u32_be_def get_u64_be_def andthen_def
      ret_def get_bytes_append u32_le u64_le u32_be u64_be)

lemmas enc_lengths = u32_le(1) u64_le(1) u32_be(1) u64_be(1)

end

text \<open>The byte orders of the standard library satisfy the interface.\<close>

definition std_wire :: wire where
  "std_wire = \<lparr>enc_u32_le = to_le_bytes, dec_u32_le = from_le_bytes,
     enc_u64_le = to_le_bytes, dec_u64_le = from_le_bytes,
     enc_u32_be = to_be_bytes, dec_u32_be = from_be_bytes,
     enc_u64_be = to_be_bytes, dec_u64_be = from_be_bytes\<rparr>"

interpretation std: wire_format std_wire
  by unfold_locales (simp_all add: std_wire_def from_to_le_bytes from_to_be_bytes)

end
