(* ===== verification/Term_History.thy ===== *)
theory Term_History
  imports Wire Lsn
begin

text \<open>
  \<open>TermLsn\<close> and \<open>TermHistory\<close> of \<open>safekeeper/src/safekeeper.rs\<close>: the history of term
  switches of a safekeeper's or a proposer's WAL, its wire format, its truncation and the
  search for the point where two histories diverge.
\<close>

type_synonym consensus_term = u64

definition INVALID_TERM :: consensus_term where
  "INVALID_TERM = 0"

record term_lsn =
  tl_term :: consensus_term
  tl_lsn :: lsn

type_synonym term_history = "term_lsn list"

datatype parse_error = TermHistoryMissesLen | TermHistoryIncomplete | ElectedIncomplete
  | UnknownTag | DeserializeFailed | BeginAfterEnd | TooLong | UnexpectedEof

section \<open>Definitions\<close>

fun th_entries :: "wire \<Rightarrow> nat \<Rightarrow> (byte list, parse_error, term_history) rust" where
  "th_entries W 0 = ret []"
| "th_entries W (Suc n) =
     andthen (need 16 TermHistoryIncomplete) (\<lambda>_.
     andthen (get_u64_le W) (\<lambda>t.
     andthen (get_u64_le W) (\<lambda>l.
     andthen (th_entries W n) (\<lambda>es.
     ret (\<lparr>tl_term = t, tl_lsn = l\<rparr> # es)))))"

definition th_from_bytes :: "wire \<Rightarrow> (byte list, parse_error, term_history) rust" where
  "th_from_bytes W =
     andthen (need 4 TermHistoryMissesLen) (\<lambda>_.
     andthen (get_u32_le W) (\<lambda>n_entries.
     th_entries W (unat n_entries)))"

fun up_to :: "term_history \<Rightarrow> lsn \<Rightarrow> term_history" where
  "up_to [] l = []"
| "up_to (e # es) l = (if tl_lsn e > l then [] else e # up_to es l)"

text \<open>
  The loop over the common indices: the accumulator is \<open>last_common_idx\<close>; an entry of
  the same term with another LSN fails the assertion.
\<close>

fun last_common :: "nat \<Rightarrow> nat option \<Rightarrow> term_history \<Rightarrow> term_history \<Rightarrow> ('e, nat option) outcome" where
  "last_common i acc (p # ps) (s # ss) =
     (if tl_term p \<noteq> tl_term s then Ok acc
      else if tl_lsn p \<noteq> tl_lsn s then Panic
      else last_common (Suc i) (Some i) ps ss)"
| "last_common i acc _ _ = Ok acc"

definition find_highest_common_point ::
    "term_history \<Rightarrow> term_history \<Rightarrow> lsn \<Rightarrow> ('e, term_lsn option) outcome" where
  "find_highest_common_point prop_th sk_th sk_wal_end =
     (if sk_th \<noteq> [] \<and> tl_lsn (last sk_th) > sk_wal_end then Panic
      else case last_common 0 None prop_th sk_th of
          Panic \<Rightarrow> Panic
        | Err e \<Rightarrow> Err e
        | Ok None \<Rightarrow> Ok None
        | Ok (Some idx) \<Rightarrow>
            if idx = length prop_th - 1 then
              Ok (Some \<lparr>tl_term = tl_term (prop_th ! idx), tl_lsn = sk_wal_end\<rparr>)
            else
              (let prop_common_term_end = tl_lsn (prop_th ! (idx + 1));
                   sk_common_term_end =
                     (if idx + 1 < length sk_th then tl_lsn (sk_th ! (idx + 1)) else sk_wal_end)
               in Ok (Some \<lparr>tl_term = tl_term (prop_th ! idx),
                            tl_lsn = min prop_common_term_end sk_common_term_end\<rparr>)))"

definition th_get_epoch :: "term_history \<Rightarrow> lsn \<Rightarrow> consensus_term" where
  "th_get_epoch th flush_lsn =
     (case up_to th flush_lsn of [] \<Rightarrow> 0 | e # es \<Rightarrow> tl_term (last (e # es)))"

section \<open>Vocabulary of the properties\<close>

text \<open>The term that wrote the WAL at position \<open>x\<close>, by a history.\<close>

definition term_at :: "term_history \<Rightarrow> lsn \<Rightarrow> consensus_term option" where
  "term_at th x = (if up_to th x = [] then None else Some (tl_term (last (up_to th x))))"

text \<open>Terms increase along a history, and their start positions do not decrease.\<close>

definition wf_history :: "term_history \<Rightarrow> bool" where
  "wf_history th = sorted_wrt (\<lambda>a b. tl_term a < tl_term b \<and> tl_lsn a \<le> tl_lsn b) th"

text \<open>Two histories that name the same term agree up to it: one proposer starts each term.\<close>

definition log_matching :: "term_history \<Rightarrow> term_history \<Rightarrow> bool" where
  "log_matching p s = (\<forall>i<length p. \<forall>j<length s.
     tl_term (p ! i) = tl_term (s ! j) \<longrightarrow> take (Suc i) p = take (Suc j) s)"

fun common_len :: "term_history \<Rightarrow> term_history \<Rightarrow> nat" where
  "common_len (p # ps) (s # ss) = (if tl_term p = tl_term s then Suc (common_len ps ss) else 0)"
| "common_len _ _ = 0"

section \<open>Truncation\<close>

lemma up_to_takeWhile: "up_to th l = takeWhile (\<lambda>e. tl_lsn e \<le> l) th"
  by (induction th l rule: up_to.induct) auto

lemma up_to_nth: "k < length (up_to th l) \<Longrightarrow> up_to th l ! k = th ! k"
  by (simp add: up_to_takeWhile takeWhile_nth)

lemma up_to_take_comm: "up_to (take n th) l = take n (up_to th l)"
  by (induction th l arbitrary: n rule: up_to.induct) (auto simp: take_Cons split: nat.splits)

lemma up_to_length: "length (up_to th l) \<le> length th"
  by (simp add: up_to_takeWhile length_takeWhile_le)

lemma up_to_le: "e \<in> set (up_to th l) \<Longrightarrow> tl_lsn e \<le> l"
  by (auto simp: up_to_takeWhile dest: set_takeWhileD)

lemma wf_history_lsn_mono:
  "wf_history th \<Longrightarrow> i \<le> j \<Longrightarrow> j < length th \<Longrightarrow> tl_lsn (th ! i) \<le> tl_lsn (th ! j)"
  by (cases "i = j") (auto simp: wf_history_def sorted_wrt_iff_nth_less)

lemma up_to_filter:
  assumes "wf_history th"
  shows "up_to th l = filter (\<lambda>e. tl_lsn e \<le> l) th"
  using assms by (induction th l rule: up_to.induct) (auto simp: wf_history_def empty_filter_conv not_le intro: less_le_trans)

text \<open>Entry \<open>k\<close> survives the truncation at \<open>x\<close> iff it starts at or before \<open>x\<close>.\<close>

lemma up_to_index:
  assumes "wf_history th" and "k < length th"
  shows "k < length (up_to th x) \<longleftrightarrow> tl_lsn (th ! k) \<le> x"
proof
  assume k: "k < length (up_to th x)"
  with up_to_le [OF nth_mem [OF k]] up_to_nth [OF k] show "tl_lsn (th ! k) \<le> x" by simp
next
  assume le: "tl_lsn (th ! k) \<le> x"
  show "k < length (up_to th x)"
  proof (rule ccontr)
    let ?n = "length (up_to th x)"
    assume "\<not> k < ?n"
    then have n: "?n \<le> k" "?n < length th" using assms(2) by auto
    then have "\<not> tl_lsn (th ! ?n) \<le> x"
      using nth_length_takeWhile [of "\<lambda>e. tl_lsn e \<le> x" th] by (simp add: up_to_takeWhile)
    moreover have "tl_lsn (th ! ?n) \<le> x"
      using wf_history_lsn_mono [OF assms(1) n(1) assms(2)] le by order
    ultimately show False by simp
  qed
qed

lemma term_at_nth:
  assumes "up_to th x \<noteq> []"
  shows "term_at th x = Some (tl_term (th ! (length (up_to th x) - 1)))"
  using assms up_to_nth [of "length (up_to th x) - 1" th x]
  by (simp add: term_at_def last_conv_nth)

lemma th_get_epoch_term_at: "th_get_epoch th l = (case term_at th l of None \<Rightarrow> 0 | Some t \<Rightarrow> t)"
  by (simp add: th_get_epoch_def term_at_def split: list.splits)

section \<open>The divergence point\<close>

lemma common_len_le: "common_len p s \<le> length p" "common_len p s \<le> length s"
  by (induction p s rule: common_len.induct) auto

lemma common_len_same: "i < common_len p s \<Longrightarrow> tl_term (p ! i) = tl_term (s ! i)"
  by (induction p s arbitrary: i rule: common_len.induct)
    (auto simp: nth_Cons split: nat.splits if_splits)

lemma common_len_diff:
  "common_len p s < length p \<Longrightarrow> common_len p s < length s \<Longrightarrow>
     tl_term (p ! common_len p s) \<noteq> tl_term (s ! common_len p s)"
  by (induction p s rule: common_len.induct) auto

lemma log_matching_prefix:
  assumes "log_matching p s"
  shows "take (common_len p s) p = take (common_len p s) s"
proof (cases "common_len p s")
  case 0
  then show ?thesis by simp
next
  case (Suc n)
  then have "n < length p" "n < length s" "tl_term (p ! n) = tl_term (s ! n)"
    using common_len_le [of p s] common_len_same [of n p s] by auto
  with assms Suc show ?thesis by (auto simp: log_matching_def)
qed

lemma last_common_result:
  "take (common_len p s) p = take (common_len p s) s \<Longrightarrow>
     last_common i acc p s =
       Ok (if common_len p s = 0 then acc else Some (i + common_len p s - 1))"
  by (induction i acc p s rule: last_common.induct) auto

lemma log_matching_last_common:
  assumes "log_matching p s"
  shows "last_common 0 None p s =
    Ok (if common_len p s = 0 then None else Some (common_len p s - 1))"
  by (simp add: last_common_result [OF log_matching_prefix [OF assms]])

text \<open>Where the truncations are within the common prefix they are equal.\<close>

lemma up_to_common:
  assumes "wf_history p" "wf_history s" "take n p = take n s"
    and "n < length p \<Longrightarrow> x < tl_lsn (p ! n)" and "n < length s \<Longrightarrow> x < tl_lsn (s ! n)"
  shows "up_to p x = up_to s x"
proof -
  have short: "length (up_to th x) \<le> n"
    if "wf_history th" "n < length th \<Longrightarrow> x < tl_lsn (th ! n)" for th
  proof (cases "n < length th")
    case True
    with that up_to_index [OF that(1) True, of x] show ?thesis by auto
  next
    case False
    with up_to_length [of th x] show ?thesis by simp
  qed
  have trunc: "up_to th x = up_to (take n th) x" if "length (up_to th x) \<le> n" for th
    using that by (simp add: up_to_take_comm)
  show ?thesis
    using trunc [OF short [OF assms(1,4)]] trunc [OF short [OF assms(2,5)]] assms(3) by simp
qed

lemma common_point_no_panic:
  assumes "log_matching p s" and "\<And>e. e \<in> set s \<Longrightarrow> tl_lsn e \<le> wal_end"
  shows "find_highest_common_point p s wal_end \<noteq> Panic"
  using assms(2) [OF last_in_set]
  by (auto simp: find_highest_common_point_def log_matching_last_common [OF assms(1)] Let_def not_le)

lemma common_point_unfold:
  assumes "log_matching p s" and "find_highest_common_point p s wal_end = Ok (Some c)"
  defines "n \<equiv> common_len p s"
  shows "0 < n"
    and "n = length p \<Longrightarrow> tl_lsn c = wal_end"
    and "n < length p \<Longrightarrow>
      tl_lsn c = min (tl_lsn (p ! n)) (if n < length s then tl_lsn (s ! n) else wal_end)"
  using assms(2) common_len_le [of p s]
  by (auto simp: find_highest_common_point_def log_matching_last_common [OF assms(1)] Let_def n_def
      split: if_splits)

text \<open>The proposer's last term is the highest, so its history is not a proper prefix of the other.\<close>

lemma common_len_full:
  assumes "wf_history s" and "\<And>e. e \<in> set s \<Longrightarrow> tl_term e \<le> tl_term (last p)"
    and "common_len p s = length p" and "0 < length p"
  shows "common_len p s = length s"
proof (rule ccontr)
  let ?n = "length p"
  assume "common_len p s \<noteq> length s"
  with assms(3) common_len_le(2) [of p s] have n: "?n < length s" by simp
  have "tl_term (last p) = tl_term (s ! (?n - 1))"
    using common_len_same [of "?n - 1" p s] assms(3,4) by (simp add: last_conv_nth)
  also have "\<dots> < tl_term (s ! ?n)"
    using assms(1,4) n by (simp add: wf_history_def sorted_wrt_iff_nth_less)
  finally show False using assms(2) [OF nth_mem [OF n]] by order
qed

lemma term_at_differ:
  assumes "wf_history p" "wf_history s" "log_matching p s" and "n = common_len p s"
    and "n < length p" and "tl_lsn (p ! n) \<le> x \<or> n < length s \<and> tl_lsn (s ! n) \<le> x"
    and "0 < n" and "tl_lsn (p ! (n - 1)) \<le> x"
  shows "term_at p x \<noteq> term_at s x"
proof
  assume eq: "term_at p x = term_at s x"
  define k j where "k = length (up_to p x) - 1" and "j = length (up_to s x) - 1"
  have "n - 1 < length (up_to p x)"
    using up_to_index [OF assms(1), of "n - 1" x] assms(5,8) by simp
  then have kp: "up_to p x \<noteq> []" "k < length p"
    using up_to_length [of p x] by (auto simp: k_def)
  with eq have us: "up_to s x \<noteq> []" by (auto simp: term_at_def split: if_splits)
  then have js: "j < length s"
    using up_to_length [of s x] by (cases "up_to s x") (auto simp: j_def)
  have "tl_term (p ! k) = tl_term (s ! j)"
    using eq term_at_nth [OF kp(1)] term_at_nth [OF us] by (simp add: k_def j_def)
  with assms(3) kp(2) js have tk: "take (Suc k) p = take (Suc j) s" by (simp add: log_matching_def)
  then have kj: "k = j" using kp(2) js by (metis length_take min.absorb2 Suc_leI nat.inject)
  have "k < n"
  proof (rule ccontr)
    assume "\<not> k < n"
    then have "n \<le> k" by simp
    then have "p ! n = s ! n" using tk kj by (metis le_imp_less_Suc nth_take)
    moreover have "n < length s" using \<open>n \<le> k\<close> kj js by simp
    ultimately show False using common_len_diff [of p s] assms(4,5) by simp
  qed
  then have "length (up_to p x) \<le> n" and "length (up_to s x) \<le> n"
    using kp(1) us kj by (auto simp: k_def j_def)
  then show False
    using assms(5,6) up_to_index [OF assms(1,5), of x] up_to_index [OF assms(2), of n x] by auto
qed

section \<open>Properties\<close>

text \<open>
  C4. The divergence point: below the point returned by \<open>find_highest_common_point\<close> the
  two histories attribute every position to the same term, the point is within the
  safekeeper's WAL, and if it is before the end of that WAL the histories differ at it,
  so no higher point would do.
\<close>

theorem highest_common_point_correct:
  assumes wf: "wf_history prop_th" "wf_history sk_th" and lm: "log_matching prop_th sk_th"
    and lsns: "\<And>e. e \<in> set sk_th \<Longrightarrow> tl_lsn e \<le> wal_end"
    and terms: "\<And>e. e \<in> set sk_th \<Longrightarrow> tl_term e \<le> tl_term (last prop_th)"
    and res: "find_highest_common_point prop_th sk_th wal_end = Ok (Some c)"
  shows "tl_lsn c \<le> wal_end \<and>
    (\<forall>x. x < tl_lsn c \<longrightarrow> term_at prop_th x = term_at sk_th x) \<and>
    (tl_lsn c < wal_end \<longrightarrow> term_at prop_th (tl_lsn c) \<noteq> term_at sk_th (tl_lsn c))"
proof -
  let ?p = prop_th and ?s = sk_th and ?n = "common_len prop_th sk_th"
  note unf = common_point_unfold [OF lm res]
  have pre: "take ?n ?p = take ?n ?s" by (rule log_matching_prefix [OF lm])
  have last_eq: "?p ! (?n - 1) = ?s ! (?n - 1)"
    using unf(1) by (metis pre diff_less nth_take zero_less_one)
  show ?thesis
  proof (cases "?n = length ?p")
    case True
    from True unf(1) have "0 < length ?p" by simp
    then have "?n = length ?s" using True terms by (intro common_len_full [OF wf(2)])
    with True pre have "?p = ?s" by (metis take_all order_refl)
    with unf(2) [OF True] show ?thesis by simp
  next
    case False
    then have n: "?n < length ?p" using common_len_le(1) [of ?p ?s] by simp
    let ?e = "if ?n < length ?s then tl_lsn (?s ! ?n) else wal_end"
    have c: "tl_lsn c = min (tl_lsn (?p ! ?n)) ?e" by (rule unf(3) [OF n])
    have e: "?e \<le> wal_end" using lsns by simp
    have below: "up_to ?p x = up_to ?s x" if "x < tl_lsn c" for x
    proof (rule up_to_common [OF wf pre])
      from that c have "x < tl_lsn (?p ! ?n) \<and> x < ?e" by (simp only: min_less_iff_conj)
      then show "x < tl_lsn (?p ! ?n)" and "?n < length ?s \<Longrightarrow> x < tl_lsn (?s ! ?n)" by simp_all
    qed
    have "tl_lsn (?p ! (?n - 1)) \<le> tl_lsn (?p ! ?n)" by (rule wf_history_lsn_mono [OF wf(1) _ n]) simp
    moreover have "tl_lsn (?s ! (?n - 1)) \<le> ?e"
      using wf_history_lsn_mono [OF wf(2), of "?n - 1" ?n] lsns common_len_le(2) [of ?p ?s] unf(1) by auto
    ultimately have "tl_lsn (?p ! (?n - 1)) \<le> tl_lsn c" using last_eq c by simp
    note floor = this
    have "term_at ?p (tl_lsn c) \<noteq> term_at ?s (tl_lsn c)" if "tl_lsn c < wal_end"
    proof (rule term_at_differ [OF wf lm refl n _ unf(1) floor])
      have "tl_lsn c = tl_lsn (?p ! ?n) \<or> tl_lsn c = ?e" using c by (simp add: min_def)
      with that show "tl_lsn (?p ! ?n) \<le> tl_lsn c \<or> ?n < length ?s \<and> tl_lsn (?s ! ?n) \<le> tl_lsn c"
        by (cases "?n < length ?s") auto
    qed
    moreover have "tl_lsn c \<le> wal_end" unfolding c by (rule min.coboundedI2 [OF e])
    ultimately show ?thesis using below by (simp add: term_at_def)
  qed
qed

definition example_prop_th :: term_history where
  "example_prop_th = [\<lparr>tl_term = 1, tl_lsn = 16\<rparr>, \<lparr>tl_term = 2, tl_lsn = 48\<rparr>, \<lparr>tl_term = 4, tl_lsn = 80\<rparr>]"

definition example_sk_th :: term_history where
  "example_sk_th = [\<lparr>tl_term = 1, tl_lsn = 16\<rparr>, \<lparr>tl_term = 2, tl_lsn = 48\<rparr>, \<lparr>tl_term = 3, tl_lsn = 96\<rparr>]"

lemma highest_common_point_correct_witness:
  "80 \<le> (128 :: lsn) \<and>
    term_at example_prop_th 79 = term_at example_sk_th 79 \<and>
    term_at example_prop_th 80 \<noteq> term_at example_sk_th 80"
proof -
  have "wf_history example_prop_th" "wf_history example_sk_th"
    by (simp_all add: example_prop_th_def example_sk_th_def wf_history_def)
  moreover have "log_matching example_prop_th example_sk_th"
    by (simp add: example_prop_th_def example_sk_th_def log_matching_def All_less_Suc)
  moreover have "find_highest_common_point example_prop_th example_sk_th 128 =
      Ok (Some \<lparr>tl_term = 2, tl_lsn = 80\<rparr>)"
    by (simp add: example_prop_th_def example_sk_th_def find_highest_common_point_def)
  moreover have "\<forall>e\<in>set example_sk_th. tl_lsn e \<le> 128 \<and> tl_term e \<le> tl_term (last example_prop_th)"
    by (simp add: example_prop_th_def example_sk_th_def)
  ultimately have "(\<forall>x<80. term_at example_prop_th x = term_at example_sk_th x) \<and>
      term_at example_prop_th 80 \<noteq> term_at example_sk_th 80"
    using highest_common_point_correct
      [of example_prop_th example_sk_th 128 "\<lparr>tl_term = 2, tl_lsn = 80\<rparr>"] by simp
  moreover from this have "(79 :: lsn) < 80 \<longrightarrow> term_at example_prop_th 79 = term_at example_sk_th 79" by blast
  ultimately show ?thesis by simp
qed

end
