(* ===== verification/Pageserver_Feedback.thy ===== *)
theory Pageserver_Feedback
  imports Wire Lsn
begin

text \<open>
  \<open>libs/utils/src/pageserver_feedback.rs\<close>: the feedback a pageserver sends through the
  safekeeper to the compute, in an extensible key/value format. \<open>replytime\<close> is the
  number of nanoseconds since \<open>PG_EPOCH\<close>.
\<close>

record pageserver_feedback =
  current_timeline_size :: u64
  last_received_lsn :: lsn
  disk_consistent_lsn :: lsn
  ps_remote_consistent_lsn :: lsn
  replytime :: int

definition PAGESERVER_FEEDBACK_FIELDS_NUMBER :: u8 where
  "PAGESERVER_FEEDBACK_FIELDS_NUMBER = 5"

definition feedback_empty :: pageserver_feedback where
  "feedback_empty = \<lparr>current_timeline_size = 0, last_received_lsn = Lsn_INVALID,
     disk_consistent_lsn = Lsn_INVALID, ps_remote_consistent_lsn = Lsn_INVALID, replytime = 0\<rparr>"

text \<open>
  \<open>feedback_serialize\<close> is \<open>None\<close> where the \<open>expect\<close> panics: a reply time before the
  epoch. The microseconds are a \<open>u128\<close> cast to \<open>i64\<close>, which keeps the low 64 bits.
\<close>

definition field_bytes :: "wire \<Rightarrow> string \<Rightarrow> u64 \<Rightarrow> byte list" where
  "field_bytes W key v = str_bytes key @ [0] @ enc_u32_be W 8 @ enc_u64_be W v"

definition feedback_serialize :: "wire \<Rightarrow> pageserver_feedback \<Rightarrow> byte list option" where
  "feedback_serialize W self =
     (if replytime self < 0 then None
      else Some ([PAGESERVER_FEEDBACK_FIELDS_NUMBER]
        @ field_bytes W ''current_timeline_size'' (current_timeline_size self)
        @ field_bytes W ''ps_writelsn'' (last_received_lsn self)
        @ field_bytes W ''ps_flushlsn'' (disk_consistent_lsn self)
        @ field_bytes W ''ps_applylsn'' (ps_remote_consistent_lsn self)
        @ field_bytes W ''ps_replytime'' (word_of_int (replytime self div 1000))))"

definition get_field :: "wire \<Rightarrow> (byte list, unit, u64) rust" where
  "get_field W = andthen (get_u32_be W) (\<lambda>len.
     andthen (assert_that (\<lambda>_. len = 8)) (\<lambda>_. get_u64_be W))"

definition set_replytime :: "u64 \<Rightarrow> pageserver_feedback \<Rightarrow> pageserver_feedback" where
  "set_replytime w rf = (let raw_time = sint w in
     if raw_time > 0 then rf\<lparr>replytime := int (nat raw_time) * 1000\<rparr>
     else rf\<lparr>replytime := - (int (nat (- raw_time)) * 1000)\<rparr>)"

text \<open>One round of the loop over the fields; a negative length of an unknown key is a huge \<open>usize\<close>.\<close>

definition feedback_parse_field :: "wire \<Rightarrow> pageserver_feedback \<Rightarrow> (byte list, unit, pageserver_feedback) rust" where
  "feedback_parse_field W rf =
     andthen (\<lambda>bs. case read_cstr bs of (Ok k, t) \<Rightarrow> (Ok k, t) | (_, t) \<Rightarrow> (Panic, t)) (\<lambda>key.
     if key = str_bytes ''current_timeline_size'' then
       andthen (get_field W) (\<lambda>v. ret (rf\<lparr>current_timeline_size := v\<rparr>))
     else if key = str_bytes ''ps_writelsn'' then
       andthen (get_field W) (\<lambda>v. ret (rf\<lparr>last_received_lsn := v\<rparr>))
     else if key = str_bytes ''ps_flushlsn'' then
       andthen (get_field W) (\<lambda>v. ret (rf\<lparr>disk_consistent_lsn := v\<rparr>))
     else if key = str_bytes ''ps_applylsn'' then
       andthen (get_field W) (\<lambda>v. ret (rf\<lparr>ps_remote_consistent_lsn := v\<rparr>))
     else if key = str_bytes ''ps_replytime'' then
       andthen (get_field W) (\<lambda>v. ret (set_replytime v rf))
     else
       andthen (get_u32_be W) (\<lambda>len.
       andthen (get_bytes (if sint len < 0 then nat (2 ^ 64 + sint len) else nat (sint len))) (\<lambda>_.
       ret rf)))"

fun feedback_parse_fields :: "wire \<Rightarrow> nat \<Rightarrow> pageserver_feedback \<Rightarrow> (byte list, unit, pageserver_feedback) rust" where
  "feedback_parse_fields W 0 rf = ret rf"
| "feedback_parse_fields W (Suc n) rf =
     andthen (feedback_parse_field W rf) (feedback_parse_fields W n)"

definition feedback_parse :: "wire \<Rightarrow> (byte list, unit, pageserver_feedback) rust" where
  "feedback_parse W =
     andthen get_u8 (\<lambda>nfields. feedback_parse_fields W (unat nfields) feedback_empty)"

section \<open>Round trip\<close>

lemma feedback_keys:
  "0 \<notin> set (str_bytes ''current_timeline_size'')" "0 \<notin> set (str_bytes ''ps_writelsn'')"
  "0 \<notin> set (str_bytes ''ps_flushlsn'')" "0 \<notin> set (str_bytes ''ps_applylsn'')"
  "0 \<notin> set (str_bytes ''ps_replytime'')"
  by (simp_all add: str_bytes_def)

lemma set_replytime_micros:
  assumes "0 \<le> n" and "n < 2 ^ 63"
  shows "set_replytime (word_of_int n) rf = rf\<lparr>replytime := n * 1000\<rparr>"
proof -
  have "sint (word_of_int n :: u64) = n"
    using assms by (simp add: signed_of_int signed_take_bit_int_eq_self)
  with assms show ?thesis by (auto simp: set_replytime_def Let_def)
qed

context wire_format
begin

lemma get_field_enc: "get_field W (enc_u32_be W 8 @ enc_u64_be W v @ rest) = (Ok v, rest)"
  by (simp add: get_field_def reads get_ints)

lemma parse_field_bytes:
  "feedback_parse_field W rf (field_bytes W ''current_timeline_size'' v @ rest) =
     (Ok (rf\<lparr>current_timeline_size := v\<rparr>), rest)"
  "feedback_parse_field W rf (field_bytes W ''ps_writelsn'' v @ rest) =
     (Ok (rf\<lparr>last_received_lsn := v\<rparr>), rest)"
  "feedback_parse_field W rf (field_bytes W ''ps_flushlsn'' v @ rest) =
     (Ok (rf\<lparr>disk_consistent_lsn := v\<rparr>), rest)"
  "feedback_parse_field W rf (field_bytes W ''ps_applylsn'' v @ rest) =
     (Ok (rf\<lparr>ps_remote_consistent_lsn := v\<rparr>), rest)"
  "feedback_parse_field W rf (field_bytes W ''ps_replytime'' v @ rest) =
     (Ok (set_replytime v rf), rest)"
  unfolding feedback_parse_field_def field_bytes_def append_assoc append.append_Cons append.append_Nil
  by (simp_all only: andthen_def read_cstr_append [OF feedback_keys(1)] read_cstr_append [OF feedback_keys(2)]
      read_cstr_append [OF feedback_keys(3)] read_cstr_append [OF feedback_keys(4)]
      read_cstr_append [OF feedback_keys(5)] prod.case outcome.case)
    (simp_all add: str_bytes_def get_field_enc ret_def)

lemma feedback_parse_serialize:
  assumes "feedback_serialize W self = Some bs" and "1000 dvd replytime self"
    and "replytime self < 1000 * 2 ^ 63"
  shows "feedback_parse W (bs @ rest) = (Ok self, rest)"
proof -
  define n where "n = replytime self div 1000"
  from assms have "0 \<le> replytime self" by (simp add: feedback_serialize_def split: if_splits)
  with assms n_def have n: "0 \<le> n" "n < 2 ^ 63" "n * 1000 = replytime self" by auto
  have more: "feedback_parse_fields W (numeral k) rf =
      andthen (feedback_parse_field W rf) (feedback_parse_fields W (pred_numeral k))" for k rf
    by (simp add: numeral_eq_Suc)
  from assms(1) show ?thesis
    by (auto simp: feedback_parse_def feedback_serialize_def PAGESERVER_FEEDBACK_FIELDS_NUMBER_def
        reads more parse_field_bytes feedback_empty_def set_replytime_micros [OF n(1,2)] n
        n_def [symmetric] split: if_splits)
qed

end

section \<open>Properties\<close>

definition example_feedback :: pageserver_feedback where
  "example_feedback = \<lparr>current_timeline_size = 4096, last_received_lsn = 0x2000,
     disk_consistent_lsn = 0x1800, ps_remote_consistent_lsn = 0x1000, replytime = 123456000\<rparr>"

text \<open>
  C27. Pageserver feedback round trip: whatever message \<open>PageserverFeedback::serialize\<close>
  produces, \<open>PageserverFeedback::parse\<close> reads back unchanged and leaves the bytes after it, for
  a reply time that is a whole number of microseconds and fits an \<open>i64\<close> of them.
\<close>

theorem feedback_roundtrip:
  assumes "wire_format W" and "feedback_serialize W self = Some bs" and "1000 dvd replytime self"
    and "replytime self < 1000 * 2 ^ 63"
  shows "feedback_parse W (bs @ rest) = (Ok self, rest)"
  using assms by (rule wire_format.feedback_parse_serialize)

theorem feedback_roundtrip_witness:
  "\<exists>bs. feedback_serialize std_wire example_feedback = Some bs
     \<and> feedback_parse std_wire (bs @ [7]) = (Ok example_feedback, [7])"
proof -
  obtain bs where "feedback_serialize std_wire example_feedback = Some bs"
    by (simp add: feedback_serialize_def example_feedback_def)
  moreover from feedback_roundtrip [OF std.wire_format_axioms this]
  have "feedback_parse std_wire (bs @ [7]) = (Ok example_feedback, [7])"
    by (simp add: example_feedback_def)
  ultimately show ?thesis by blast
qed

end
