(* ===== verification/Safekeeper_Msgs.thy ===== *)
theory Safekeeper_Msgs
  imports Term_History Pageserver_Feedback
begin

unbundle bit_operations_syntax

text \<open>
  The proposer-acceptor protocol messages of \<open>safekeeper/src/safekeeper.rs\<close>, the parser
  of proposer messages and the serializer of acceptor messages. The \<open>bincode\<close> decoders
  of the three derived structs are the parameter \<open>bincode\<close>: each takes the reader's bytes
  and returns the struct with the rest, or \<open>None\<close>. Ids and UUIDs are their 16 bytes.
\<close>

type_synonym id_bytes = "byte list"

section \<open>Messages\<close>

record proposer_greeting =
  g_protocol_version :: u32
  g_pg_version :: u32
  g_proposer_id :: id_bytes
  g_system_id :: u64
  g_timeline_id :: id_bytes
  g_tenant_id :: id_bytes
  g_tli :: u32
  g_wal_seg_size :: u32

record acceptor_greeting =
  ag_term :: consensus_term
  ag_node_id :: u64

record vote_request =
  vreq_term :: consensus_term

record vote_response =
  vr_term :: consensus_term
  vr_vote_given :: u64
  vr_flush_lsn :: lsn
  vr_truncate_lsn :: lsn
  vr_term_history :: term_history
  vr_timeline_start_lsn :: lsn

record proposer_elected =
  pe_term :: consensus_term
  pe_start_streaming_at :: lsn
  pe_term_history :: term_history
  pe_timeline_start_lsn :: lsn

record append_request_header =
  h_term :: consensus_term
  h_epoch_start_lsn :: lsn
  h_begin_lsn :: lsn
  h_end_lsn :: lsn
  h_commit_lsn :: lsn
  h_truncate_lsn :: lsn
  h_proposer_uuid :: id_bytes

record append_request =
  ar_h :: append_request_header
  ar_wal_data :: "byte list"

record hot_standby_feedback =
  hs_ts :: u64
  hs_xmin :: u64
  hs_catalog_xmin :: u64

definition hs_feedback_empty :: hot_standby_feedback where
  "hs_feedback_empty = \<lparr>hs_ts = 0, hs_xmin = 0, hs_catalog_xmin = 0\<rparr>"

record append_response =
  rsp_term :: consensus_term
  rsp_flush_lsn :: lsn
  rsp_commit_lsn :: lsn
  rsp_hs_feedback :: hot_standby_feedback
  rsp_pageserver_feedback :: pageserver_feedback

definition term_only :: "consensus_term \<Rightarrow> append_response" where
  "term_only t = \<lparr>rsp_term = t, rsp_flush_lsn = 0, rsp_commit_lsn = 0,
     rsp_hs_feedback = hs_feedback_empty, rsp_pageserver_feedback = feedback_empty\<rparr>"

datatype proposer_acceptor_message =
    Greeting proposer_greeting
  | VoteRequest vote_request
  | Elected proposer_elected
  | AppendRequest append_request
  | NoFlushAppendRequest append_request
  | FlushWAL

datatype acceptor_proposer_message =
    AGreeting acceptor_greeting
  | AVoteResponse vote_response
  | AAppendResponse append_response

section \<open>Parsing\<close>

record bincode =
  des_greeting :: "byte list \<Rightarrow> (proposer_greeting \<times> byte list) option"
  des_vote_request :: "byte list \<Rightarrow> (vote_request \<times> byte list) option"
  des_append_header :: "byte list \<Rightarrow> (append_request_header \<times> byte list) option"

definition des_from :: "(byte list \<Rightarrow> ('a \<times> byte list) option) \<Rightarrow> (byte list, parse_error, 'a) rust" where
  "des_from d = (\<lambda>bs. case d bs of Some (x, rest) \<Rightarrow> (Ok x, rest) | None \<Rightarrow> (Err DeserializeFailed, bs))"

definition MAX_SEND_SIZE :: nat where
  "MAX_SEND_SIZE = 8192 * 16"

definition parse_elected :: "wire \<Rightarrow> (byte list, parse_error, proposer_acceptor_message) rust" where
  "parse_elected W =
     andthen (need 16 ElectedIncomplete) (\<lambda>_.
     andthen (get_u64_le W) (\<lambda>t.
     andthen (get_u64_le W) (\<lambda>start_streaming_at.
     andthen (th_from_bytes W) (\<lambda>th.
     andthen (need 8 ElectedIncomplete) (\<lambda>_.
     andthen (get_u64_le W) (\<lambda>timeline_start_lsn.
     ret (Elected \<lparr>pe_term = t, pe_start_streaming_at = start_streaming_at,
                   pe_term_history = th, pe_timeline_start_lsn = timeline_start_lsn\<rparr>)))))))"

definition parse_append :: "bincode \<Rightarrow> (byte list, parse_error, proposer_acceptor_message) rust" where
  "parse_append B =
     andthen (des_from (des_append_header B)) (\<lambda>hdr.
     case lsn_checked_sub (h_end_lsn hdr) (h_begin_lsn hdr) of
       None \<Rightarrow> bail BeginAfterEnd
     | Some rec_size \<Rightarrow>
         if unat rec_size > MAX_SEND_SIZE then bail TooLong
         else andthen (need (unat rec_size) UnexpectedEof) (\<lambda>_.
              andthen (get_bytes (unat rec_size)) (\<lambda>wal_data.
              ret (AppendRequest \<lparr>ar_h = hdr, ar_wal_data = wal_data\<rparr>))))"

definition pa_parse :: "wire \<Rightarrow> bincode \<Rightarrow> (byte list, parse_error, proposer_acceptor_message) rust" where
  "pa_parse W B =
     andthen (need 8 UnexpectedEof) (\<lambda>_.
     andthen (get_u64_le W) (\<lambda>tag_word.
     let tag = ucast tag_word :: u8 in
     if tag = of_char CHR ''g'' then andthen (des_from (des_greeting B)) (\<lambda>m. ret (Greeting m))
     else if tag = of_char CHR ''v'' then andthen (des_from (des_vote_request B)) (\<lambda>m. ret (VoteRequest m))
     else if tag = of_char CHR ''e'' then parse_elected W
     else if tag = of_char CHR ''a'' then parse_append B
     else bail UnknownTag))"

section \<open>Serializing\<close>

definition th_to_bytes :: "wire \<Rightarrow> term_history \<Rightarrow> byte list" where
  "th_to_bytes W th = enc_u32_le W (of_nat (length th))
     @ concat (map (\<lambda>e. enc_u64_le W (tl_term e) @ enc_u64_le W (tl_lsn e)) th)"

text \<open>\<open>None\<close> where serializing the pageserver feedback panics.\<close>

definition ap_serialize :: "wire \<Rightarrow> acceptor_proposer_message \<Rightarrow> byte list option" where
  "ap_serialize W msg = (case msg of
       AGreeting m \<Rightarrow> Some (enc_u64_le W (of_char CHR ''g'') @ enc_u64_le W (ag_term m)
         @ enc_u64_le W (ag_node_id m))
     | AVoteResponse m \<Rightarrow> Some (enc_u64_le W (of_char CHR ''v'') @ enc_u64_le W (vr_term m)
         @ enc_u64_le W (vr_vote_given m) @ enc_u64_le W (vr_flush_lsn m)
         @ enc_u64_le W (vr_truncate_lsn m) @ th_to_bytes W (vr_term_history m)
         @ enc_u64_le W (vr_timeline_start_lsn m))
     | AAppendResponse m \<Rightarrow>
         map_option (\<lambda>fb. enc_u64_le W (of_char CHR ''a'') @ enc_u64_le W (rsp_term m)
           @ enc_u64_le W (rsp_flush_lsn m) @ enc_u64_le W (rsp_commit_lsn m)
           @ enc_u64_le W (hs_ts (rsp_hs_feedback m)) @ enc_u64_le W (hs_xmin (rsp_hs_feedback m))
           @ enc_u64_le W (hs_catalog_xmin (rsp_hs_feedback m)) @ fb)
           (feedback_serialize W (rsp_pageserver_feedback m)))"

section \<open>Lemmas\<close>

lemma wp_des_from [wp]:
  "wp (des_from d) Q E F = (\<lambda>s. case d s of Some (x, t) \<Rightarrow> Q x t | None \<Rightarrow> E DeserializeFailed s)"
  by (auto simp: wp_def des_from_def fun_eq_iff split: option.splits prod.splits)

lemma th_entries_no_panic: "wp (th_entries W n) (\<lambda>_ _. True) (\<lambda>_ _. True) (\<lambda>_. False) s"
  by (induction n arbitrary: s) (auto simp: wp elim!: wp_mono)

lemma th_from_bytes_no_panic: "wp (th_from_bytes W) (\<lambda>_ _. True) (\<lambda>_ _. True) (\<lambda>_. False) s"
  by (auto simp: th_from_bytes_def wp th_entries_no_panic)

lemma parse_elected_is_elected: "wp (parse_elected W) (\<lambda>m _. \<exists>r. m = Elected r) (\<lambda>_ _. True) (\<lambda>_. False) s"
  unfolding parse_elected_def
  by (auto simp: wp intro!: wp_mono [OF th_from_bytes_no_panic])

lemma parse_append_bounds:
  "wp (parse_append B)
     (\<lambda>m _. \<exists>r. m = AppendRequest r \<and> h_begin_lsn (ar_h r) \<le> h_end_lsn (ar_h r) \<and>
        length (ar_wal_data r) = unat (h_end_lsn (ar_h r)) - unat (h_begin_lsn (ar_h r)) \<and>
        length (ar_wal_data r) \<le> MAX_SEND_SIZE)
     (\<lambda>_ _. True) (\<lambda>_. False) s"
  by (auto simp: parse_append_def wp lsn_checked_sub_def dest: checked_sub_unat split: option.splits)

context wire_format
begin

lemma th_entries_bytes:
  "th_entries W (length th)
     (concat (map (\<lambda>e. enc_u64_le W (tl_term e) @ enc_u64_le W (tl_lsn e)) th) @ rest) = (Ok th, rest)"
  by (induction th) (simp_all add: reads get_ints enc_lengths)

lemma th_from_to_bytes:
  "length th < 2 ^ 32 \<Longrightarrow> th_from_bytes W (th_to_bytes W th @ rest) = (Ok th, rest)"
  using th_entries_bytes [of th rest]
  by (simp add: th_from_bytes_def th_to_bytes_def reads get_ints enc_lengths unat_of_nat)

end

section \<open>Properties\<close>

text \<open>
  C23. Parsing a proposer message never panics, on any bytes and with any codec: every short or
  malformed message is an error. An accepted append request carries exactly the bytes between
  its two positions, and at most \<open>MAX_SEND_SIZE\<close> of them.
\<close>

theorem parse_total_and_bounded:
  "case fst (pa_parse W B bs) of
     Panic \<Rightarrow> False
   | Ok (AppendRequest r) \<Rightarrow> h_begin_lsn (ar_h r) \<le> h_end_lsn (ar_h r) \<and>
       length (ar_wal_data r) = unat (h_end_lsn (ar_h r)) - unat (h_begin_lsn (ar_h r)) \<and>
       length (ar_wal_data r) \<le> MAX_SEND_SIZE
   | _ \<Rightarrow> True"
proof -
  let ?Q = "\<lambda>m _. case m of
      AppendRequest r \<Rightarrow> h_begin_lsn (ar_h r) \<le> h_end_lsn (ar_h r) \<and>
        length (ar_wal_data r) = unat (h_end_lsn (ar_h r)) - unat (h_begin_lsn (ar_h r)) \<and>
        length (ar_wal_data r) \<le> MAX_SEND_SIZE
    | _ \<Rightarrow> True"
  have "wp (parse_elected W) ?Q (\<lambda>_ _. True) (\<lambda>_. False) s" for s
    using parse_elected_is_elected [of W s] by (rule wp_mono) auto
  moreover have "wp (parse_append B) ?Q (\<lambda>_ _. True) (\<lambda>_. False) s" for s
    using parse_append_bounds [of B s] by (rule wp_mono) auto
  ultimately have "wp (pa_parse W B) ?Q (\<lambda>_ _. True) (\<lambda>_. False) bs"
    by (auto simp: pa_parse_def Let_def wp split: option.splits)
  then show ?thesis
    by (auto simp: wp_def split: prod.splits outcome.splits proposer_acceptor_message.splits)
qed

end
