(* ===== verification/Walproposer_Msgs.thy ===== *)
theory Walproposer_Msgs
  imports Safekeeper_Msgs
begin

text \<open>
  The compute's end of the protocol, \<open>pgxn/neon/walproposer.c\<close>: reading the messages that
  a safekeeper serializes, choosing the position where streaming to a safekeeper starts,
  and sending the message that announces an elected proposer. The host is little-endian,
  so \<open>pq_sendint64_le\<close> and its kin write the bytes of the same \<open>wire\<close>. A failed
  \<open>Assert\<close> and a read past the end of an array are a \<open>Panic\<close>; a palloc of \<open>n\<close> bytes
  succeeds when the parameter \<open>palloc_ok n\<close> holds.
\<close>

section \<open>Choosing the start of streaming\<close>

fun common_entries :: "nat \<Rightarrow> term_history \<Rightarrow> term_history \<Rightarrow> ('e, nat) outcome" where
  "common_entries i (p # ps) (s # ss) =
     (if tl_term p \<noteq> tl_term s then Ok i
      else if tl_lsn p \<noteq> tl_lsn s then Panic
      else common_entries (Suc i) ps ss)"
| "common_entries i _ _ = Ok i"

definition start_streaming_at ::
    "consensus_term \<Rightarrow> term_history \<Rightarrow> lsn \<Rightarrow> vote_response \<Rightarrow> ('e, lsn) outcome" where
  "start_streaming_at propTerm prop timelineStartLsn vote =
     (let th = vr_term_history vote in
      if prop = [] then Panic
      else case common_entries 0 prop th of
          Panic \<Rightarrow> Panic
        | Err e \<Rightarrow> Err e
        | Ok 0 \<Rightarrow>
            if tl_lsn (prop ! 0) = timelineStartLsn \<or> timelineStartLsn = Lsn_INVALID
            then Ok (tl_lsn (prop ! 0)) else Panic
        | Ok (Suc i) \<Rightarrow>
            if tl_term (prop ! i) = propTerm then Ok (vr_flush_lsn vote)
            else if i + 1 < length prop then
              (let propEndLsn = tl_lsn (prop ! (i + 1));
                   skEndLsn = (if i + 1 < length th then tl_lsn (th ! (i + 1)) else vr_flush_lsn vote)
               in Ok (min propEndLsn skEndLsn))
            else Panic)"

text \<open>The message is built once \<open>startStreamingAt\<close> passed the assertion on \<open>availableLsn\<close>.\<close>

definition proposer_elected_msg ::
    "consensus_term \<Rightarrow> term_history \<Rightarrow> lsn \<Rightarrow> lsn \<Rightarrow> vote_response \<Rightarrow> ('e, proposer_elected) outcome" where
  "proposer_elected_msg propTerm prop timelineStartLsn availableLsn vote =
     (case start_streaming_at propTerm prop timelineStartLsn vote of
        Panic \<Rightarrow> Panic
      | Err e \<Rightarrow> Err e
      | Ok l \<Rightarrow> if l \<le> availableLsn
          then Ok \<lparr>pe_term = propTerm, pe_start_streaming_at = l, pe_term_history = prop,
                   pe_timeline_start_lsn = timelineStartLsn\<rparr>
          else Panic)"

definition elected_bytes :: "wire \<Rightarrow> proposer_elected \<Rightarrow> byte list" where
  "elected_bytes W msg = enc_u64_le W (of_char CHR ''e'') @ enc_u64_le W (pe_term msg)
     @ enc_u64_le W (pe_start_streaming_at msg)
     @ enc_u32_le W (of_nat (length (pe_term_history msg)))
     @ concat (map (\<lambda>e. enc_u64_le W (tl_term e) @ enc_u64_le W (tl_lsn e)) (pe_term_history msg))
     @ enc_u64_le W (pe_timeline_start_lsn msg)"

section \<open>Reading a safekeeper's messages\<close>

datatype getmsg_error = InsufficientData | InvalidString | InvalidMessageFormat | UnexpectedMessageTag
  | OutOfMemory

definition getmsgint64_le :: "wire \<Rightarrow> (byte list, getmsg_error, u64) rust" where
  "getmsgint64_le W = andthen (need 8 InsufficientData) (\<lambda>_. get_u64_le W)"

definition getmsgint32_le :: "wire \<Rightarrow> (byte list, getmsg_error, u32) rust" where
  "getmsgint32_le W = andthen (need 4 InsufficientData) (\<lambda>_. get_u32_le W)"

definition getmsgint64 :: "wire \<Rightarrow> (byte list, getmsg_error, u64) rust" where
  "getmsgint64 W = andthen (need 8 InsufficientData) (\<lambda>_. get_u64_be W)"

definition getmsgint :: "wire \<Rightarrow> (byte list, getmsg_error, u32) rust" where
  "getmsgint W = andthen (need 4 InsufficientData) (\<lambda>_. get_u32_be W)"

definition getmsgbyte :: "(byte list, getmsg_error, u8) rust" where
  "getmsgbyte = andthen (need 1 InsufficientData) (\<lambda>_. get_u8)"

definition getmsgbytes :: "int \<Rightarrow> (byte list, getmsg_error, byte list) rust" where
  "getmsgbytes datalen = andthen
     (require (\<lambda>bs. \<not> (datalen < 0 \<or> datalen > int (length bs))) InsufficientData)
     (\<lambda>_. get_bytes (nat datalen))"

text \<open>The text up to the first NUL of the message.\<close>

definition getmsgstring :: "(byte list, getmsg_error, byte list) rust" where
  "getmsgstring = (\<lambda>bs. case read_cstr bs of
       (Ok k, t) \<Rightarrow> (Ok k, t) | (_, t) \<Rightarrow> (Err InvalidString, t))"

definition getmsgend :: "(byte list, getmsg_error, unit) rust" where
  "getmsgend = require (\<lambda>bs. bs = []) InvalidMessageFormat"

record wp_feedback =
  wf_currentClusterSize :: u64
  wf_last_received_lsn :: lsn
  wf_disk_consistent_lsn :: lsn
  wf_remote_consistent_lsn :: lsn
  wf_replytime :: u64

definition wp_parse_field :: "wire \<Rightarrow> wp_feedback \<Rightarrow> (byte list, getmsg_error, wp_feedback) rust" where
  "wp_parse_field W rf = andthen getmsgstring (\<lambda>key.
     if key = str_bytes ''current_timeline_size'' then
       andthen (getmsgint W) (\<lambda>_. andthen (getmsgint64 W) (\<lambda>v. ret (rf\<lparr>wf_currentClusterSize := v\<rparr>)))
     else if key = str_bytes ''ps_writelsn'' \<or> key = str_bytes ''last_received_lsn'' then
       andthen (getmsgint W) (\<lambda>_. andthen (getmsgint64 W) (\<lambda>v. ret (rf\<lparr>wf_last_received_lsn := v\<rparr>)))
     else if key = str_bytes ''ps_flushlsn'' \<or> key = str_bytes ''disk_consistent_lsn'' then
       andthen (getmsgint W) (\<lambda>_. andthen (getmsgint64 W) (\<lambda>v. ret (rf\<lparr>wf_disk_consistent_lsn := v\<rparr>)))
     else if key = str_bytes ''ps_applylsn'' \<or> key = str_bytes ''remote_consistent_lsn'' then
       andthen (getmsgint W) (\<lambda>_. andthen (getmsgint64 W) (\<lambda>v. ret (rf\<lparr>wf_remote_consistent_lsn := v\<rparr>)))
     else if key = str_bytes ''ps_replytime'' \<or> key = str_bytes ''replytime'' then
       andthen (getmsgint W) (\<lambda>_. andthen (getmsgint64 W) (\<lambda>v. ret (rf\<lparr>wf_replytime := v\<rparr>)))
     else
       andthen (getmsgint W) (\<lambda>len. andthen (getmsgbytes (sint len)) (\<lambda>_. ret rf)))"

fun wp_parse_fields :: "wire \<Rightarrow> nat \<Rightarrow> wp_feedback \<Rightarrow> (byte list, getmsg_error, wp_feedback) rust" where
  "wp_parse_fields W 0 rf = ret rf"
| "wp_parse_fields W (Suc n) rf = andthen (wp_parse_field W rf) (wp_parse_fields W n)"

definition wp_parse_feedback :: "wire \<Rightarrow> wp_feedback \<Rightarrow> (byte list, getmsg_error, wp_feedback) rust" where
  "wp_parse_feedback W rf =
     andthen getmsgbyte (\<lambda>nkeys. wp_parse_fields W (unat nkeys) rf)"

fun wp_read_entries :: "wire \<Rightarrow> nat \<Rightarrow> (byte list, getmsg_error, term_history) rust" where
  "wp_read_entries W 0 = ret []"
| "wp_read_entries W (Suc n) =
     andthen (getmsgint64_le W) (\<lambda>t.
     andthen (getmsgint64_le W) (\<lambda>l.
     andthen (wp_read_entries W n) (\<lambda>es.
     ret (\<lparr>tl_term = t, tl_lsn = l\<rparr> # es))))"

record wp_append_response =
  wa_term :: consensus_term
  wa_flushLsn :: lsn
  wa_commitLsn :: lsn
  wa_hs :: hot_standby_feedback
  wa_rf :: wp_feedback

datatype wp_message = WGreeting acceptor_greeting | WVoteResponse vote_response
  | WAppendResponse wp_append_response

definition APPENDRESPONSE_FIXEDPART_SIZE :: nat where
  "APPENDRESPONSE_FIXEDPART_SIZE = 56"

definition read_vote_response :: "wire \<Rightarrow> (nat \<Rightarrow> bool) \<Rightarrow> (byte list, getmsg_error, vote_response) rust" where
  "read_vote_response W palloc_ok =
     andthen (getmsgint64_le W) (\<lambda>t.
     andthen (getmsgint64_le W) (\<lambda>voteGiven.
     andthen (getmsgint64_le W) (\<lambda>flushLsn.
     andthen (getmsgint64_le W) (\<lambda>truncateLsn.
     andthen (getmsgint32_le W) (\<lambda>n_entries.
     andthen (require (\<lambda>_. palloc_ok (16 * unat n_entries)) OutOfMemory) (\<lambda>_.
     andthen (wp_read_entries W (unat n_entries)) (\<lambda>entries.
     andthen (getmsgint64_le W) (\<lambda>timelineStartLsn.
     andthen getmsgend (\<lambda>_.
     ret \<lparr>vr_term = t, vr_vote_given = voteGiven, vr_flush_lsn = flushLsn,
          vr_truncate_lsn = truncateLsn, vr_term_history = entries,
          vr_timeline_start_lsn = timelineStartLsn\<rparr>)))))))))"

definition read_append_response :: "wire \<Rightarrow> nat \<Rightarrow> wp_feedback \<Rightarrow> (byte list, getmsg_error, wp_append_response) rust" where
  "read_append_response W buf_size rf =
     andthen (getmsgint64_le W) (\<lambda>t.
     andthen (getmsgint64_le W) (\<lambda>flushLsn.
     andthen (getmsgint64_le W) (\<lambda>commitLsn.
     andthen (getmsgint64_le W) (\<lambda>ts.
     andthen (getmsgint64_le W) (\<lambda>xmin.
     andthen (getmsgint64_le W) (\<lambda>catalog_xmin.
     andthen (if buf_size > APPENDRESPONSE_FIXEDPART_SIZE then wp_parse_feedback W rf else ret rf) (\<lambda>rf'.
     andthen getmsgend (\<lambda>_.
     ret \<lparr>wa_term = t, wa_flushLsn = flushLsn, wa_commitLsn = commitLsn,
          wa_hs = \<lparr>hs_ts = ts, hs_xmin = xmin, hs_catalog_xmin = catalog_xmin\<rparr>, wa_rf = rf'\<rparr>))))))))"

text \<open>
  \<open>AsyncReadMessage\<close> on a message that arrived: \<open>expected\<close> is the tag of the struct the
  caller passes and \<open>rf\<close> what its feedback part held before.
\<close>

definition AsyncReadMessage ::
    "wire \<Rightarrow> (nat \<Rightarrow> bool) \<Rightarrow> u64 \<Rightarrow> wp_feedback \<Rightarrow> (byte list, getmsg_error, wp_message) rust" where
  "AsyncReadMessage W palloc_ok expected rf = (\<lambda>buf.
     andthen (getmsgint64_le W) (\<lambda>tag.
     if tag \<noteq> expected then bail UnexpectedMessageTag
     else if tag = of_char CHR ''g'' then
       andthen (getmsgint64_le W) (\<lambda>t.
       andthen (getmsgint64_le W) (\<lambda>nodeId.
       andthen getmsgend (\<lambda>_. ret (WGreeting \<lparr>ag_term = t, ag_node_id = nodeId\<rparr>))))
     else if tag = of_char CHR ''v'' then
       andthen (read_vote_response W palloc_ok) (\<lambda>m. ret (WVoteResponse m))
     else if tag = of_char CHR ''a'' then
       andthen (read_append_response W (length buf) rf) (\<lambda>m. ret (WAppendResponse m))
     else panic) buf)"

section \<open>Both ends agree on the wire format\<close>

text \<open>The compute's view of a feedback: microseconds instead of nanoseconds.\<close>

definition wp_feedback_of :: "pageserver_feedback \<Rightarrow> wp_feedback" where
  "wp_feedback_of fb = \<lparr>wf_currentClusterSize = current_timeline_size fb,
     wf_last_received_lsn = last_received_lsn fb, wf_disk_consistent_lsn = disk_consistent_lsn fb,
     wf_remote_consistent_lsn = ps_remote_consistent_lsn fb,
     wf_replytime = word_of_int (replytime fb div 1000)\<rparr>"

context wire_format
begin

lemma getmsg_enc [reads]:
  "getmsgint64_le W (enc_u64_le W x @ rest) = (Ok x, rest)"
  "getmsgint32_le W (enc_u32_le W y @ rest) = (Ok y, rest)"
  "getmsgint64 W (enc_u64_be W x @ rest) = (Ok x, rest)"
  "getmsgint W (enc_u32_be W y @ rest) = (Ok y, rest)"
  by (simp_all add: getmsgint64_le_def getmsgint32_le_def getmsgint64_def getmsgint_def reads
      get_ints enc_lengths)

lemma getmsgint64_le_last [reads]: "getmsgint64_le W (enc_u64_le W x) = (Ok x, [])"
  using getmsg_enc(1) [of x "[]"] by simp

lemma wp_read_entries_enc:
  "wp_read_entries W (length th)
     (concat (map (\<lambda>e. enc_u64_le W (tl_term e) @ enc_u64_le W (tl_lsn e)) th) @ rest) = (Ok th, rest)"
  by (induction th) (simp_all add: reads)

lemma getmsgend_Nil [reads]: "getmsgend [] = (Ok (), [])"
  by (simp add: getmsgend_def require_def)

lemma getmsgstring_append [reads]: "0 \<notin> set k \<Longrightarrow> getmsgstring (k @ 0 # rest) = (Ok k, rest)"
  by (simp add: getmsgstring_def reads)

lemma andthen_getmsgstring: "0 \<notin> set k \<Longrightarrow> andthen getmsgstring f (k @ 0 # rest) = f k rest"
  by (simp add: reads)

lemma wp_parse_field_bytes:
  "wp_parse_field W rf (field_bytes W ''current_timeline_size'' v @ rest) =
     (Ok (rf\<lparr>wf_currentClusterSize := v\<rparr>), rest)"
  "wp_parse_field W rf (field_bytes W ''ps_writelsn'' v @ rest) =
     (Ok (rf\<lparr>wf_last_received_lsn := v\<rparr>), rest)"
  "wp_parse_field W rf (field_bytes W ''ps_flushlsn'' v @ rest) =
     (Ok (rf\<lparr>wf_disk_consistent_lsn := v\<rparr>), rest)"
  "wp_parse_field W rf (field_bytes W ''ps_applylsn'' v @ rest) =
     (Ok (rf\<lparr>wf_remote_consistent_lsn := v\<rparr>), rest)"
  "wp_parse_field W rf (field_bytes W ''ps_replytime'' v @ rest) =
     (Ok (rf\<lparr>wf_replytime := v\<rparr>), rest)"
  unfolding wp_parse_field_def field_bytes_def append_assoc append.append_Cons append.append_Nil
  by (simp_all only: feedback_keys [THEN andthen_getmsgstring])
    (simp_all add: str_bytes_def reads)

lemma wp_parse_feedback_serialize:
  assumes "feedback_serialize W fb = Some bs"
  shows "wp_parse_feedback W rf bs =
    (Ok (wp_feedback_of fb), [])"
proof -
  have more: "wp_parse_fields W (numeral k) rf =
      andthen (wp_parse_field W rf) (wp_parse_fields W (pred_numeral k))" for k rf
    by (simp add: numeral_eq_Suc)
  have last: "wp_parse_field W rf (field_bytes W ''ps_replytime'' v) =
     (Ok (rf\<lparr>wf_replytime := v\<rparr>), [])" for rf v
    using wp_parse_field_bytes(5) [of rf v "[]"] by simp
  from assms show ?thesis
    by (cases rf) (auto simp: wp_feedback_of_def wp_parse_feedback_def getmsgbyte_def feedback_serialize_def
        PAGESERVER_FEEDBACK_FIELDS_NUMBER_def reads more wp_parse_field_bytes last split: if_splits)
qed

lemma read_vote_response_enc:
  assumes "length (vr_term_history m) < 2 ^ 32" and "palloc_ok (16 * length (vr_term_history m))"
    and "ap_serialize W (AVoteResponse m) = Some bs"
  shows "AsyncReadMessage W palloc_ok (of_char CHR ''v'') rf bs = (Ok (WVoteResponse m), [])"
proof -
  have n: "unat (of_nat (length (vr_term_history m)) :: u32) = length (vr_term_history m)"
    using assms(1) by (simp add: unat_of_nat)
  have pa: "require (\<lambda>_. palloc_ok (16 * length (vr_term_history m))) OutOfMemory t = (Ok (), t)" for t :: "byte list"
    using assms(2) by (simp add: require_def)
  from assms(3) show ?thesis
    by (auto simp: ap_serialize_def AsyncReadMessage_def read_vote_response_def th_to_bytes_def
        reads n pa wp_read_entries_enc)
qed

lemma read_append_response_enc:
  assumes "feedback_serialize W (rsp_pageserver_feedback m) = Some fb"
    and "ap_serialize W (AAppendResponse m) = Some bs"
  shows "AsyncReadMessage W palloc_ok (of_char CHR ''a'') rf bs =
    (Ok (WAppendResponse \<lparr>wa_term = rsp_term m, wa_flushLsn = rsp_flush_lsn m,
       wa_commitLsn = rsp_commit_lsn m, wa_hs = rsp_hs_feedback m,
       wa_rf = wp_feedback_of (rsp_pageserver_feedback m)\<rparr>), [])"
proof -
  have "fb \<noteq> []" using assms(1) by (auto simp: feedback_serialize_def split: if_splits)
  with assms enc_lengths(2) show ?thesis
    by (cases "rsp_hs_feedback m") (auto simp: ap_serialize_def AsyncReadMessage_def
        read_append_response_def APPENDRESPONSE_FIXEDPART_SIZE_def reads wp_parse_feedback_serialize)
qed

lemma parse_elected_bytes:
  assumes "length (pe_term_history m) < 2 ^ 32"
  shows "pa_parse W B (elected_bytes W m) = (Ok (Elected m), [])"
proof -
  have th: "elected_bytes W m = enc_u64_le W (of_char CHR ''e'') @ enc_u64_le W (pe_term m)
     @ enc_u64_le W (pe_start_streaming_at m) @ th_to_bytes W (pe_term_history m)
     @ enc_u64_le W (pe_timeline_start_lsn m)"
    by (simp add: elected_bytes_def th_to_bytes_def)
  have last: "get_u64_le W (enc_u64_le W x) = (Ok x, [])" for x
    using get_ints(2) [of x "[]"] by simp
  show ?thesis
    unfolding th pa_parse_def parse_elected_def
    by (simp add: reads get_ints enc_lengths th_from_to_bytes [OF assms] last)
qed

end

section \<open>The start of streaming is the highest common point\<close>

lemma common_entries_ge: "common_entries i p s = Ok n \<Longrightarrow> i \<le> n"
  by (induction i p s rule: common_entries.induct) (auto split: if_splits)

lemma last_common_entries:
  "last_common i acc p s = (case common_entries i p s of
     Ok n \<Rightarrow> Ok (if n = i then acc else Some (n - 1)) | Err e \<Rightarrow> Err e | Panic \<Rightarrow> Panic)"
proof (induction i acc p s rule: last_common.induct)
  case (1 i acc p ps s ss)
  then show ?case by (auto split: outcome.splits dest: common_entries_ge)
qed auto

lemma common_entries_le: "common_entries i p s = Ok n \<Longrightarrow> n \<le> i + length p"
  by (induction i p s rule: common_entries.induct) (auto split: if_splits)

lemma start_streaming_common_point:
  assumes wf: "wf_history prop" and ne: "prop \<noteq> []" and pt: "propTerm = tl_term (last prop)"
    and fp: "find_highest_common_point prop (vr_term_history v) (vr_flush_lsn v) = (Ok r :: ('e, _) outcome)"
    and tsl: "tl_lsn (hd prop) = tsl \<or> tsl = Lsn_INVALID"
  shows "start_streaming_at propTerm prop tsl v =
    (Ok (case r of None \<Rightarrow> tl_lsn (hd prop) | Some c \<Rightarrow> tl_lsn c) :: ('e, _) outcome)"
proof -
  let ?s = "vr_term_history v"
  have lc: "(last_common 0 None prop ?s :: ('e, _) outcome) = (case common_entries 0 prop ?s of
      Ok n \<Rightarrow> Ok (if n = 0 then None else Some (n - 1)) | Err e \<Rightarrow> Err e | Panic \<Rightarrow> Panic)"
    by (rule last_common_entries)
  with fp obtain n where n: "common_entries 0 prop ?s = (Ok n :: ('e, _) outcome)"
    by (cases "common_entries 0 prop ?s :: ('e, _) outcome")
      (simp_all add: find_highest_common_point_def split: if_splits)
  have "(last_common 0 None prop ?s :: ('e, _) outcome) = Ok (if n = 0 then None else Some (n - 1))"
    by (simp add: lc n)
  moreover have "n \<le> length prop" using common_entries_le [OF n] by simp
  moreover have "tl_term (prop ! i) = propTerm \<longleftrightarrow> i = length prop - 1" if "i < length prop" for i
  proof
    assume "tl_term (prop ! i) = propTerm"
    moreover have "tl_term (prop ! i) < tl_term (prop ! (length prop - 1))" if "i < length prop - 1"
      using wf that by (auto simp: wf_history_def sorted_wrt_iff_nth_less)
    ultimately show "i = length prop - 1"
      using pt ne that by (cases "i < length prop - 1") (auto simp: last_conv_nth)
  qed (simp add: pt ne last_conv_nth)
  ultimately show ?thesis
    using fp ne tsl n
    by (cases n) (auto simp: start_streaming_at_def find_highest_common_point_def Let_def hd_conv_nth
        split: if_splits)
qed

section \<open>Properties\<close>

definition example_vote :: vote_response where
  "example_vote = \<lparr>vr_term = 4, vr_vote_given = 1, vr_flush_lsn = 128, vr_truncate_lsn = 16,
     vr_term_history = example_sk_th, vr_timeline_start_lsn = 16\<rparr>"

definition example_append_response :: append_response where
  "example_append_response = \<lparr>rsp_term = 4, rsp_flush_lsn = 128, rsp_commit_lsn = 96,
     rsp_hs_feedback = hs_feedback_empty, rsp_pageserver_feedback = feedback_empty\<lparr>replytime := 2500\<rparr>\<rparr>"

definition example_elected :: proposer_elected where
  "example_elected = \<lparr>pe_term = 4, pe_start_streaming_at = 80, pe_term_history = example_prop_th,
     pe_timeline_start_lsn = 16\<rparr>"

text \<open>
  C19. The compute and the safekeeper agree on where their logs diverge: when the proposer's
  history is well formed and ends in its own term, and the safekeeper's search for the highest
  common point succeeds on the history of its vote, the C routine starts streaming exactly at
  that point, or at the first position of the proposer's history when there is none.
\<close>

theorem start_streaming_matches_safekeeper:
  assumes "wf_history prop" and "prop \<noteq> []" and "propTerm = tl_term (last prop)"
    and "find_highest_common_point prop (vr_term_history v) (vr_flush_lsn v) = (Ok r :: ('e, _) outcome)"
    and "tl_lsn (hd prop) = tsl \<or> tsl = Lsn_INVALID"
  shows "start_streaming_at propTerm prop tsl v =
    (Ok (case r of None \<Rightarrow> tl_lsn (hd prop) | Some c \<Rightarrow> tl_lsn c) :: ('e, _) outcome)"
  by (rule start_streaming_common_point [OF assms])

lemma start_streaming_matches_safekeeper_witness:
  "start_streaming_at 4 example_prop_th 16 example_vote = (Ok 80 :: (unit, lsn) outcome)"
proof -
  have "wf_history example_prop_th" by (simp add: example_prop_th_def wf_history_def)
  moreover have "(find_highest_common_point example_prop_th (vr_term_history example_vote)
      (vr_flush_lsn example_vote) :: (unit, _) outcome) = Ok (Some \<lparr>tl_term = 2, tl_lsn = 80\<rparr>)"
    by (simp add: example_vote_def example_prop_th_def example_sk_th_def find_highest_common_point_def)
  moreover have "example_prop_th \<noteq> []" "4 = tl_term (last example_prop_th)"
    and hd: "tl_lsn (hd example_prop_th) = 16"
    by (simp_all add: example_prop_th_def)
  ultimately have "(start_streaming_at 4 example_prop_th 16 example_vote :: (unit, lsn) outcome) =
      Ok (case Some \<lparr>tl_term = 2, tl_lsn = 80\<rparr> of None \<Rightarrow> tl_lsn (hd example_prop_th) | Some c \<Rightarrow> tl_lsn c)"
    by (intro start_streaming_matches_safekeeper disjI1)
  then show ?thesis by simp
qed

text \<open>
  C21. A vote response that a safekeeper serializes is read back unchanged by the compute, for
  every codec that satisfies the wire format, when the history is shorter than \<open>2^32\<close> entries
  and the allocation of its entries succeeds.
\<close>

theorem vote_response_roundtrip:
  assumes "wire_format W" and "length (vr_term_history m) < 2 ^ 32"
    and "palloc_ok (16 * length (vr_term_history m))"
  shows "map_option (AsyncReadMessage W palloc_ok (of_char CHR ''v'') rf) (ap_serialize W (AVoteResponse m))
    = Some (Ok (WVoteResponse m), [])"
  using wire_format.read_vote_response_enc [where palloc_ok = palloc_ok, OF assms] by (simp add: ap_serialize_def)

lemma vote_response_roundtrip_witness:
  "map_option (AsyncReadMessage std_wire (\<lambda>n. n < 2 ^ 30) (of_char CHR ''v'') (wp_feedback_of feedback_empty))
     (ap_serialize std_wire (AVoteResponse example_vote)) = Some (Ok (WVoteResponse example_vote), [])"
proof -
  have "length (vr_term_history example_vote) = 3"
    by (simp add: example_vote_def example_sk_th_def)
  then show ?thesis
    using vote_response_roundtrip [OF std.wire_format_axioms, of example_vote "\<lambda>n. n < 2 ^ 30"] by simp
qed

text \<open>
  C22. An append response that a safekeeper serializes (its reply time is not before the
  epoch, or serializing panics) is read back by the compute with every field, the pageserver
  feedback included; the reply time is rounded down to microseconds.
\<close>

theorem append_response_roundtrip:
  assumes "wire_format W" and "0 \<le> replytime (rsp_pageserver_feedback m)"
  shows "map_option (AsyncReadMessage W palloc_ok (of_char CHR ''a'') rf) (ap_serialize W (AAppendResponse m))
    = Some (Ok (WAppendResponse \<lparr>wa_term = rsp_term m, wa_flushLsn = rsp_flush_lsn m,
       wa_commitLsn = rsp_commit_lsn m, wa_hs = rsp_hs_feedback m,
       wa_rf = wp_feedback_of (rsp_pageserver_feedback m)\<rparr>), [])"
proof -
  obtain fb where fb: "feedback_serialize W (rsp_pageserver_feedback m) = Some fb"
    using assms(2) by (simp add: feedback_serialize_def)
  then obtain bs where "ap_serialize W (AAppendResponse m) = Some bs" by (simp add: ap_serialize_def)
  with wire_format.read_append_response_enc [OF assms(1) fb this] show ?thesis by simp
qed

lemma append_response_roundtrip_witness:
  "map_option (AsyncReadMessage std_wire (\<lambda>n. n < 2 ^ 30) (of_char CHR ''a'') (wp_feedback_of feedback_empty))
     (ap_serialize std_wire (AAppendResponse example_append_response)) =
     Some (Ok (WAppendResponse \<lparr>wa_term = 4, wa_flushLsn = 128, wa_commitLsn = 96,
       wa_hs = hs_feedback_empty,
       wa_rf = wp_feedback_of (feedback_empty\<lparr>replytime := 2000\<rparr>)\<rparr>), [])"
  using append_response_roundtrip [OF std.wire_format_axioms, of example_append_response]
  by (simp add: example_append_response_def wp_feedback_of_def)

text \<open>
  C20. The message by which a compute announces its election is parsed by the safekeeper into
  the same message, for every codec that satisfies the wire format.
\<close>

theorem elected_roundtrip:
  assumes "wire_format W" and "length (pe_term_history m) < 2 ^ 32"
  shows "pa_parse W B (elected_bytes W m) = (Ok (Elected m), [])"
  by (rule wire_format.parse_elected_bytes [OF assms])

lemma elected_roundtrip_witness:
  "pa_parse std_wire \<lparr>des_greeting = (\<lambda>_. None), des_vote_request = (\<lambda>_. None),
     des_append_header = (\<lambda>_. None)\<rparr> (elected_bytes std_wire example_elected) =
     (Ok (Elected example_elected), [])"
  by (rule elected_roundtrip [OF std.wire_format_axioms])
    (simp add: example_elected_def example_prop_th_def)

end
