(* ===== verification/File_System.thy ===== *)
theory File_System
  imports Rust_Std "HOL-Library.AList"
begin

text \<open>
  The part of the file system that the storage code uses: one directory of files, as
  \<open>std::fs\<close> and \<open>tokio::fs\<close> expose it. A file name refers to an inode. For each inode
  the model keeps what a reader sees now and what a \<open>sync_all\<close> has put on the disk; for
  the directory it keeps the current version and the older versions that the disk may
  still hold, until the directory is synced. The list \<open>faults\<close> holds the outcome of the
  calls to come: \<open>None\<close> for success, \<open>Some k\<close> for an I/O error (a failing write still
  writes the first \<open>k\<close> bytes). The end of the list means no more faults. The theorems
  quantify over it.
\<close>

type_synonym inode = nat
type_synonym directory = "(string \<times> inode) list"

record fs =
  dir :: directory
  older_dirs :: "directory list"
  data :: "inode \<Rightarrow> byte list"
  disk_data :: "inode \<Rightarrow> byte list"
  next_inode :: inode
  faults :: "nat option list"

datatype io_error = NotFound | IoFailed

section \<open>Calls\<close>

text \<open>The outcome of the next call.\<close>

definition next_fault :: "(fs, 'e, nat option) rust" where
  "next_fault = (\<lambda>s. case faults s of
       [] \<Rightarrow> (Ok None, s)
     | f # fs \<Rightarrow> (Ok f, s\<lparr>faults := fs\<rparr>))"

definition may_fail :: "(fs, io_error, 'a) rust \<Rightarrow> (fs, io_error, 'a) rust" where
  "may_fail m = andthen next_fault (\<lambda>f. if f = None then m else bail IoFailed)"

definition fs_lookup :: "fs \<Rightarrow> string \<Rightarrow> inode option" where
  "fs_lookup s name = map_of (dir s) name"

definition fs_contents :: "fs \<Rightarrow> string \<Rightarrow> byte list option" where
  "fs_contents s name = map_option (data s) (fs_lookup s name)"

definition set_dir :: "directory \<Rightarrow> fs \<Rightarrow> fs" where
  "set_dir d s = s\<lparr>dir := d, older_dirs := dir s # older_dirs s\<rparr>"

definition set_data :: "inode \<Rightarrow> byte list \<Rightarrow> fs \<Rightarrow> fs" where
  "set_data i bs s = s\<lparr>data := (data s)(i := bs)\<rparr>"

definition add_file :: "string \<Rightarrow> (fs, 'e, inode) rust" where
  "add_file name = (\<lambda>s. (Ok (next_inode s),
     set_data (next_inode s) [] (set_dir (AList.update name (next_inode s) (dir s)) s)
       \<lparr>next_inode := Suc (next_inode s)\<rparr>))"

text \<open>\<open>File::create\<close>: an existing file is emptied.\<close>

definition fs_create :: "string \<Rightarrow> (fs, io_error, inode) rust" where
  "fs_create name = may_fail (andthen (read (\<lambda>s. fs_lookup s name)) (\<lambda>f. case f of
       Some i \<Rightarrow> andthen (update (set_data i [])) (\<lambda>_. ret i)
     | None \<Rightarrow> add_file name))"

text \<open>\<open>OpenOptions::new().write(true).open\<close>, and the same with \<open>create(true)\<close>.\<close>

definition fs_open :: "string \<Rightarrow> (fs, io_error, inode) rust" where
  "fs_open name = may_fail (andthen (read (\<lambda>s. fs_lookup s name)) (\<lambda>f. case f of
       Some i \<Rightarrow> ret i | None \<Rightarrow> bail NotFound))"

definition fs_open_create :: "string \<Rightarrow> (fs, io_error, inode) rust" where
  "fs_open_create name = may_fail (andthen (read (\<lambda>s. fs_lookup s name)) (\<lambda>f. case f of
       Some i \<Rightarrow> ret i | None \<Rightarrow> add_file name))"

text \<open>A write at an offset; a gap before it reads as zeroes.\<close>

definition write_bytes :: "nat \<Rightarrow> byte list \<Rightarrow> byte list \<Rightarrow> byte list" where
  "write_bytes off bs old =
     take off old @ replicate (off - length old) 0 @ bs @ drop (off + length bs) old"

definition fs_write :: "inode \<Rightarrow> nat \<Rightarrow> byte list \<Rightarrow> (fs, io_error, unit) rust" where
  "fs_write i off bs = andthen next_fault (\<lambda>f. case f of
       None \<Rightarrow> update (\<lambda>s. set_data i (write_bytes off bs (data s i)) s)
     | Some k \<Rightarrow> andthen (update (\<lambda>s. set_data i (write_bytes off (take k bs) (data s i)) s))
                    (\<lambda>_. bail IoFailed))"

definition sync_inode :: "inode \<Rightarrow> fs \<Rightarrow> fs" where
  "sync_inode i s = s\<lparr>disk_data := (disk_data s)(i := data s i)\<rparr>"

definition fs_sync :: "inode \<Rightarrow> (fs, io_error, unit) rust" where
  "fs_sync i = may_fail (update (sync_inode i))"

definition fs_sync_dir :: "(fs, io_error, unit) rust" where
  "fs_sync_dir = may_fail (update (\<lambda>s. s\<lparr>older_dirs := []\<rparr>))"

definition fs_rename :: "string \<Rightarrow> string \<Rightarrow> (fs, io_error, unit) rust" where
  "fs_rename old_name new_name = may_fail (andthen (read (\<lambda>s. fs_lookup s old_name)) (\<lambda>f. case f of
       Some i \<Rightarrow> update (\<lambda>s. set_dir (AList.update new_name i (AList.delete old_name (dir s))) s)
     | None \<Rightarrow> bail NotFound))"

definition fs_remove :: "string \<Rightarrow> (fs, io_error, unit) rust" where
  "fs_remove name = may_fail (andthen (read (\<lambda>s. fs_lookup s name)) (\<lambda>f. case f of
       Some i \<Rightarrow> update (\<lambda>s. set_dir (AList.delete name (dir s)) s)
     | None \<Rightarrow> bail NotFound))"

definition fs_read :: "string \<Rightarrow> (fs, io_error, byte list) rust" where
  "fs_read name = andthen (fs_open name) (\<lambda>i. may_fail (read (\<lambda>s. data s i)))"

definition fs_names :: "(fs, io_error, string list) rust" where
  "fs_names = may_fail (read (\<lambda>s. map fst (dir s)))"

section \<open>\<open>crashsafe.rs\<close>\<close>

definition fsync_async :: "string \<Rightarrow> (fs, io_error, unit) rust" where
  "fsync_async path = andthen (fs_open path) fs_sync"

definition fsync_async_opt :: "string \<Rightarrow> bool \<Rightarrow> (fs, io_error, unit) rust" where
  "fsync_async_opt path do_fsync = (if do_fsync then fsync_async path else ret ())"

definition durable_rename :: "string \<Rightarrow> string \<Rightarrow> bool \<Rightarrow> (fs, io_error, unit) rust" where
  "durable_rename old_path new_path do_fsync =
     andthen (fsync_async_opt old_path do_fsync) (\<lambda>_.
     andthen (fs_rename old_path new_path) (\<lambda>_.
     andthen (fsync_async_opt new_path do_fsync) (\<lambda>_.
     if do_fsync then fs_sync_dir else ret ())))"

section \<open>Crashes\<close>

text \<open>
  What a file may contain after a power failure: any version of the directory since the
  last sync may be the one on the disk, and an inode that is not synced may hold anything.
\<close>

definition dir_versions :: "fs \<Rightarrow> directory list" where
  "dir_versions s = dir s # older_dirs s"

definition synced :: "fs \<Rightarrow> inode \<Rightarrow> bool" where
  "synced s i = (disk_data s i = data s i)"

definition refs :: "string \<Rightarrow> fs \<Rightarrow> inode option set" where
  "refs name s = (\<lambda>d. map_of d name) ` set (dir_versions s)"

definition crash_contents :: "fs \<Rightarrow> string \<Rightarrow> byte list option set" where
  "crash_contents s name = {c. \<exists>r \<in> refs name s. case r of
       None \<Rightarrow> c = None
     | Some i \<Rightarrow> \<exists>bs. c = Some bs \<and> (synced s i \<longrightarrow> bs = data s i)}"

text \<open>The file system that a restart after a power failure may find.\<close>

definition after_crash :: "fs \<Rightarrow> fs \<Rightarrow> bool" where
  "after_crash s t \<longleftrightarrow> dir t \<in> set (dir_versions s) \<and> older_dirs t = [] \<and> data t = disk_data t \<and>
     (\<forall>i. synced s i \<longrightarrow> data t i = data s i) \<and> next_inode t = next_inode s"

section \<open>Lemmas\<close>

lemma wp_next_fault [wp]:
  "wp next_fault Q E F = (\<lambda>s. case faults s of [] \<Rightarrow> Q None s | f # fs \<Rightarrow> Q f (s\<lparr>faults := fs\<rparr>))"
  by (auto simp: wp_def next_fault_def fun_eq_iff split: list.splits)

lemma wp_may_fail:
  assumes "\<And>fs. wp m Q E F (s\<lparr>faults := fs\<rparr>)" and "\<And>fs. E IoFailed (s\<lparr>faults := fs\<rparr>)"
  shows "wp (may_fail m) Q E F s"
proof (cases "faults s")
  case Nil
  with assms(1) [of "[]"] show ?thesis by (cases s) (simp add: may_fail_def wp)
next
  case (Cons f fs)
  with assms show ?thesis by (cases f) (auto simp: may_fail_def wp)
qed

lemma dir_versions_simps [simp]:
  "dir_versions (s\<lparr>faults := f\<rparr>) = dir_versions s"
  "dir_versions (set_data i bs s) = dir_versions s"
  "dir_versions (set_dir d s) = d # dir_versions s"
  "dir_versions (s\<lparr>next_inode := n\<rparr>) = dir_versions s"
  "dir_versions (sync_inode i s) = dir_versions s"
  "dir_versions (s\<lparr>older_dirs := []\<rparr>) = [dir s]"
  by (simp_all add: dir_versions_def set_data_def set_dir_def sync_inode_def)

lemma fs_lookup_simps [simp]:
  "fs_lookup (s\<lparr>faults := f\<rparr>) n = fs_lookup s n"
  "fs_lookup (set_data i bs s) n = fs_lookup s n"
  "fs_lookup (set_dir d s) n = map_of d n"
  "fs_lookup (s\<lparr>next_inode := k\<rparr>) n = fs_lookup s n"
  "fs_lookup (sync_inode i s) n = fs_lookup s n"
  "fs_lookup (s\<lparr>older_dirs := x'\<rparr>) n = fs_lookup s n"
  by (simp_all add: fs_lookup_def set_data_def set_dir_def sync_inode_def)

lemma data_simps [simp]:
  "data (set_data i bs s) = (data s)(i := bs)" "disk_data (set_data i bs s) = disk_data s"
  "data (set_dir d s) = data s" "disk_data (set_dir d s) = disk_data s"
  "next_inode (set_data i bs s) = next_inode s" "next_inode (set_dir d s) = next_inode s"
  "dir (set_data i bs s) = dir s" "dir (set_dir d s) = d"
  "faults (set_data i bs s) = faults s" "faults (set_dir d s) = faults s"
  "data (sync_inode i s) = data s" "next_inode (sync_inode i s) = next_inode s"
  "dir (sync_inode i s) = dir s" "faults (sync_inode i s) = faults s"
  by (simp_all add: set_data_def set_dir_def sync_inode_def)

lemma write_bytes_empty [simp]: "write_bytes 0 bs [] = bs"
  by (simp add: write_bytes_def)

section \<open>Replacing a file through a temporary one\<close>

text \<open>
  The state in which a temporary file may be rewritten without touching any version of the
  final file that the disk may hold: those are all synced, and none is the temporary file.
\<close>

definition replaceable :: "string \<Rightarrow> string \<Rightarrow> fs \<Rightarrow> bool" where
  "replaceable tmp final s = (tmp \<noteq> final \<and>
     (\<forall>i. Some i \<in> refs final s \<longrightarrow> synced s i \<and> fs_lookup s tmp \<noteq> Some i) \<and>
     (\<forall>i. Some i \<in> refs final s \<union> {fs_lookup s tmp} \<longrightarrow> i < next_inode s) \<and>
     (\<forall>d \<in> set (dir_versions s). \<forall>i. map_of d tmp = Some i \<longrightarrow> map_of d final \<noteq> Some i \<and> i < next_inode s))"

text \<open>The contents that the versions of a file have.\<close>

definition versions_of :: "string \<Rightarrow> fs \<Rightarrow> byte list option set" where
  "versions_of name s = map_option (data s) ` refs name s"

lemma crash_contents_versions:
  "replaceable tmp final s \<Longrightarrow> crash_contents s final = versions_of final s"
proof (intro set_eqI)
  fix c
  assume r: "replaceable tmp final s"
  have "(case r of None \<Rightarrow> c = None | Some i \<Rightarrow> \<exists>bs. c = Some bs \<and> (synced s i \<longrightarrow> bs = data s i)) \<longleftrightarrow>
      c = map_option (data s) r" if "r \<in> refs final s" for r
    using r that by (cases r) (auto simp: replaceable_def)
  then show "c \<in> crash_contents s final \<longleftrightarrow> c \<in> versions_of final s"
    by (auto simp: crash_contents_def versions_of_def)
qed

lemma refs_simps [simp]:
  "refs n (s\<lparr>faults := f\<rparr>) = refs n s"
  "refs n (set_data i bs s) = refs n s"
  "refs n (set_dir d s) = insert (map_of d n) (refs n s)"
  "refs n (s\<lparr>next_inode := k\<rparr>) = refs n s"
  "refs n (sync_inode i s) = refs n s"
  "refs n (s\<lparr>older_dirs := []\<rparr>) = {fs_lookup s n}"
  by (simp_all add: refs_def fs_lookup_def)

lemma fs_lookup_refs [simp]: "fs_lookup s n \<in> refs n s"
  by (simp add: fs_lookup_def refs_def dir_versions_def)

lemma synced_faults [simp]: "synced (s\<lparr>faults := f\<rparr>) i = synced s i"
  by (simp add: synced_def)

lemma replaceable_faults [simp]:
  "replaceable tmp final (s\<lparr>faults := f\<rparr>) = replaceable tmp final s"
  "versions_of final (s\<lparr>faults := f\<rparr>) = versions_of final s"
  by (simp_all add: replaceable_def versions_of_def)

lemma versions_of_cong:
  "refs n s = refs n t \<Longrightarrow> (\<And>i. Some i \<in> refs n t \<Longrightarrow> data s i = data t i) \<Longrightarrow>
     versions_of n s = versions_of n t"
  unfolding versions_of_def by (intro image_cong) (auto simp: map_option_case split: option.splits)

text \<open>Rewriting the temporary inode, whatever is written.\<close>

lemma replaceable_set_data:
  assumes "replaceable tmp final s" and "fs_lookup s tmp = Some i"
  shows "replaceable tmp final (set_data i bs s)"
    and "versions_of final (set_data i bs s) = versions_of final s"
  using assms by (auto simp: replaceable_def synced_def intro!: versions_of_cong)

lemma fs_create_replaceable:
  assumes r: "replaceable tmp final s"
  shows "wp (fs_create tmp)
    (\<lambda>i t. replaceable tmp final t \<and> fs_lookup t tmp = Some i \<and> data t i = [] \<and>
       versions_of final t = versions_of final s)
    (\<lambda>_ t. replaceable tmp final t \<and> versions_of final t = versions_of final s) F s"
  unfolding fs_create_def
proof (rule wp_may_fail)
  fix f
  let ?s = "s\<lparr>faults := f\<rparr>"
  show "wp (andthen (read (\<lambda>s. fs_lookup s tmp)) (\<lambda>g. case g of
       Some i \<Rightarrow> andthen (update (set_data i [])) (\<lambda>_. ret i) | None \<Rightarrow> add_file tmp))
     (\<lambda>i t. replaceable tmp final t \<and> fs_lookup t tmp = Some i \<and> data t i = [] \<and>
       versions_of final t = versions_of final s)
     (\<lambda>_ t. replaceable tmp final t \<and> versions_of final t = versions_of final s) F ?s"
  proof (cases "fs_lookup ?s tmp")
    case (Some i)
    with r replaceable_set_data [of tmp final ?s i "[]"] show ?thesis by (simp add: wp)
  next
    case None
    let ?t = "set_data (next_inode s) [] (set_dir (AList.update tmp (next_inode s) (dir s)) ?s)
       \<lparr>next_inode := Suc (next_inode s)\<rparr>"
    have refs: "refs final ?t = refs final s" and tmp: "fs_lookup ?t tmp = Some (next_inode s)"
      using r fs_lookup_refs [of s final]
      by (auto simp: replaceable_def update_conv' fs_lookup_def)
    have below: "i < next_inode s" if "Some i \<in> refs final s" for i
      using r that by (auto simp: replaceable_def)
    have "map_of (AList.update tmp (next_inode s) (dir s)) final \<in> refs final s"
      by (subst refs [symmetric]) simp
    with below [of "next_inode s"] have fresh: "map_of (AList.update tmp (next_inode s) (dir s)) final \<noteq> Some (next_inode s)"
      by auto
    have "versions_of final ?t = versions_of final s"
      using refs below by (intro versions_of_cong) auto
    moreover have "replaceable tmp final ?t"
      using r refs tmp below fresh unfolding replaceable_def by (auto simp: synced_def less_Suc_eq)
    ultimately show ?thesis using None tmp by (simp add: wp add_file_def wp_def)
  qed
qed (use r in simp)

lemma fs_write_replaceable:
  assumes "replaceable tmp final s" and "fs_lookup s tmp = Some i" and "data s i = []"
  shows "wp (fs_write i 0 bs)
    (\<lambda>_ t. replaceable tmp final t \<and> fs_lookup t tmp = Some i \<and> data t i = bs \<and>
       versions_of final t = versions_of final s)
    (\<lambda>_ t. replaceable tmp final t \<and> versions_of final t = versions_of final s) F s"
  using assms replaceable_set_data [of tmp final "s\<lparr>faults := f\<rparr>" i for f] replaceable_set_data [of tmp final s i]
  by (auto simp: fs_write_def wp split: list.splits option.splits)

lemma synced_sync_inode [simp]: "synced (sync_inode i s) j = (j = i \<or> synced s j)"
  by (simp add: sync_inode_def synced_def)

lemma replaceable_sync:
  assumes "replaceable tmp final s"
  shows "replaceable tmp final (sync_inode i s)"
    and "versions_of final (sync_inode i s) = versions_of final s"
  using assms by (simp_all add: replaceable_def versions_of_def)

lemma wp_fsync_async:
  assumes "fs_lookup s name = Some i"
    and "\<And>f. Q () (sync_inode i (s\<lparr>faults := f\<rparr>))" and "\<And>f. E IoFailed (s\<lparr>faults := f\<rparr>)"
  shows "wp (fsync_async_opt name True) Q E F s"
  unfolding fsync_async_opt_def fsync_async_def fs_open_def fs_sync_def if_True wp
  using assms by (intro wp_may_fail) (auto simp: wp intro!: wp_may_fail)

lemma durable_rename_replaceable:
  assumes r: "replaceable tmp final s" and tmp: "fs_lookup s tmp = Some i" and bs: "data s i = bs"
  shows "wp (durable_rename tmp final True)
    (\<lambda>_ t. replaceable tmp final t \<and> versions_of final t = {Some bs})
    (\<lambda>_ t. replaceable tmp final t \<and> versions_of final t \<subseteq> insert (Some bs) (versions_of final s)) F s"
proof -
  let ?E = "\<lambda>t. replaceable tmp final t \<and> versions_of final t \<subseteq> insert (Some bs) (versions_of final s)"
  let ?synced = "\<lambda>t. replaceable tmp final t \<and> fs_lookup t tmp = Some i \<and> data t i = bs \<and> synced t i \<and>
     versions_of final t = versions_of final s"
  let ?moved = "\<lambda>t. ?E t \<and> fs_lookup t final = Some i \<and> data t i = bs"
  have sync: "wp (fsync_async_opt tmp True) (\<lambda>_. ?synced) (\<lambda>_. ?E) F s"
    by (rule wp_fsync_async [OF tmp]) (use r tmp bs in \<open>auto simp: replaceable_sync\<close>)
  have rename: "wp (fs_rename tmp final) (\<lambda>_. ?moved) (\<lambda>_. ?E) F t" if t: "?synced t" for t
  proof -
    have moved: "?moved (set_dir (AList.update final i (AList.delete tmp (dir t))) (t\<lparr>faults := f\<rparr>))" for f
      using t by (auto simp: replaceable_def versions_of_def update_conv' delete_conv' fs_lookup_def synced_def)
    show ?thesis
      unfolding fs_rename_def by (rule wp_may_fail) (use t moved in \<open>auto simp: wp\<close>)
  qed
  have sync2: "wp (fsync_async_opt final True) (\<lambda>_. ?moved) (\<lambda>_. ?E) F t" if "?moved t" for t
    by (rule wp_fsync_async) (use that in \<open>auto simp: replaceable_sync\<close>)
  have dir: "wp fs_sync_dir (\<lambda>_ t. replaceable tmp final t \<and> versions_of final t = {Some bs})
      (\<lambda>_. ?E) F t" if t: "?moved t" for t
  proof -
    have "versions_of final (t\<lparr>faults := f, older_dirs := []\<rparr>) = {Some bs}"
      and "replaceable tmp final (t\<lparr>faults := f, older_dirs := []\<rparr>)" for f
      using t fs_lookup_refs [of t final]
      by (auto simp: replaceable_def versions_of_def refs_def fs_lookup_def dir_versions_def synced_def)
    with t show ?thesis unfolding fs_sync_dir_def by (intro wp_may_fail) (auto simp: wp)
  qed
  show ?thesis
    unfolding durable_rename_def wp if_True
  proof (rule wp_mono [OF sync])
    fix t
    assume "?synced t"
    then show "wp (fs_rename tmp final) (\<lambda>_. wp (fsync_async_opt final True)
        (\<lambda>_. wp fs_sync_dir (\<lambda>_ t. replaceable tmp final t \<and> versions_of final t = {Some bs}) (\<lambda>_. ?E) F)
        (\<lambda>_. ?E) F) (\<lambda>_. ?E) F t"
      by (rule wp_mono [OF rename wp_mono [OF sync2 dir]])
  qed
qed

text \<open>A restart finds one of those versions, and may replace the file again.\<close>

lemma after_crash_contents: "after_crash s t \<Longrightarrow> fs_contents t name \<in> crash_contents s name"
  by (auto simp: after_crash_def crash_contents_def refs_def fs_contents_def fs_lookup_def
      split: option.splits intro!: bexI [of _ "dir t"])

lemma after_crash_replaceable:
  assumes r: "replaceable tmp final s" and c: "after_crash s t"
  shows "replaceable tmp final t" and "versions_of final t = {fs_contents t final}"
proof -
  from c have d: "dir t \<in> set (dir_versions s)" and t: "dir_versions t = [dir t]" "next_inode t = next_inode s"
    and sync: "synced t i" for i
    by (simp_all add: after_crash_def dir_versions_def synced_def)
  from d have "map_of (dir t) final \<in> refs final s" by (simp add: refs_def)
  with r d show "replaceable tmp final t"
    by (auto simp: replaceable_def t sync refs_def fs_lookup_def)
  show "versions_of final t = {fs_contents t final}"
    by (simp add: versions_of_def refs_def t fs_contents_def fs_lookup_def)
qed

end
