(* ===== verification/Wal_Decoder.thy ===== *)
theory Wal_Decoder
  imports Lsn Wire
begin

text \<open>
  The WAL stream decoder: \<open>WalStreamDecoder\<close> of \<open>libs/postgres_ffi/src/lib.rs\<close> and its
  handler \<open>waldecoder_handler.rs\<close>. It is fed with bytes in chunks of any size, checks page
  headers, and reassembles the records that cross pages. The generated bindings (struct
  sizes and layouts, page magic) and the \<open>crc32c\<close> crate are the parameter \<open>wal_bindings\<close>,
  which may depend on the Postgres version.
\<close>

unbundle bit_operations_syntax

definition WAL_SEGMENT_SIZE :: u64 where
  "WAL_SEGMENT_SIZE = 16 * 1024 * 1024"

definition XLP_FIRST_IS_CONTRECORD :: u16 where
  "XLP_FIRST_IS_CONTRECORD = 1"

definition XLOG_RECORD_CRC_OFFS :: nat where
  "XLOG_RECORD_CRC_OFFS = 4 + 4 + 8 + 1 + 1 + 2"

record page_header =
  xlp_magic :: u16
  xlp_info :: u16
  xlp_pageaddr :: u64
  xlp_rem_len :: u32

record xlog_record =
  xl_info :: u8
  xl_rmid :: u8
  xl_crc :: u32

record wal_bindings =
  b_wire :: wire
  b_crc32c_append :: "u32 \<Rightarrow> byte list \<Rightarrow> u32"
  b_page_magic :: "u32 \<Rightarrow> u16"
  b_short_phd :: nat
  b_long_phd :: nat
  b_xlog_record :: nat
  b_short_header :: "u32 \<Rightarrow> byte list \<Rightarrow> page_header option"
  b_long_header :: "u32 \<Rightarrow> byte list \<Rightarrow> page_header option"
  b_record :: "u32 \<Rightarrow> byte list \<Rightarrow> xlog_record option"

text \<open>The versions that \<open>dispatch_pgversion!\<close> has bindings for.\<close>

definition supported_pg_version :: "u32 \<Rightarrow> bool" where
  "supported_pg_version v = (v = 14 \<or> v = 15 \<or> v = 16)"

definition is_xlog_switch_record :: "xlog_record \<Rightarrow> bool" where
  "is_xlog_switch_record r = (xl_info r = 0x40 \<and> xl_rmid r = 0)"

text \<open>The remaining length is a \<open>NonZeroU32\<close>.\<close>

datatype dec_state = WaitingForRecord
  | ReassemblingRecord "byte list" u32
  | SkippingEverything lsn

record decoder =
  d_lsn :: lsn
  d_pg_version :: u32
  d_inputbuf :: "byte list"
  d_state :: dec_state

datatype decode_error = WalDecodeError lsn

type_synonym 'a dec_method = "(decoder, decode_error, 'a) rust"

fun is_skipping :: "dec_state \<Rightarrow> bool" where
  "is_skipping (SkippingEverything _) = True"
| "is_skipping _ = False"

section \<open>The decoder\<close>

definition decoder_new :: "lsn \<Rightarrow> u32 \<Rightarrow> decoder" where
  "decoder_new l v = \<lparr>d_lsn = l, d_pg_version = v, d_inputbuf = [], d_state = WaitingForRecord\<rparr>"

definition available :: "decoder \<Rightarrow> lsn option" where
  "available d = lsn_add (d_lsn d) (of_nat (length (d_inputbuf d)))"

definition feed_bytes :: "byte list \<Rightarrow> decoder \<Rightarrow> decoder" where
  "feed_bytes buf d = d\<lparr>d_inputbuf := d_inputbuf d @ buf\<rparr>"

definition fail :: "'a dec_method" where
  "fail = (\<lambda>d. (Err (WalDecodeError (d_lsn d)), d))"

definition advance_lsn :: "u64 \<Rightarrow> unit dec_method" where
  "advance_lsn n = andthen (unwrap (\<lambda>d. lsn_add (d_lsn d) n)) (\<lambda>l. update (\<lambda>d. d\<lparr>d_lsn := l\<rparr>))"

definition take_input :: "nat \<Rightarrow> byte list dec_method" where
  "take_input n = (\<lambda>d. (Ok (take n (d_inputbuf d)), d\<lparr>d_inputbuf := drop n (d_inputbuf d)\<rparr>))"

definition page_header_ok :: "wal_bindings \<Rightarrow> decoder \<Rightarrow> page_header \<Rightarrow> bool" where
  "page_header_ok B d hdr =
     (xlp_magic hdr = b_page_magic B (d_pg_version d) \<and> xlp_pageaddr hdr = d_lsn d \<and>
      (case d_state d of
         WaitingForRecord \<Rightarrow> xlp_info hdr AND XLP_FIRST_IS_CONTRECORD = 0 \<and> xlp_rem_len hdr = 0
       | ReassemblingRecord _ contlen \<Rightarrow>
           xlp_info hdr AND XLP_FIRST_IS_CONTRECORD \<noteq> 0 \<and> xlp_rem_len hdr = contlen
       | SkippingEverything _ \<Rightarrow> False))"

text \<open>The \<open>SkippingEverything\<close> arm of \<open>validate_page_header\<close> is an explicit panic.\<close>

definition validate_page_header :: "wal_bindings \<Rightarrow> page_header \<Rightarrow> unit dec_method" where
  "validate_page_header B hdr = (\<lambda>d.
     if xlp_magic hdr = b_page_magic B (d_pg_version d) \<and> xlp_pageaddr hdr = d_lsn d
        \<and> is_skipping (d_state d) then (Panic, d)
     else if page_header_ok B d hdr then (Ok (), d) else fail d)"

text \<open>Reads one page header of \<open>n\<close> bytes; \<open>False\<close> when they have not arrived yet.\<close>

definition read_header :: "wal_bindings \<Rightarrow> nat \<Rightarrow> (u32 \<Rightarrow> byte list \<Rightarrow> page_header option) \<Rightarrow> bool dec_method" where
  "read_header B n des =
     branch (\<lambda>d. length (d_inputbuf d) < n)
       (ret False)
       (andthen (take_input n) (\<lambda>bs.
        andthen (read (\<lambda>d. des (d_pg_version d) bs)) (\<lambda>h. case h of
          None \<Rightarrow> fail
        | Some hdr \<Rightarrow> andthen (validate_page_header B hdr) (\<lambda>_.
                     andthen (advance_lsn (of_nat n)) (\<lambda>_. ret True)))))"

definition page_boundary :: "wal_bindings \<Rightarrow> bool dec_method" where
  "page_boundary B =
     branch (\<lambda>d. is_skipping (d_state d))
       (ret True)
       (branch (\<lambda>d. d_lsn d mod WAL_SEGMENT_SIZE = 0)
          (read_header B (b_long_phd B) (b_long_header B))
          (branch (\<lambda>d. block_offset (d_lsn d) = 0)
             (read_header B (b_short_phd B) (b_short_header B))
             (ret True)))"

definition complete_record :: "wal_bindings \<Rightarrow> byte list \<Rightarrow> (lsn \<times> byte list) dec_method" where
  "complete_record B recordbuf =
     (if length recordbuf < b_xlog_record B then panic
      else andthen (read (\<lambda>d. b_record B (d_pg_version d) (take (b_xlog_record B) recordbuf))) (\<lambda>r. case r of
        None \<Rightarrow> fail
      | Some xlogrec \<Rightarrow>
          if length recordbuf < XLOG_RECORD_CRC_OFFS + 4 then panic
          else if b_crc32c_append B (b_crc32c_append B 0 (drop (XLOG_RECORD_CRC_OFFS + 4) recordbuf))
               (take XLOG_RECORD_CRC_OFFS recordbuf) \<noteq> xl_crc xlogrec then fail
          else andthen (unwrap (\<lambda>d. if is_xlog_switch_record xlogrec
                 then Option.bind (calc_padding (d_lsn d) WAL_SEGMENT_SIZE) (lsn_add (d_lsn d))
                 else Some (align (d_lsn d)))) (\<lambda>next_lsn.
               andthen (update (\<lambda>d. d\<lparr>d_state := SkippingEverything next_lsn\<rparr>)) (\<lambda>_.
               ret (next_lsn, recordbuf)))))"

text \<open>
  What one round of the loop does with the page contents: \<open>None\<close> is another round,
  \<open>Some None\<close> asks for more input, \<open>Some (Some r)\<close> returns a record.
\<close>

definition waiting_step :: "wal_bindings \<Rightarrow> (lsn \<times> byte list) option option dec_method" where
  "waiting_step B =
     branch (\<lambda>d. length (d_inputbuf d) < 4)
       (ret (Some None))
       (andthen (read (\<lambda>d. dec_u32_le (b_wire B) (take 4 (d_inputbuf d)))) (\<lambda>xl_tot_len.
        if unat xl_tot_len < b_xlog_record B then fail
        else branch (\<lambda>d. length (d_inputbuf d) \<ge> unat xl_tot_len
                 \<and> xl_tot_len \<le> ucast (remaining_in_block (d_lsn d)))
          (andthen (advance_lsn (ucast xl_tot_len)) (\<lambda>_.
           andthen (take_input (unat xl_tot_len)) (\<lambda>recordbuf.
           andthen (complete_record B recordbuf) (\<lambda>r. ret (Some (Some r))))))
          (if xl_tot_len = 0 then panic
           else andthen (update (\<lambda>d. d\<lparr>d_state := ReassemblingRecord [] xl_tot_len\<rparr>)) (\<lambda>_. ret None))))"

definition reassembling_step :: "wal_bindings \<Rightarrow> byte list \<Rightarrow> u32 \<Rightarrow> (lsn \<times> byte list) option option dec_method" where
  "reassembling_step B recordbuf contlen =
     andthen (assert_that (\<lambda>_. contlen \<noteq> 0)) (\<lambda>_.
     andthen (read (\<lambda>d. min contlen (ucast (remaining_in_block (d_lsn d))))) (\<lambda>n.
     branch (\<lambda>d. length (d_inputbuf d) < unat n)
       (ret (Some None))
       (andthen (take_input (unat n)) (\<lambda>bs.
        andthen (update (\<lambda>d. d\<lparr>d_state := ReassemblingRecord (recordbuf @ bs) contlen\<rparr>)) (\<lambda>_.
        andthen (advance_lsn (ucast n)) (\<lambda>_.
        if contlen - n \<noteq> 0 then
          andthen (update (\<lambda>d. d\<lparr>d_state := ReassemblingRecord (recordbuf @ bs) (contlen - n)\<rparr>)) (\<lambda>_.
          ret None)
        else
          andthen (update (\<lambda>d. d\<lparr>d_state := ReassemblingRecord [] contlen\<rparr>)) (\<lambda>_.
          andthen (complete_record B (recordbuf @ bs)) (\<lambda>r. ret (Some (Some r))))))))))"

definition skipping_step :: "lsn \<Rightarrow> (lsn \<times> byte list) option option dec_method" where
  "skipping_step skip_until_lsn =
     andthen (assert_that (\<lambda>d. skip_until_lsn \<ge> d_lsn d)) (\<lambda>_.
     andthen (read (\<lambda>d. skip_until_lsn - d_lsn d)) (\<lambda>n.
     branch (\<lambda>d. length (d_inputbuf d) < unat n)
       (ret (Some None))
       (andthen (take_input (unat n)) (\<lambda>_.
        andthen (advance_lsn n) (\<lambda>_.
        andthen (update (\<lambda>d. d\<lparr>d_state := WaitingForRecord\<rparr>)) (\<lambda>_. ret None))))))"

definition page_contents :: "wal_bindings \<Rightarrow> (lsn \<times> byte list) option option dec_method" where
  "page_contents B = (\<lambda>d. case d_state d of
       WaitingForRecord \<Rightarrow> waiting_step B d
     | ReassemblingRecord recordbuf contlen \<Rightarrow> reassembling_step B recordbuf contlen d
     | SkippingEverything skip_until_lsn \<Rightarrow> skipping_step skip_until_lsn d)"

definition dec_round :: "wal_bindings \<Rightarrow> (lsn \<times> byte list) option option dec_method" where
  "dec_round B = andthen (page_boundary B) (\<lambda>b. if b then page_contents B else ret (Some None))"

fun state_rank :: "dec_state \<Rightarrow> nat" where
  "state_rank (SkippingEverything _) = 2"
| "state_rank WaitingForRecord = 1"
| "state_rank (ReassemblingRecord _ _) = 0"

definition dec_measure :: "decoder \<Rightarrow> nat" where
  "dec_measure d = 3 * length (d_inputbuf d) + state_rank (d_state d)"

section \<open>Termination\<close>

lemma wp_take_input [wp]:
  "wp (take_input n) Q E F = (\<lambda>d. Q (take n (d_inputbuf d)) (d\<lparr>d_inputbuf := drop n (d_inputbuf d)\<rparr>))"
  by (simp add: wp_def take_input_def fun_eq_iff)

lemma wp_fail [wp]: "wp fail Q E F = (\<lambda>d. E (WalDecodeError (d_lsn d)) d)"
  by (simp add: wp_def fail_def fun_eq_iff)

lemma wp_advance_lsn [wp]:
  "wp (advance_lsn n) Q E F = (\<lambda>d. case lsn_add (d_lsn d) n of None \<Rightarrow> F d | Some l \<Rightarrow> Q () (d\<lparr>d_lsn := l\<rparr>))"
  by (simp add: advance_lsn_def wp fun_eq_iff split: option.splits)

lemma wp_pair [wp]:
  "wp (\<lambda>s. (Ok x, g s)) Q E F = (\<lambda>s. Q x (g s))" "wp (\<lambda>s. (Panic, g s)) Q E F = (\<lambda>s. F (g s))"
  by (simp_all add: wp_def fun_eq_iff)

lemma wp_validate_page_header:
  "wp (validate_page_header B hdr) Q E F d =
     (if xlp_magic hdr = b_page_magic B (d_pg_version d) \<and> xlp_pageaddr hdr = d_lsn d
        \<and> is_skipping (d_state d) then F d
      else if page_header_ok B d hdr then Q () d else E (WalDecodeError (d_lsn d)) d)"
  by (simp add: wp_def validate_page_header_def fail_def)

lemma page_boundary_input:
  "wp (page_boundary B)
     (\<lambda>b d'. d_state d' = d_state d \<and> length (d_inputbuf d') \<le> length (d_inputbuf d) \<and>
        d_lsn d \<le> d_lsn d')
     (\<lambda>_ _. True) (\<lambda>_. True) d"
  by (auto simp: page_boundary_def read_header_def wp wp_validate_page_header lsn_add_def
      checked_add_le split: option.splits dec_state.splits)

lemma pageleft_pos: "0 < (ucast (remaining_in_block l) :: u32)"
proof -
  have "unat (l mod 8192) < 8192" by (simp add: unat_mod)
  then have u: "unat (remaining_in_block l) = 8192 - unat (l mod 8192)"
    by (simp add: remaining_in_block_def XLOG_BLCKSZ_def unat_sub word_le_nat_alt unat_mod)
  have "unat (ucast (remaining_in_block l) :: u32) = unat (remaining_in_block l) mod 2 ^ 32"
    by (simp add: unsigned_ucast_eq unsigned_take_bit_eq take_bit_eq_mod)
  also have "\<dots> > 0" using u \<open>unat (l mod 8192) < 8192\<close> by simp
  finally show ?thesis by (simp add: word_less_nat_alt)
qed

lemma wp_page_contents:
  "wp (page_contents B) Q E F d = (case d_state d of
       WaitingForRecord \<Rightarrow> wp (waiting_step B) Q E F d
     | ReassemblingRecord recordbuf contlen \<Rightarrow> wp (reassembling_step B recordbuf contlen) Q E F d
     | SkippingEverything l \<Rightarrow> wp (skipping_step l) Q E F d)"
  by (simp add: wp_def page_contents_def split: dec_state.splits)

abbreviation shrinks :: "(lsn \<times> byte list) option option dec_method \<Rightarrow> decoder \<Rightarrow> bool" where
  "shrinks m d \<equiv> wp m (\<lambda>r d'. r = None \<longrightarrow> dec_measure d' < dec_measure d) (\<lambda>_ _. True) (\<lambda>_. True) d"

lemma waiting_shrinks: "d_state d = WaitingForRecord \<Longrightarrow> shrinks (waiting_step B) d"
  unfolding waiting_step_def wp
  by (auto simp: wp wp_True dec_measure_def split: option.splits)

lemma chunk_pos: "n \<noteq> 0 \<Longrightarrow> 0 < unat (min n (ucast (remaining_in_block l)))" for n :: u32
  using pageleft_pos [of l] by (auto simp: min_def unat_gt_0 word_gt_0)

lemma reassembling_shrinks: "d_state d = ReassemblingRecord r n \<Longrightarrow> shrinks (reassembling_step B r n) d"
  using chunk_pos [of n "d_lsn d"] unfolding reassembling_step_def wp
  by (auto simp: wp wp_True dec_measure_def split: option.splits)

lemma skipping_shrinks: "d_state d = SkippingEverything l \<Longrightarrow> shrinks (skipping_step l) d"
  unfolding skipping_step_def wp by (auto simp: dec_measure_def split: option.splits)

lemma page_contents_decreases: "shrinks (page_contents B) d"
  by (cases "d_state d")
    (simp_all add: wp_page_contents waiting_shrinks reassembling_shrinks skipping_shrinks)

lemma dec_round_decreases:
  "wp (dec_round B) (\<lambda>r d'. r = None \<longrightarrow> dec_measure d' < dec_measure d) (\<lambda>_ _. True) (\<lambda>_. True) d"
  unfolding dec_round_def wp
proof (rule wp_mono [OF page_boundary_input])
  fix b and d' :: decoder
  assume "d_state d' = d_state d \<and> length (d_inputbuf d') \<le> length (d_inputbuf d) \<and> d_lsn d \<le> d_lsn d'"
  then have "dec_measure d' \<le> dec_measure d" by (simp add: dec_measure_def)
  then show "wp (if b then page_contents B else ret (Some None))
      (\<lambda>r d'. r = None \<longrightarrow> dec_measure d' < dec_measure d) (\<lambda>_ _. True) (\<lambda>_. True) d'"
    by (auto simp: wp intro: wp_mono [OF page_contents_decreases])
qed auto

lemma dec_round_continue: "dec_round B d = (Ok None, d') \<Longrightarrow> dec_measure d' < dec_measure d"
  using wp_Ok [OF dec_round_decreases] by auto

function poll_decode_internal :: "wal_bindings \<Rightarrow> (lsn \<times> byte list) option dec_method" where
  "poll_decode_internal B d = (case dec_round B d of
       (Ok None, d') \<Rightarrow> poll_decode_internal B d'
     | (Ok (Some r), d') \<Rightarrow> (Ok r, d')
     | (Err e, d') \<Rightarrow> (Err e, d')
     | (Panic, d') \<Rightarrow> (Panic, d'))"
  by auto
termination
  by (relation "measure (\<lambda>(B, d). dec_measure d)")
    (auto intro: dec_round_continue [OF sym])

declare poll_decode_internal.simps [simp del]

definition poll_decode :: "wal_bindings \<Rightarrow> (lsn \<times> byte list) option dec_method" where
  "poll_decode B = (\<lambda>d. if supported_pg_version (d_pg_version d) then poll_decode_internal B d else fail d)"

section \<open>Positions\<close>

text \<open>
  \<open>dec_pos\<close> is the position up to which the decoder was fed; \<open>frontier\<close> is a position
  that the end of the next record cannot be before.
\<close>

definition dec_pos :: "decoder \<Rightarrow> nat" where
  "dec_pos d = unat (d_lsn d) + length (d_inputbuf d)"

definition header_size :: "wal_bindings \<Rightarrow> lsn \<Rightarrow> nat" where
  "header_size B l = (if l mod WAL_SEGMENT_SIZE = 0 then b_long_phd B
     else if block_offset l = 0 then b_short_phd B else 0)"

fun unread :: "wal_bindings \<Rightarrow> lsn \<Rightarrow> dec_state \<Rightarrow> nat" where
  "unread B l WaitingForRecord = header_size B l + 4"
| "unread B l (ReassemblingRecord _ contlen) = header_size B l + unat contlen"
| "unread B l (SkippingEverything u) = unat u - unat l"

definition frontier :: "wal_bindings \<Rightarrow> decoder \<Rightarrow> nat" where
  "frontier B d = unat (d_lsn d) + unread B (d_lsn d) (d_state d)"

definition body_frontier :: "decoder \<Rightarrow> nat" where
  "body_frontier d = unat (d_lsn d) + (case d_state d of WaitingForRecord \<Rightarrow> 4
     | ReassemblingRecord _ contlen \<Rightarrow> unat contlen | SkippingEverything u \<Rightarrow> unat u - unat (d_lsn d))"

lemma frontier_body: "frontier B d = body_frontier d + (if is_skipping (d_state d) then 0 else header_size B (d_lsn d))"
  by (cases "d_state d") (simp_all add: frontier_def body_frontier_def)

lemma lsn_add_Some: "lsn_add a b = Some c \<longleftrightarrow> unat a + unat b < 2 ^ 64 \<and> c = a + b"
  by (simp add: lsn_add_def checked_add_Some)

lemma lsn_add_unat: "lsn_add a b = Some c \<Longrightarrow> unat c = unat a + unat b"
  by (simp add: lsn_add_def checked_add_unat)

text \<open>After the page header, what is unread is the body.\<close>

lemma page_boundary_frontier:
  assumes "b_long_phd B < 2 ^ 64" "b_short_phd B < 2 ^ 64"
  shows "wp (page_boundary B)
     (\<lambda>b d'. d_state d' = d_state d \<and> dec_pos d' = dec_pos d \<and>
        (b \<longrightarrow> frontier B d = body_frontier d') \<and>
        (\<not> b \<longrightarrow> d' = d \<and> dec_pos d \<le> frontier B d))
     (\<lambda>_ _. True) (\<lambda>_. True) d"
  using assms
  by (auto simp: page_boundary_def read_header_def wp wp_validate_page_header frontier_body
      header_size_def body_frontier_def dec_pos_def unat_of_nat
      dest!: lsn_add_unat split: option.splits dec_state.splits)

text \<open>The end of the segment that the byte before a position is in.\<close>

definition seg_ceil :: "nat \<Rightarrow> nat" where
  "seg_ceil x = (x + 16777215) div 16777216 * 16777216"

lemma seg_ceil_mono: "x \<le> y \<Longrightarrow> seg_ceil x \<le> seg_ceil y"
  by (simp add: seg_ceil_def div_le_mono)

lemma seg_ceil_ge: "x \<le> seg_ceil x"
proof -
  have "x + 16777215 = 16777216 * ((x + 16777215) div 16777216) + (x + 16777215) mod 16777216" by simp
  moreover have "(x + 16777215) mod 16777216 \<le> 16777215" by (simp add: less_Suc_eq_le [symmetric])
  ultimately show ?thesis unfolding seg_ceil_def by linarith
qed

lemma seg_ceil_int: "int (seg_ceil x) = int x + (- int x) mod 16777216"
proof -
  let ?y = "int x" and ?S = "16777216 :: int"
  have "(?y + 16777215) div ?S * ?S = ?y + (- ?y) mod ?S"
  proof (cases "?y mod ?S = 0")
    case True
    then obtain k where "?y = ?S * k" by (auto elim: dvdE)
    then show ?thesis by simp
  next
    case False
    define q r where "q = ?y div ?S" and "r = ?y mod ?S"
    have y: "?y = r + q * ?S" by (simp add: q_def r_def)
    have r: "0 < r" "r < ?S" using False pos_mod_bound [of ?S ?y] pos_mod_sign [of ?S ?y] by (auto simp: r_def order_less_le)
    have "(?y + 16777215) div ?S = (r + 16777215) div ?S + q"
      by (simp add: y add.commute add.left_commute)
    also have "(r + 16777215) div ?S = 1" using r by (simp add: div_pos_geq)
    finally have "(?y + 16777215) div ?S * ?S = ?S + q * ?S" by (simp add: algebra_simps)
    moreover have "(- ?y) mod ?S = ?S - r"
      using False by (simp add: zmod_zminus1_eq_if r_def)
    ultimately show ?thesis by (simp add: y)
  qed
  then show ?thesis by (simp add: seg_ceil_def zdiv_int)
qed

lemma seg_ceil_multiple: "seg_ceil (16777216 * k) = 16777216 * k"
  by (simp add: seg_ceil_def)

lemma align_wrap: "\<not> unat l + 7 < 18446744073709551616 \<Longrightarrow> unat (l + 7) \<le> 6" for l :: u64
proof -
  assume a: "\<not> unat l + 7 < 18446744073709551616"
  have "unat (l + 7) = (unat l + 7) mod 18446744073709551616" by (simp add: unat_word_ariths)
  also have "\<dots> = unat l + 7 - 18446744073709551616"
    using a unat_lt [of l] by (intro mod_nat_eqI) auto
  finally show ?thesis using unat_lt [of l] by linarith
qed
lemma align_bounds:
  assumes "l \<le> align l"
  shows "unat (align l) \<le> seg_ceil (unat l)"
proof -
  have "unat l \<le> 8 * (unat (l + 7) div 8)"
    using assms by (simp add: word_le_nat_alt unat_align)
  then have "unat l + 7 < 2 ^ 64"
    using align_wrap [of l] by (cases "unat l + 7 < 18446744073709551616") auto
  then have "unat (align l) = 8 * ((unat l + 7) div 8)" by (rule unat_align_no_wrap)
  moreover have "8 dvd seg_ceil (unat l)" by (simp add: seg_ceil_def)
  ultimately show ?thesis using seg_ceil_ge [of "unat l"] by (auto elim!: dvdE)
qed

lemma calc_padding_bounds:
  assumes "calc_padding l WAL_SEGMENT_SIZE = Some n" and "lsn_add l n = Some m"
  shows "unat m = seg_ceil (unat l)"
proof -
  have "uint n = uint (WAL_SEGMENT_SIZE - l) mod 16777216"
    using assms(1) by (auto simp: calc_padding_def WAL_SEGMENT_SIZE_def uint_mod)
  also have "\<dots> = (16777216 - uint l) mod 18446744073709551616 mod 16777216"
    by (simp add: WAL_SEGMENT_SIZE_def uint_word_ariths)
  also have "\<dots> = (- uint l) mod 16777216"
    by (subst mod_mod_cancel) (simp_all add: mod_diff_left_eq [symmetric])
  finally have "int (unat n) = (- int (unat l)) mod 16777216" by simp
  moreover note seg_ceil_int [of "unat l"]
  ultimately have "int (unat l + unat n) = int (seg_ceil (unat l))" by simp
  then show ?thesis using lsn_add_unat [OF assms(2)] by linarith
qed

lemma complete_record_post:
  "wp (complete_record B r)
     (\<lambda>x d'. d' = d\<lparr>d_state := SkippingEverything (fst x)\<rparr> \<and>
        (d_lsn d \<le> fst x \<longrightarrow> unat (fst x) \<le> seg_ceil (unat (d_lsn d))))
     (\<lambda>_ _. True) (\<lambda>_. True) d"
  by (auto simp: complete_record_def wp align_bounds calc_padding_bounds bind_eq_Some_conv
      split: option.splits)

lemma unat_u32_u64: "unat (ucast w :: u64) = unat w" for w :: u32
  by (simp add: unsigned_ucast_eq unsigned_take_bit_eq take_bit_nat_eq_self_iff
      order_less_trans [OF unsigned_less [of w]])

abbreviation contents_post :: "wal_bindings \<Rightarrow> decoder \<Rightarrow> (lsn \<times> byte list) option option \<Rightarrow> decoder \<Rightarrow> bool" where
  "contents_post B d r d' \<equiv> dec_pos d' = dec_pos d \<and> (case r of
        None \<Rightarrow> body_frontier d \<le> frontier B d'
      | Some None \<Rightarrow> d' = d \<and> dec_pos d \<le> body_frontier d
      | Some (Some (l, _)) \<Rightarrow> d_state d' = SkippingEverything l \<and> body_frontier d \<le> unat (d_lsn d') \<and>
          (d_lsn d' \<le> l \<longrightarrow> unat l \<le> seg_ceil (unat (d_lsn d'))))"

lemma complete_record_contents:
  assumes "dec_pos e = dec_pos d" and "body_frontier d \<le> unat (d_lsn e)"
  shows "wp (complete_record B r) (\<lambda>x. contents_post B d (Some (Some x))) (\<lambda>_ _. True) (\<lambda>_. True) e"
  by (rule wp_mono [OF complete_record_post]) (use assms in \<open>auto simp: dec_pos_def\<close>)

lemma waiting_post:
  assumes "4 \<le> b_xlog_record B" and w: "d_state d = WaitingForRecord"
  shows "wp (waiting_step B) (contents_post B d) (\<lambda>_ _. True) (\<lambda>_. True) d"
proof -
  let ?n = "dec_u32_le (b_wire B) (take 4 (d_inputbuf d))"
  have "wp (complete_record B r) (\<lambda>x. contents_post B d (Some (Some x))) (\<lambda>_ _. True) (\<lambda>_. True)
      (d\<lparr>d_lsn := l, d_inputbuf := drop (unat ?n) (d_inputbuf d)\<rparr>)"
    if "lsn_add (d_lsn d) (ucast ?n) = Some l" "unat ?n \<le> length (d_inputbuf d)" "b_xlog_record B \<le> unat ?n" for l r
    using that assms lsn_add_unat [OF that(1)]
    by (intro complete_record_contents) (simp_all add: dec_pos_def body_frontier_def unat_u32_u64)
  moreover have "body_frontier d \<le> frontier B (d\<lparr>d_state := ReassemblingRecord [] ?n\<rparr>)"
    if "b_xlog_record B \<le> unat ?n"
    using that assms by (simp add: body_frontier_def frontier_def)
  ultimately show ?thesis
    using w unfolding waiting_step_def wp
    by (auto simp: wp dec_pos_def body_frontier_def split: option.splits)
qed

lemma reassembling_post:
  assumes w: "d_state d = ReassemblingRecord buf n"
  shows "wp (reassembling_step B buf n) (contents_post B d) (\<lambda>_ _. True) (\<lambda>_. True) d"
proof -
  let ?m = "min n (ucast (remaining_in_block (d_lsn d)))"
  let ?d = "\<lambda>l s. d\<lparr>d_inputbuf := drop (unat ?m) (d_inputbuf d), d_lsn := l, d_state := s\<rparr>"
  have le: "unat ?m \<le> unat n" by (simp add: word_le_nat_alt [symmetric])
  have sub: "unat (n - ?m) = unat n - unat ?m" by (simp add: unat_sub)
  have "wp (complete_record B r) (\<lambda>x. contents_post B d (Some (Some x))) (\<lambda>_ _. True) (\<lambda>_. True) (?d l s)"
    if "lsn_add (d_lsn d) (ucast ?m) = Some l" "unat ?m \<le> length (d_inputbuf d)" "n - ?m = 0" for l r s
    using that w lsn_add_unat [OF that(1)]
    by (intro complete_record_contents) (simp_all add: dec_pos_def body_frontier_def unat_u32_u64)
  moreover have "body_frontier d \<le> frontier B (?d l (ReassemblingRecord r (n - ?m)))" "dec_pos (?d l s) = dec_pos d"
    if "lsn_add (d_lsn d) (ucast ?m) = Some l" "unat ?m \<le> length (d_inputbuf d)" for l r s
    using w that le lsn_add_unat [OF that(1)]
    by (simp_all add: body_frontier_def frontier_def sub unat_u32_u64 dec_pos_def)
  moreover have "dec_pos d \<le> body_frontier d" if "length (d_inputbuf d) < unat ?m"
    using that le w by (simp add: dec_pos_def body_frontier_def)
  ultimately show ?thesis
    using w unfolding reassembling_step_def wp
    by (auto simp: wp split: option.splits)
qed

lemma page_contents_post:
  "4 \<le> b_xlog_record B \<Longrightarrow> wp (page_contents B) (contents_post B d) (\<lambda>_ _. True) (\<lambda>_. True) d"
proof (cases "d_state d")
  case (SkippingEverything u)
  then show ?thesis
    by (auto simp: wp_page_contents skipping_step_def wp dec_pos_def body_frontier_def frontier_def
        unat_sub word_le_nat_alt dest!: lsn_add_unat split: option.splits)
qed (simp_all add: wp_page_contents waiting_post reassembling_post)

text \<open>What is relied on of the generated struct sizes.\<close>

definition bindings_ok :: "wal_bindings \<Rightarrow> bool" where
  "bindings_ok B = (4 \<le> b_xlog_record B \<and> 0 < b_long_phd B \<and> b_long_phd B < 8192 \<and>
     0 < b_short_phd B \<and> b_short_phd B < 8192)"

abbreviation poll_post :: "wal_bindings \<Rightarrow> decoder \<Rightarrow> (lsn \<times> byte list) option \<Rightarrow> decoder \<Rightarrow> bool" where
  "poll_post B d r d' \<equiv> dec_pos d' = dec_pos d \<and> (case r of
      None \<Rightarrow> frontier B d \<le> frontier B d' \<and> dec_pos d' \<le> frontier B d'
    | Some (l, _) \<Rightarrow> d_state d' = SkippingEverything l \<and> frontier B d \<le> unat (d_lsn d') \<and>
        (d_lsn d' \<le> l \<longrightarrow> unat l \<le> seg_ceil (unat (d_lsn d'))))"

lemma body_frontier_le: "body_frontier d \<le> frontier B d"
  by (simp add: frontier_body)

lemma dec_round_post:
  assumes "bindings_ok B"
  shows "wp (dec_round B)
    (\<lambda>r d'. case r of None \<Rightarrow> dec_pos d' = dec_pos d \<and> frontier B d \<le> frontier B d' | Some x \<Rightarrow> poll_post B d x d')
    (\<lambda>_ _. True) (\<lambda>_. True) d"
proof -
  have ok: "4 \<le> b_xlog_record B" "b_long_phd B < 2 ^ 64" "b_short_phd B < 2 ^ 64"
    using assms by (auto simp: bindings_ok_def)
  show ?thesis
    unfolding dec_round_def wp
  proof (rule wp_mono [OF page_boundary_frontier [OF ok(2,3), of d]])
    fix b and e :: decoder
    assume e: "d_state e = d_state d \<and> dec_pos e = dec_pos d \<and> (b \<longrightarrow> frontier B d = body_frontier e) \<and>
      (\<not> b \<longrightarrow> e = d \<and> dec_pos d \<le> frontier B d)"
    have "wp (page_contents B)
      (\<lambda>r d'. case r of None \<Rightarrow> dec_pos d' = dec_pos d \<and> frontier B d \<le> frontier B d' | Some x \<Rightarrow> poll_post B d x d')
      (\<lambda>_ _. True) (\<lambda>_. True) e" if b
      by (rule wp_mono [OF page_contents_post [OF ok(1)]])
        (use e that body_frontier_le [of e B] in \<open>auto split: option.splits\<close>)
    with e show "wp (if b then page_contents B else ret (Some None))
      (\<lambda>r d'. case r of None \<Rightarrow> dec_pos d' = dec_pos d \<and> frontier B d \<le> frontier B d' | Some x \<Rightarrow> poll_post B d x d')
      (\<lambda>_ _. True) (\<lambda>_. True) e"
      by (cases b) (auto simp: wp)
  qed auto
qed

lemma wp_poll_internal:
  "wp (poll_decode_internal B) Q E F d =
     wp (dec_round B) (\<lambda>r d'. case r of None \<Rightarrow> wp (poll_decode_internal B) Q E F d' | Some x \<Rightarrow> Q x d') E F d"
  unfolding wp_def by (subst poll_decode_internal.simps) (auto split: prod.splits outcome.splits option.splits)

text \<open>An invariant of the rounds is an invariant of the loop.\<close>

lemma poll_internal_induct:
  assumes round: "\<And>d. I d \<Longrightarrow> wp (dec_round B) (\<lambda>r d'. case r of None \<Rightarrow> I d' | Some x \<Rightarrow> Q x d') E F d"
  shows "I d \<Longrightarrow> wp (poll_decode_internal B) Q E F d"
proof (induction "dec_measure d" arbitrary: d rule: less_induct)
  case less
  have "wp (dec_round B) (\<lambda>r d'. (case r of None \<Rightarrow> I d' | Some x \<Rightarrow> Q x d') \<and> (r = None \<longrightarrow> dec_measure d' < dec_measure d))
      (\<lambda>e d'. E e d' \<and> True) (\<lambda>d'. F d' \<and> True) d"
    by (rule wp_conj [OF round [OF less.prems] dec_round_decreases])
  then show ?case
    unfolding wp_poll_internal [of B Q E F d]
    by (rule wp_mono) (use less.hyps in \<open>auto split: option.splits\<close>)
qed

lemma poll_internal_post:
  assumes "bindings_ok B"
  shows "wp (poll_decode_internal B) (poll_post B d) (\<lambda>_ _. True) (\<lambda>_. True) d"
proof (rule poll_internal_induct [where I = "\<lambda>e. dec_pos e = dec_pos d \<and> frontier B d \<le> frontier B e"])
  fix e
  assume e: "dec_pos e = dec_pos d \<and> frontier B d \<le> frontier B e"
  show "wp (dec_round B) (\<lambda>r d'. case r of None \<Rightarrow> dec_pos d' = dec_pos d \<and> frontier B d \<le> frontier B d'
      | Some x \<Rightarrow> poll_post B d x d') (\<lambda>_ _. True) (\<lambda>_. True) e"
    by (rule wp_mono [OF dec_round_post [OF assms]]) (use e in \<open>auto split: option.splits\<close>)
qed simp

lemma poll_decode_post:
  assumes "bindings_ok B"
  shows "wp (poll_decode B) (poll_post B d) (\<lambda>_ _. True) (\<lambda>_. True) d"
  using poll_internal_post [OF assms, of d] by (simp add: poll_decode_def wp_def fail_def)

text \<open>A record whose padding would wrap around leaves a state in which the next poll panics.\<close>

lemma poll_after_wrap:
  assumes "d_state d = SkippingEverything l" and "l < d_lsn d"
  shows "wp (poll_decode B) (\<lambda>_ _. False) (\<lambda>_ _. True) (\<lambda>_. True) d"
proof -
  have "wp (poll_decode_internal B) (\<lambda>_ _. False) (\<lambda>_ _. True) (\<lambda>_. True) d"
    by (subst wp_poll_internal) (use assms in \<open>auto simp: dec_round_def page_boundary_def wp wp_page_contents skipping_step_def\<close>)
  then show ?thesis by (simp add: poll_decode_def wp_def fail_def)
qed

end
