(* ===== verification/Wal_Chunks.thy ===== *)
theory Wal_Chunks
  imports Wal_Decoder
begin

text \<open>
  The records that the decoder finds do not depend on how the stream is cut into chunks.
\<close>

section \<open>Methods that are stable under more input\<close>

definition stable :: "byte list \<Rightarrow> 'a dec_method \<Rightarrow> decoder \<Rightarrow> bool" where
  "stable ys m d = (\<forall>x d'. m d = (Ok x, d') \<longrightarrow> m (feed_bytes ys d) = (Ok x, feed_bytes ys d'))"

lemma stableD: "stable ys m d \<Longrightarrow> m d = (Ok x, d') \<Longrightarrow> m (feed_bytes ys d) = (Ok x, feed_bytes ys d')"
  by (simp add: stable_def)

lemma stable_andthen:
  "stable ys m d \<Longrightarrow> (\<And>x d'. m d = (Ok x, d') \<Longrightarrow> stable ys (f x) d') \<Longrightarrow> stable ys (andthen m f) d"
  by (auto simp: stable_def andthen_def split: prod.splits outcome.splits)

lemma stable_ret: "stable ys (ret x) d"
  and stable_fail: "stable ys fail d"
  and stable_panic: "stable ys panic d"
  by (auto simp: stable_def ret_def fail_def panic_def)

lemma stable_read: "g (feed_bytes ys d) = g d \<Longrightarrow> stable ys (read g) d"
  by (auto simp: stable_def read_def)

lemma stable_unwrap: "g (feed_bytes ys d) = g d \<Longrightarrow> stable ys (unwrap g) d"
  by (auto simp: stable_def unwrap_def split: option.splits)

lemma stable_assert: "b (feed_bytes ys d) = b d \<Longrightarrow> stable ys (assert_that b) d"
  by (auto simp: stable_def assert_that_def)

lemma stable_update: "g (feed_bytes ys d) = feed_bytes ys (g d) \<Longrightarrow> stable ys (update g) d"
  by (auto simp: stable_def update_def)

lemma stable_branch:
  "b (feed_bytes ys d) = b d \<Longrightarrow> (b d \<Longrightarrow> stable ys m d) \<Longrightarrow> (\<not> b d \<Longrightarrow> stable ys n d) \<Longrightarrow>
     stable ys (branch b m n) d"
  by (auto simp: stable_def branch_def)

lemma stable_if: "(b \<Longrightarrow> stable ys m d) \<Longrightarrow> (\<not> b \<Longrightarrow> stable ys n d) \<Longrightarrow> stable ys (if b then m else n) d"
  by simp

lemma stable_take_input: "n \<le> length (d_inputbuf d) \<Longrightarrow> stable ys (take_input n) d"
  by (auto simp: stable_def take_input_def feed_bytes_def)

lemma feed_bytes_simps [simp]:
  "d_lsn (feed_bytes ys d) = d_lsn d" "d_state (feed_bytes ys d) = d_state d"
  "d_pg_version (feed_bytes ys d) = d_pg_version d" "d_inputbuf (feed_bytes ys d) = d_inputbuf d @ ys"
  "(feed_bytes ys d)\<lparr>d_lsn := l\<rparr> = feed_bytes ys (d\<lparr>d_lsn := l\<rparr>)"
  "(feed_bytes ys d)\<lparr>d_state := s\<rparr> = feed_bytes ys (d\<lparr>d_state := s\<rparr>)"
  by (simp_all add: feed_bytes_def)

lemma feed_feed: "feed_bytes ys (feed_bytes xs d) = feed_bytes (xs @ ys) d"
  by (simp add: feed_bytes_def)

lemma stable_advance: "stable ys (advance_lsn n) d"
  unfolding advance_lsn_def by (intro stable_andthen stable_unwrap stable_update) simp_all

lemma stable_validate: "stable ys (validate_page_header B h) d"
  by (auto simp: stable_def validate_page_header_def page_header_ok_def fail_def split: if_splits)

lemma stable_read_header:
  assumes "\<not> length (d_inputbuf d) < n"
  shows "stable ys (read_header B n des) d"
proof -
  have "stable ys (case h of None \<Rightarrow> fail | Some hdr \<Rightarrow> andthen (validate_page_header B hdr) (\<lambda>_.
      andthen (advance_lsn (of_nat n)) (\<lambda>_. ret True))) e" for h e
    by (cases h) (auto intro!: stable_fail stable_andthen stable_validate stable_advance stable_ret)
  with assms show ?thesis
    unfolding read_header_def
    by (intro stable_branch stable_andthen stable_take_input stable_read stable_ret) auto
qed

lemma stable_complete: "stable ys (complete_record B r) d"
proof -
  let ?rest = "\<lambda>xlogrec. if length r < XLOG_RECORD_CRC_OFFS + 4 then panic
          else if b_crc32c_append B (b_crc32c_append B 0 (drop (XLOG_RECORD_CRC_OFFS + 4) r))
               (take XLOG_RECORD_CRC_OFFS r) \<noteq> xl_crc xlogrec then fail
          else andthen (unwrap (\<lambda>d. if is_xlog_switch_record xlogrec
                 then Option.bind (calc_padding (d_lsn d) WAL_SEGMENT_SIZE) (lsn_add (d_lsn d))
                 else Some (align (d_lsn d)))) (\<lambda>next_lsn.
               andthen (update (\<lambda>d. d\<lparr>d_state := SkippingEverything next_lsn\<rparr>)) (\<lambda>_.
               ret (next_lsn, r)))"
  have "stable ys (?rest x) e" for x e
    by (intro stable_if stable_panic stable_fail stable_andthen stable_unwrap stable_update stable_ret) simp_all
  then have "stable ys (case x of None \<Rightarrow> fail | Some x \<Rightarrow> ?rest x) e" for x e
    by (cases x) (auto intro: stable_fail)
  then show ?thesis
    unfolding complete_record_def
    by (intro stable_if stable_panic stable_andthen stable_read) simp_all
qed

section \<open>One round\<close>

lemma page_boundary_cases:
  "page_boundary B d = (if is_skipping (d_state d) \<or>
       d_lsn d mod WAL_SEGMENT_SIZE \<noteq> 0 \<and> block_offset (d_lsn d) \<noteq> 0 then (Ok True, d)
     else if d_lsn d mod WAL_SEGMENT_SIZE = 0 then read_header B (b_long_phd B) (b_long_header B) d
     else read_header B (b_short_phd B) (b_short_header B) d)"
  by (simp add: page_boundary_def branch_def ret_def)

lemma read_header_False: "read_header B n des d = (Ok False, e) \<Longrightarrow> e = d"
  by (auto simp: read_header_def branch_def ret_def andthen_def fail_def split: if_splits prod.splits
      outcome.splits option.splits)

lemma read_header_True:
  assumes r: "read_header B n des d = (Ok True, e)" and "n < 2 ^ 64"
  shows "unat (d_lsn e) = unat (d_lsn d) + n" and "d_state e = d_state d" and "\<not> length (d_inputbuf d) < n"
proof -
  have "wp (read_header B n des)
      (\<lambda>b e. b \<longrightarrow> unat (d_lsn e) = unat (d_lsn d) + n \<and> d_state e = d_state d \<and> \<not> length (d_inputbuf d) < n)
      (\<lambda>_ _. True) (\<lambda>_. True) d"
    using assms(2) by (auto simp: read_header_def wp wp_validate_page_header unat_of_nat dest!: lsn_add_unat
        split: option.splits)
  from wp_Ok [OF this r]
  show "unat (d_lsn e) = unat (d_lsn d) + n" and "d_state e = d_state d" and "\<not> length (d_inputbuf d) < n"
    by auto
qed

lemma not_boundary_after_header:
  assumes "unat m = unat l + n" and "0 < n" and "n < 8192" and "l mod WAL_SEGMENT_SIZE = 0 \<or> block_offset l = 0"
  shows "m mod WAL_SEGMENT_SIZE \<noteq> 0" and "block_offset m \<noteq> 0"
proof -
  have l: "unat l mod 8192 = 0"
    using assms(4)
  proof
    assume "block_offset l = 0"
    then show ?thesis by (simp add: block_offset_def XLOG_BLCKSZ_def word_unat_eq_iff unat_mod)
  next
    assume "l mod WAL_SEGMENT_SIZE = 0"
    then have "unat l mod 16777216 = 0" by (simp add: WAL_SEGMENT_SIZE_def word_unat_eq_iff unat_mod)
    then have "16777216 dvd unat l" by (simp add: dvd_eq_mod_eq_0)
    then have "8192 dvd unat l" by (rule dvd_trans [rotated]) simp
    then show ?thesis by (simp add: dvd_eq_mod_eq_0)
  qed
  have m: "unat m mod 8192 = n"
    using l assms(1,3) by (metis add.left_neutral mod_add_left_eq mod_less)
  then show "block_offset m \<noteq> 0"
    using assms(2) by (simp add: block_offset_def XLOG_BLCKSZ_def word_unat_eq_iff unat_mod)
  show "m mod WAL_SEGMENT_SIZE \<noteq> 0"
  proof
    assume "m mod WAL_SEGMENT_SIZE = 0"
    then have "16777216 dvd unat m" by (simp add: WAL_SEGMENT_SIZE_def word_unat_eq_iff unat_mod dvd_eq_mod_eq_0)
    then have "8192 dvd unat m" by (rule dvd_trans [rotated]) simp
    with m assms(2) show False by (simp add: dvd_eq_mod_eq_0)
  qed
qed

lemma page_boundary_True:
  assumes "bindings_ok B" and b: "page_boundary B d = (Ok True, e)"
  shows "page_boundary B (feed_bytes ys d) = (Ok True, feed_bytes ys e)"
    and "page_boundary B (feed_bytes ys e) = (Ok True, feed_bytes ys e)"
    and "d_state e = d_state d" and "page_boundary B e = (Ok True, e)"
    and "page_boundary B (e\<lparr>d_state := s\<rparr>) = (Ok True, e\<lparr>d_state := s\<rparr>)
         \<or> is_skipping (d_state e)"
proof -
  have ok: "0 < b_long_phd B" "b_long_phd B < 8192" "0 < b_short_phd B" "b_short_phd B < 8192"
    using assms(1) by (auto simp: bindings_ok_def)
  consider (plain) "is_skipping (d_state d) \<or> d_lsn d mod WAL_SEGMENT_SIZE \<noteq> 0 \<and> block_offset (d_lsn d) \<noteq> 0"
    | (hdr) n des where "\<not> is_skipping (d_state d)" "0 < n" "n < 8192"
      "d_lsn d mod WAL_SEGMENT_SIZE = 0 \<or> block_offset (d_lsn d) = 0"
      "page_boundary B d = read_header B n des d"
      "page_boundary B (feed_bytes ys d) = read_header B n des (feed_bytes ys d)"
  proof (cases "is_skipping (d_state d) \<or> d_lsn d mod WAL_SEGMENT_SIZE \<noteq> 0 \<and> block_offset (d_lsn d) \<noteq> 0")
    case True
    then show ?thesis using that(1) by simp
  next
    case False
    then show ?thesis
      using ok that(2) [of "b_long_phd B" "b_long_header B"] that(2) [of "b_short_phd B" "b_short_header B"]
      by (cases "d_lsn d mod WAL_SEGMENT_SIZE = 0") (simp_all add: page_boundary_cases)
  qed
  then have "page_boundary B (feed_bytes ys d) = (Ok True, feed_bytes ys e) \<and>
      page_boundary B (feed_bytes ys e) = (Ok True, feed_bytes ys e) \<and> d_state e = d_state d \<and>
      page_boundary B e = (Ok True, e) \<and>
      (page_boundary B (e\<lparr>d_state := s\<rparr>) = (Ok True, e\<lparr>d_state := s\<rparr>) \<or> is_skipping (d_state e))"
  proof cases
    case hdr
    with b have r: "read_header B n des d = (Ok True, e)" by simp
    note t = read_header_True [OF r]
    have nb: "d_lsn e mod WAL_SEGMENT_SIZE \<noteq> 0" "block_offset (d_lsn e) \<noteq> 0"
      using not_boundary_after_header [OF t(1)] hdr by auto
    have "read_header B n des (feed_bytes ys d) = (Ok True, feed_bytes ys e)"
      using stable_read_header [OF t(3)] r hdr by (auto intro: stableD)
    with hdr nb t(2) show ?thesis by (auto simp: page_boundary_cases dvd_eq_mod_eq_0)
  next
    case plain
    with b show ?thesis by (auto simp: page_boundary_cases dvd_eq_mod_eq_0)
  qed
  then show "page_boundary B (feed_bytes ys d) = (Ok True, feed_bytes ys e)"
    and "page_boundary B (feed_bytes ys e) = (Ok True, feed_bytes ys e)"
    and "d_state e = d_state d" and "page_boundary B e = (Ok True, e)"
    and "page_boundary B (e\<lparr>d_state := s\<rparr>) = (Ok True, e\<lparr>d_state := s\<rparr>) \<or> is_skipping (d_state e)"
    by auto
qed

lemma page_boundary_False: "page_boundary B d = (Ok False, e) \<Longrightarrow> e = d"
  by (auto simp: page_boundary_cases dest: read_header_False split: if_splits)

text \<open>
  The only round that more input changes: a record that fits on the page but has not
  arrived in full is reassembled, where with all its bytes it is read in one go.
\<close>

definition fast_path :: "wal_bindings \<Rightarrow> byte list \<Rightarrow> decoder \<Rightarrow> u32 \<Rightarrow> bool" where
  "fast_path B ys d n = (d_state d = WaitingForRecord \<and> \<not> length (d_inputbuf d) < 4 \<and>
     n = dec_u32_le (b_wire B) (take 4 (d_inputbuf d)) \<and> b_xlog_record B \<le> unat n \<and> n \<noteq> 0 \<and>
     n \<le> ucast (remaining_in_block (d_lsn d)) \<and>
     length (d_inputbuf d) < unat n \<and> unat n \<le> length (d_inputbuf d @ ys))"

lemma waiting_more_input:
  assumes w: "d_state d = WaitingForRecord" and r: "waiting_step B d = (Ok r, d')"
  shows "r = Some None \<and> d' = d \<or> waiting_step B (feed_bytes ys d) = (Ok r, feed_bytes ys d') \<or>
    (\<exists>n. fast_path B ys d n \<and> r = None \<and> d' = d\<lparr>d_state := ReassemblingRecord [] n\<rparr>)"
proof (cases "length (d_inputbuf d) < 4")
  case True
  with r show ?thesis by (auto simp: waiting_step_def branch_def ret_def)
next
  case False
  let ?n = "dec_u32_le (b_wire B) (take 4 (d_inputbuf d))"
  have take4: "take 4 (d_inputbuf d @ ys) = take 4 (d_inputbuf d)" using False by simp
  let ?fast = "andthen (advance_lsn (ucast ?n)) (\<lambda>_. andthen (take_input (unat ?n)) (\<lambda>recordbuf.
       andthen (complete_record B recordbuf) (\<lambda>r. ret (Some (Some r)))))"
  have wd: "waiting_step B e = (if unat ?n < b_xlog_record B then fail e
      else if unat ?n \<le> length (d_inputbuf e) \<and> ?n \<le> ucast (remaining_in_block (d_lsn e)) then ?fast e
      else if ?n = 0 then (Panic, e) else (Ok None, e\<lparr>d_state := ReassemblingRecord [] ?n\<rparr>))"
    if "take 4 (d_inputbuf e) = take 4 (d_inputbuf d)" "\<not> length (d_inputbuf e) < 4" for e
    using that by (simp add: waiting_step_def branch_def andthen_def read_def ret_def update_def panic_def)
  have f: "stable ys ?fast d" if "unat ?n \<le> length (d_inputbuf d)"
    using that
    by (intro stable_andthen stable_advance stable_take_input stable_complete stable_ret)
      (auto simp: advance_lsn_def andthen_def unwrap_def update_def split: option.splits)
  show ?thesis
  proof (cases "unat ?n \<le> length (d_inputbuf d) \<and> ?n \<le> ucast (remaining_in_block (d_lsn d))")
    case True
    with r wd [of d] wd [of "feed_bytes ys d"] False take4 stableD [OF f] show ?thesis
      by (auto simp: fail_def split: if_splits)
  next
    case no: False
    with r wd [of d] False have d': "b_xlog_record B \<le> unat ?n" "?n \<noteq> 0" "r = None"
        "d' = d\<lparr>d_state := ReassemblingRecord [] ?n\<rparr>"
      by (auto simp: fail_def split: if_splits)
    with no wd [of "feed_bytes ys d"] False take4 w show ?thesis
      by (auto simp: fast_path_def not_le)
  qed
qed

lemma reassembling_more_input:
  assumes r: "reassembling_step B buf n d = (Ok r, d')"
  shows "r = Some None \<and> d' = d \<or> reassembling_step B buf n (feed_bytes ys d) = (Ok r, feed_bytes ys d')"
proof (cases "n = 0 \<or> length (d_inputbuf d) < unat (min n (ucast (remaining_in_block (d_lsn d))))")
  case True
  with r show ?thesis
    by (auto simp: reassembling_step_def andthen_def assert_that_def read_def branch_def ret_def)
next
  case False
  have "stable ys (reassembling_step B buf n) d"
    unfolding reassembling_step_def
    by (intro stable_andthen stable_assert stable_read stable_branch stable_ret stable_take_input stable_update
        stable_advance stable_complete stable_if)
      (use False in \<open>auto simp: assert_that_def read_def split: if_splits\<close>)
  from stableD [OF this r] show ?thesis by simp
qed

lemma skipping_more_input:
  assumes r: "skipping_step u d = (Ok r, d')"
  shows "r = Some None \<and> d' = d \<or> skipping_step u (feed_bytes ys d) = (Ok r, feed_bytes ys d')"
proof (cases "u < d_lsn d \<or> length (d_inputbuf d) < unat (u - d_lsn d)")
  case True
  with r show ?thesis
    by (auto simp: skipping_step_def andthen_def assert_that_def read_def branch_def ret_def)
next
  case False
  have "stable ys (skipping_step u) d"
    unfolding skipping_step_def
    by (intro stable_andthen stable_assert stable_read stable_branch stable_ret stable_take_input stable_update
        stable_advance) (use False in \<open>auto simp: assert_that_def read_def split: if_splits\<close>)
  from stableD [OF this r] show ?thesis by simp
qed

lemma contents_more_input:
  assumes r: "page_contents B d = (Ok r, d')"
  shows "r = Some None \<and> d' = d \<or> page_contents B (feed_bytes ys d) = (Ok r, feed_bytes ys d') \<or>
    (\<exists>n. fast_path B ys d n \<and> r = None \<and> d' = d\<lparr>d_state := ReassemblingRecord [] n\<rparr>)"
proof (cases "d_state d")
  case WaitingForRecord
  with r waiting_more_input [OF this, of B r d' ys] show ?thesis by (simp add: page_contents_def)
next
  case (ReassemblingRecord buf n)
  with r reassembling_more_input [of B buf n d r d' ys] show ?thesis by (auto simp: page_contents_def)
next
  case (SkippingEverything u)
  with r skipping_more_input [of u d r d' ys] show ?thesis by (auto simp: page_contents_def)
qed

text \<open>One round, with the page boundary that precedes the contents.\<close>

lemma round_more_input:
  assumes "bindings_ok B" and r: "dec_round B d = (Ok r, d')"
  shows "if r = Some None then dec_round B (feed_bytes ys d) = dec_round B (feed_bytes ys d')
    else dec_round B (feed_bytes ys d) = (Ok r, feed_bytes ys d') \<or>
    (\<exists>e n. page_boundary B d = (Ok True, e) \<and> fast_path B ys e n \<and> r = None \<and>
       d' = e\<lparr>d_state := ReassemblingRecord [] n\<rparr>)"
proof -
  from r obtain b e where b: "page_boundary B d = (Ok b, e)"
    by (auto simp: dec_round_def andthen_def split: prod.splits outcome.splits)
  show ?thesis
  proof (cases b)
    case True
    with b r have c: "page_contents B e = (Ok r, d')" by (simp add: dec_round_def andthen_def)
    from b True have "page_boundary B d = (Ok True, e)" by simp
    note t = page_boundary_True(1-4) [OF assms(1) this]
    from t have "dec_round B (feed_bytes ys d) = page_contents B (feed_bytes ys e)"
      "dec_round B (feed_bytes ys e) = page_contents B (feed_bytes ys e)"
      by (simp_all add: dec_round_def andthen_def)
    moreover have "d' = e" if "r = Some None"
      using wp_Ok [OF page_contents_post c] assms(1) that by (simp add: bindings_ok_def)
    ultimately show ?thesis using contents_more_input [OF c, of ys] b True by auto
  next
    case False
    with b r page_boundary_False [of B d e] show ?thesis by (auto simp: dec_round_def andthen_def ret_def)
  qed
qed

text \<open>The reassembled record waits for the rest of its bytes, and is then the same.\<close>

definition same_result :: "('e, 'a) outcome \<times> 's \<Rightarrow> ('e, 'a) outcome \<times> 's \<Rightarrow> bool" where
  "same_result p q = (p = q \<or> fst p = fst q \<and> (\<forall>x. fst p \<noteq> Ok x))"

lemma fast_pathD:
  assumes "fast_path B ys e n"
  shows "min n (ucast (remaining_in_block (d_lsn e))) = n" "n \<noteq> 0" "d_state e = WaitingForRecord"
    "length (d_inputbuf e) < unat n" "unat n \<le> length (d_inputbuf e @ ys)"
  using assms unfolding fast_path_def by (blast intro: min_absorb1)+

lemma fast_path_waits:
  assumes "bindings_ok B" and b: "page_boundary B d = (Ok True, e)" and f: "fast_path B ys e n"
  shows "poll_decode_internal B (e\<lparr>d_state := ReassemblingRecord [] n\<rparr>) =
    (Ok None, e\<lparr>d_state := ReassemblingRecord [] n\<rparr>)"
proof -
  note n = fast_pathD [OF f]
  have "\<not> is_skipping (d_state e)" using n by simp
  with page_boundary_True(5) [OF assms(1) b]
  have "page_boundary B (e\<lparr>d_state := ReassemblingRecord [] n\<rparr>) = (Ok True, e\<lparr>d_state := ReassemblingRecord [] n\<rparr>)"
    by blast
  moreover have "reassembling_step B [] n (e\<lparr>d_state := ReassemblingRecord [] n\<rparr>) =
      (Ok (Some None), e\<lparr>d_state := ReassemblingRecord [] n\<rparr>)"
    using n by (simp add: reassembling_step_def andthen_def assert_that_def read_def branch_def ret_def)
  ultimately show ?thesis
    by (subst poll_decode_internal.simps) (simp add: dec_round_def andthen_def page_contents_def)
qed

lemma complete_record_state:
  "same_result (complete_record B r d) (complete_record B r (d\<lparr>d_state := s\<rparr>))"
  by (auto simp: same_result_def complete_record_def panic_def andthen_def read_def fail_def unwrap_def update_def
      ret_def split: option.splits)

lemma andthen_read: "andthen (read g) f s = f (g s) s"
  by (simp add: andthen_def read_def)

lemma same_result_andthen:
  "same_result (m d) (m d') \<Longrightarrow> same_result (andthen m f d) (andthen m f d')"
  by (auto simp: same_result_def andthen_def split: prod.splits outcome.splits)

lemma fast_path_same:
  assumes "bindings_ok B" and b: "page_boundary B d = (Ok True, e)" and f: "fast_path B ys e n"
  shows "same_result (dec_round B (feed_bytes ys d)) (dec_round B (feed_bytes ys (e\<lparr>d_state := ReassemblingRecord [] n\<rparr>)))"
proof -
  let ?R = "ReassemblingRecord [] n"
  note n = fast_pathD [OF f]
  let ?e = "feed_bytes ys e" and ?g = "feed_bytes ys (e\<lparr>d_state := ?R\<rparr>)"
  let ?next = "\<lambda>l s. ?e\<lparr>d_lsn := l, d_inputbuf := drop (unat n) (d_inputbuf e @ ys), d_state := s\<rparr>"
  let ?k = "\<lambda>r. ret (Some (Some r)) :: (lsn \<times> byte list) option option dec_method"
  have "\<not> is_skipping (d_state e)" using n by simp
  with page_boundary_True(5) [OF assms(1) b]
  have b2: "page_boundary B (e\<lparr>d_state := ?R\<rparr>) = (Ok True, e\<lparr>d_state := ?R\<rparr>)" by blast
  have fast: "dec_round B (feed_bytes ys d) = waiting_step B ?e"
    using page_boundary_True(1) [OF assms(1) b] n by (simp add: dec_round_def andthen_def page_contents_def)
  have slow: "dec_round B ?g = reassembling_step B [] n ?g"
    using page_boundary_True(1) [OF assms(1) b2] by (simp add: dec_round_def andthen_def page_contents_def)
  have w: "waiting_step B ?e = (case lsn_add (d_lsn e) (ucast n) of None \<Rightarrow> (Panic, ?e)
      | Some l \<Rightarrow> andthen (complete_record B (take (unat n) (d_inputbuf e @ ys))) ?k (?next l WaitingForRecord))"
  proof -
    have "\<not> length (d_inputbuf ?e) < 4" "dec_u32_le (b_wire B) (take 4 (d_inputbuf ?e)) = n"
      "\<not> unat n < b_xlog_record B" "unat n \<le> length (d_inputbuf ?e) \<and> n \<le> ucast (remaining_in_block (d_lsn ?e))"
      using f unfolding fast_path_def by (auto simp: not_less)
    then have "waiting_step B ?e = andthen (advance_lsn (ucast n)) (\<lambda>_. andthen (take_input (unat n))
        (\<lambda>r. andthen (complete_record B r) ?k)) ?e"
      by (simp only: waiting_step_def branch_def andthen_read if_True if_False simp_thms)
    then show ?thesis
      using n(3) by (cases e) (simp add: andthen_def advance_lsn_def unwrap_def update_def take_input_def
          feed_bytes_def split: option.splits)
  qed
  have r: "reassembling_step B [] n ?g = (case lsn_add (d_lsn e) (ucast n) of
        None \<Rightarrow> (Panic, ?g\<lparr>d_inputbuf := drop (unat n) (d_inputbuf e @ ys),
                          d_state := ReassemblingRecord (take (unat n) (d_inputbuf e @ ys)) n\<rparr>)
      | Some l \<Rightarrow> andthen (complete_record B (take (unat n) (d_inputbuf e @ ys))) ?k (?next l ?R))"
    using n by (cases e) (simp add: reassembling_step_def andthen_def assert_that_def read_def branch_def
        advance_lsn_def unwrap_def update_def take_input_def feed_bytes_def split: option.splits)
  have "?next l ?R = (?next l WaitingForRecord)\<lparr>d_state := ?R\<rparr>" for l by simp
  then have "same_result (andthen (complete_record B x) ?k (?next l WaitingForRecord))
      (andthen (complete_record B x) ?k (?next l ?R))" for x l
    by (metis complete_record_state same_result_andthen)
  with fast slow w r show ?thesis by (auto simp: same_result_def split: option.splits)
qed

lemma poll_continue: "dec_round B d = (Ok None, e) \<Longrightarrow> poll_decode_internal B d = poll_decode_internal B e"
  by (subst poll_decode_internal.simps) simp

lemma poll_stop: "dec_round B d = (Ok (Some y), e) \<Longrightarrow> poll_decode_internal B d = (Ok y, e)"
  by (subst poll_decode_internal.simps) simp

lemma poll_some:
  assumes ok: "bindings_ok B"
  shows "poll_decode_internal B d = (Ok (Some x), d') \<Longrightarrow>
    poll_decode_internal B (feed_bytes ys d) = (Ok (Some x), feed_bytes ys d')"
proof (induction "dec_measure d" arbitrary: d rule: less_induct)
  case less
  from less.prems obtain r e where r: "dec_round B d = (Ok r, e)"
    by (subst (asm) poll_decode_internal.simps) (auto split: prod.splits outcome.splits)
  with less.prems have next_poll: "r = None \<Longrightarrow> poll_decode_internal B e = (Ok (Some x), d')"
    and stop: "r \<noteq> None \<Longrightarrow> r = Some (Some x) \<and> e = d'"
    by (auto simp: poll_continue poll_stop)
  show ?case
  proof (cases r)
    case None
    with round_more_input [OF ok r, of ys] fast_path_waits [OF ok] next_poll
    have "dec_round B (feed_bytes ys d) = (Ok None, feed_bytes ys e)" by auto
    moreover have "poll_decode_internal B (feed_bytes ys e) = (Ok (Some x), feed_bytes ys d')"
      using less.hyps dec_round_continue r next_poll None by blast
    ultimately show ?thesis by (simp add: poll_continue)
  next
    case (Some y)
    with round_more_input [OF ok r, of ys] stop
    have "dec_round B (feed_bytes ys d) = (Ok (Some (Some x)), feed_bytes ys d')" by auto
    then show ?thesis by (simp add: poll_stop)
  qed
qed

lemma same_round_poll:
  "same_result (dec_round B d) (dec_round B e) \<Longrightarrow> same_result (poll_decode_internal B d) (poll_decode_internal B e)"
  unfolding poll_decode_internal.simps [of B d] poll_decode_internal.simps [of B e]
  by (auto simp: same_result_def split: prod.splits outcome.splits)

lemma poll_none:
  assumes ok: "bindings_ok B"
  shows "poll_decode_internal B d = (Ok None, d') \<Longrightarrow>
    same_result (poll_decode_internal B (feed_bytes ys d)) (poll_decode_internal B (feed_bytes ys d'))"
proof (induction "dec_measure d" arbitrary: d rule: less_induct)
  case less
  from less.prems obtain r e where r: "dec_round B d = (Ok r, e)"
    by (subst (asm) poll_decode_internal.simps) (auto split: prod.splits outcome.splits)
  with less.prems have next_poll: "r = None \<Longrightarrow> poll_decode_internal B e = (Ok None, d')"
    and stop: "r \<noteq> None \<Longrightarrow> r = Some None \<and> e = d'"
    by (auto simp: poll_continue poll_stop)
  show ?case
  proof (cases r)
    case None
    from round_more_input [OF ok r, of ys] None
    consider "dec_round B (feed_bytes ys d) = (Ok None, feed_bytes ys e)"
      | f n where "page_boundary B d = (Ok True, f)" "fast_path B ys f n"
          "e = f\<lparr>d_state := ReassemblingRecord [] n\<rparr>" by auto
    then show ?thesis
    proof cases
      case 1
      with less.hyps [of e] dec_round_continue r next_poll None show ?thesis by (simp add: poll_continue)
    next
      case 2
      with fast_path_waits [OF ok 2(1,2)] next_poll [OF None] have "d' = e" by simp
      with fast_path_same [OF ok 2(1,2)] 2 show ?thesis by (simp add: same_round_poll)
    qed
  next
    case (Some y)
    with round_more_input [OF ok r, of ys] stop
    have "same_result (dec_round B (feed_bytes ys d)) (dec_round B (feed_bytes ys d'))"
      by (simp add: same_result_def)
    then show ?thesis by (rule same_round_poll)
  qed
qed

section \<open>Streams of records\<close>

text \<open>
  \<open>emits B d rs d'\<close>: polling \<open>d\<close> until it asks for more input returns the records \<open>rs\<close>
  and leaves \<open>d'\<close>, as the loops of the callers do.
\<close>

inductive emits :: "wal_bindings \<Rightarrow> decoder \<Rightarrow> (lsn \<times> byte list) list \<Rightarrow> decoder \<Rightarrow> bool" for B where
  emits_done: "poll_decode B d = (Ok None, d') \<Longrightarrow> emits B d [] d'"
| emits_record: "poll_decode B d = (Ok (Some r), e) \<Longrightarrow> emits B e rs d' \<Longrightarrow> emits B d (r # rs) d'"

inductive_cases emits_elim: "emits B d rs d'"

lemma poll_decode_more_input:
  assumes "bindings_ok B"
  shows "poll_decode B d = (Ok (Some x), d') \<Longrightarrow>
      poll_decode B (feed_bytes ys d) = (Ok (Some x), feed_bytes ys d')"
    and "poll_decode B d = (Ok None, d') \<Longrightarrow> poll_decode B (feed_bytes ys d') = (Ok y, e) \<Longrightarrow>
      supported_pg_version (d_pg_version d') \<Longrightarrow> poll_decode B (feed_bytes ys d) = (Ok y, e)"
  using poll_some [OF assms] poll_none [OF assms, of d d' ys]
  by (auto simp: poll_decode_def fail_def same_result_def split: if_splits)

lemma poll_decode_version: "poll_decode B d = (Ok x, d') \<Longrightarrow> supported_pg_version (d_pg_version d)"
  by (simp add: poll_decode_def fail_def split: if_splits)

lemma emits_first_none:
  assumes "bindings_ok B" and "poll_decode B d = (Ok None, d')" and "emits B (feed_bytes ys d') rs e"
  shows "emits B (feed_bytes ys d) rs e"
  using assms(3)
proof (cases rule: emits.cases)
  case emits_done
  then show ?thesis
    using poll_decode_more_input(2) [OF assms(1,2)] poll_decode_version [OF emits_done(2)]
    by (auto intro: emits.emits_done)
next
  case (emits_record r e' rs')
  then show ?thesis
    using poll_decode_more_input(2) [OF assms(1,2)] poll_decode_version [OF emits_record(2)]
    by (auto intro: emits.emits_record)
qed

lemma emits_append:
  assumes ok: "bindings_ok B" and "emits B d rs d1" and "emits B (feed_bytes ys d1) ss d2"
  shows "emits B (feed_bytes ys d) (rs @ ss) d2"
  using assms(2,3)
proof (induction rule: emits.induct)
  case (emits_done d d')
  with emits_first_none [OF ok] show ?case by simp
next
  case (emits_record d r e rs d')
  with poll_decode_more_input(1) [OF ok emits_record(1)] show ?case by (auto intro: emits.emits_record)
qed

text \<open>The records of a stream that arrives in the given chunks.\<close>

fun emits_chunks :: "wal_bindings \<Rightarrow> decoder \<Rightarrow> byte list list \<Rightarrow> (lsn \<times> byte list) list \<Rightarrow> decoder \<Rightarrow> bool" where
  "emits_chunks B d [] rs d' = (rs = [] \<and> d' = d)"
| "emits_chunks B d (c # cs) rs d' =
     (\<exists>r1 r2 e. rs = r1 @ r2 \<and> emits B (feed_bytes c d) r1 e \<and> emits_chunks B e cs r2 d')"

lemma emits_chunks_concat:
  assumes ok: "bindings_ok B"
  shows "emits_chunks B d cs rs d' \<Longrightarrow> cs \<noteq> [] \<Longrightarrow> emits B (feed_bytes (concat cs) d) rs d'"
proof (induction cs arbitrary: d rs)
  case (Cons c cs)
  then obtain r1 r2 e where r: "rs = r1 @ r2" "emits B (feed_bytes c d) r1 e" "emits_chunks B e cs r2 d'" by auto
  show ?case
  proof (cases "cs = []")
    case True
    with r show ?thesis by simp
  next
    case False
    with Cons.IH r have "emits B (feed_bytes (concat cs) e) r2 d'" by blast
    from emits_append [OF ok r(2) this] r(1) show ?thesis by (simp add: feed_feed)
  qed
qed simp

lemma emits_deterministic: "emits B d rs d' \<Longrightarrow> emits B d ss e \<Longrightarrow> rs = ss \<and> d' = e"
proof (induction arbitrary: ss rule: emits.induct)
  case (emits_done d d')
  from emits_done(2,1) show ?case by (cases rule: emits.cases) auto
next
  case (emits_record d r d1 rs d')
  from emits_record(4,1-3) show ?case by (cases rule: emits.cases) auto
qed

section \<open>Properties\<close>


text \<open>Bindings of fixed-size records with an empty checksum, and one record in two chunks.\<close>

definition example_bindings :: wal_bindings where
  "example_bindings = \<lparr>b_wire = std_wire, b_crc32c_append = (\<lambda>_ _. 0), b_page_magic = (\<lambda>_. 0xD106),
     b_short_phd = 24, b_long_phd = 40, b_xlog_record = 24,
     b_short_header = (\<lambda>_ _. None), b_long_header = (\<lambda>_ _. None),
     b_record = (\<lambda>_ _. Some \<lparr>xl_info = 0, xl_rmid = 1, xl_crc = 0\<rparr>)\<rparr>"

definition example_record :: "byte list" where
  "example_record = [26, 0, 0, 0] @ replicate 22 7"

lemmas decode_eval = dec_round_def page_boundary_def page_contents_def waiting_step_def reassembling_step_def
  skipping_step_def complete_record_def branch_def andthen_def read_def ret_def update_def unwrap_def
  assert_that_def take_input_def advance_lsn_def lsn_add_def checked_add_def feed_bytes_def decoder_new_def
  block_offset_def remaining_in_block_def XLOG_BLCKSZ_def WAL_SEGMENT_SIZE_def XLOG_RECORD_CRC_OFFS_def
  is_xlog_switch_record_def align_def

abbreviation example_reassembling :: decoder where
  "example_reassembling \<equiv> \<lparr>d_lsn = 64, d_pg_version = 15, d_inputbuf = take 10 example_record,
     d_state = ReassemblingRecord [] 26\<rparr>"

lemma example_first_chunk:
  "poll_decode example_bindings (feed_bytes (take 10 example_record) (decoder_new 64 15)) =
     (Ok None, example_reassembling)"
proof -
  have n: "from_le_bytes (take 4 example_record) = (26 :: u32)"
    by (simp add: example_record_def from_le_bytes_def)
  have l: "length example_record = 26" by (simp add: example_record_def)
  have "dec_round example_bindings (feed_bytes (take 10 example_record) (decoder_new 64 15)) =
      (Ok None, example_reassembling)"
    by (simp add: decode_eval example_bindings_def std_wire_def n l)
  moreover have "dec_round example_bindings example_reassembling = (Ok (Some None), example_reassembling)"
    by (simp add: decode_eval example_bindings_def l)
  ultimately show ?thesis
    by (simp add: poll_decode_def supported_pg_version_def decoder_new_def feed_bytes_def poll_continue poll_stop)
qed

abbreviation example_skipping :: decoder where
  "example_skipping \<equiv> \<lparr>d_lsn = 90, d_pg_version = 15, d_inputbuf = [], d_state = SkippingEverything 96\<rparr>"

lemma example_second_chunk:
  "emits example_bindings (feed_bytes (drop 10 example_record) example_reassembling)
     [(96, example_record)] example_skipping"
proof -
  have l: "length example_record = 26" by (simp add: example_record_def)
  have "dec_round example_bindings (feed_bytes (drop 10 example_record) example_reassembling) =
      (Ok (Some (Some (96, example_record))), example_skipping)"
    by (simp add: decode_eval example_bindings_def l)
  moreover have "dec_round example_bindings example_skipping = (Ok (Some None), example_skipping)"
    by (simp add: decode_eval)
  ultimately show ?thesis
    by (intro emits_record [of _ _ _ example_skipping] emits_done)
      (simp_all add: poll_decode_def supported_pg_version_def feed_bytes_def poll_stop)
qed


end
