(* ===== verification/Timeline_State.thy ===== *)
theory Timeline_State
  imports Term_History File_System
begin

text \<open>
  \<open>safekeeper/src/state.rs\<close>: the persistent state of a timeline on a safekeeper and its
  in-memory layer. The control file storage is the trait \<open>control_file::Storage\<close>: a record
  of its operations, with the locale \<open>ctrl_storage\<close> for what an implementation promises.
\<close>

type_synonym node_id = u64
type_synonym id16 = "byte list"

record server_info =
  si_pg_version :: u32
  si_system_id :: u64
  si_wal_seg_size :: u32

record acceptor_state =
  as_term :: consensus_term
  as_term_history :: term_history

record persisted_peer_info =
  pp_backup_lsn :: lsn
  pp_term :: consensus_term
  pp_flush_lsn :: lsn
  pp_commit_lsn :: lsn

record pstate =
  ps_tenant_id :: id16
  ps_timeline_id :: id16
  ps_acceptor_state :: acceptor_state
  ps_server :: server_info
  ps_proposer_uuid :: id16
  ps_timeline_start_lsn :: lsn
  ps_local_start_lsn :: lsn
  ps_commit_lsn :: lsn
  ps_backup_lsn :: lsn
  ps_peer_horizon_lsn :: lsn
  ps_remote_lsn :: lsn
  ps_peers :: "(node_id \<times> persisted_peer_info) list"

text \<open>The errors of the safekeeper's storage and handlers, one for each \<open>bail!\<close>.\<close>

datatype sk_error = Io io_error
  | BadMagic | UnexpectedEndOfFile | StateDeserialize | ChecksumMismatch | UnsupportedControlVersion
  | EmptyIds
  | IncompatibleProtocol | IncompatibleServerVersion | InvalidTenantId | InvalidTimelineId | InvalidWalSegSize
  | RefusingElected | EmptyTermHistory | AppendBeforeElected
  | WalDecode | RewritesWal | GapInWal | UnflushedNoFile | TruncateNonWritten | UnsupportedPgVersion
  | InvalidFileName
  | UninitializedWalSegSize | UninitializedPgVersion | CommitBelowLocalStart | TimelineCancelled | TermNotAcquired
  | FeedbackDeserialize | DonorTermChanged | OurTermChanged | UnexpectedVoteReply | NoCommonPoint

section \<open>Persistent and in-memory state\<close>

definition persisted_peer_info_new :: persisted_peer_info where
  "persisted_peer_info_new =
     \<lparr>pp_backup_lsn = Lsn_INVALID, pp_term = INVALID_TERM, pp_flush_lsn = 0, pp_commit_lsn = 0\<rparr>"

definition pstate_new :: "id16 \<Rightarrow> id16 \<Rightarrow> server_info \<Rightarrow> node_id list \<Rightarrow> lsn \<Rightarrow> lsn \<Rightarrow> pstate" where
  "pstate_new tenant_id timeline_id server peers commit_lsn local_start_lsn =
     \<lparr>ps_tenant_id = tenant_id, ps_timeline_id = timeline_id,
      ps_acceptor_state = \<lparr>as_term = 0, as_term_history = []\<rparr>,
      ps_server = server, ps_proposer_uuid = replicate 16 0,
      ps_timeline_start_lsn = 0, ps_local_start_lsn = local_start_lsn,
      ps_commit_lsn = commit_lsn, ps_backup_lsn = local_start_lsn,
      ps_peer_horizon_lsn = local_start_lsn, ps_remote_lsn = 0,
      ps_peers = map (\<lambda>p. (p, persisted_peer_info_new)) peers\<rparr>"

record mem_state =
  m_commit_lsn :: lsn
  m_backup_lsn :: lsn
  m_peer_horizon_lsn :: lsn
  m_remote_lsn :: lsn
  m_proposer_uuid :: id16

record 'c ctrl_ops =
  c_state :: "'c \<Rightarrow> pstate"
  c_persist :: "pstate \<Rightarrow> ('c, sk_error, unit) rust"
  c_last_persist_at :: "'c \<Rightarrow> nat"

record 'c timeline_state =
  inmem :: mem_state
  pers :: 'c

definition mem_of :: "pstate \<Rightarrow> mem_state" where
  "mem_of s = \<lparr>m_commit_lsn = ps_commit_lsn s, m_backup_lsn = ps_backup_lsn s,
     m_peer_horizon_lsn = ps_peer_horizon_lsn s, m_remote_lsn = ps_remote_lsn s,
     m_proposer_uuid = ps_proposer_uuid s\<rparr>"

definition timeline_state_new :: "'c ctrl_ops \<Rightarrow> 'c \<Rightarrow> 'c timeline_state" where
  "timeline_state_new C c = \<lparr>inmem = mem_of (c_state C c), pers = c\<rparr>"

abbreviation st :: "'c ctrl_ops \<Rightarrow> 'c timeline_state \<Rightarrow> pstate" where
  "st C s \<equiv> c_state C (pers s)"

definition start_change :: "'c ctrl_ops \<Rightarrow> 'c timeline_state \<Rightarrow> pstate" where
  "start_change C s = (st C s)\<lparr>ps_commit_lsn := m_commit_lsn (inmem s),
     ps_backup_lsn := m_backup_lsn (inmem s), ps_peer_horizon_lsn := m_peer_horizon_lsn (inmem s),
     ps_remote_lsn := m_remote_lsn (inmem s), ps_proposer_uuid := m_proposer_uuid (inmem s)\<rparr>"

definition finish_change :: "'c ctrl_ops \<Rightarrow> pstate \<Rightarrow> ('c timeline_state, sk_error, unit) rust" where
  "finish_change C s =
     andthen (on_field pers (\<lambda>c t. t\<lparr>pers := c\<rparr>) (c_persist C s)) (\<lambda>_.
     update (\<lambda>t. t\<lparr>inmem := mem_of s\<rparr>))"

definition flush_state :: "'c ctrl_ops \<Rightarrow> ('c timeline_state, sk_error, unit) rust" where
  "flush_state C = andthen (read (start_change C)) (finish_change C)"

section \<open>The contract of a control file storage\<close>

text \<open>
  \<open>on_disk c\<close> is the set of states that a restart after a crash may load. A successful
  \<open>persist\<close> leaves the new state only, in memory and on the disk; a failed one keeps the
  state in memory, and the disk may hold the new state or what it held before.
\<close>

locale ctrl_storage =
  fixes C :: "'c ctrl_ops" and c_inv :: "'c \<Rightarrow> bool" and on_disk :: "'c \<Rightarrow> pstate set"
  assumes persist: "c_inv c \<Longrightarrow> wp (c_persist C s)
      (\<lambda>_ c'. c_inv c' \<and> c_state C c' = s \<and> on_disk c' = {s})
      (\<lambda>_ c'. c_inv c' \<and> c_state C c' = c_state C c \<and> on_disk c' \<subseteq> insert s (on_disk c))
      (\<lambda>_. False) c"
begin

lemma finish_change_wp:
  assumes "c_inv (pers t)"
    and "\<And>c. c_inv c \<Longrightarrow> c_state C c = s \<Longrightarrow> on_disk c = {s} \<Longrightarrow>
      Q () (t\<lparr>pers := c, inmem := mem_of s\<rparr>)"
    and "\<And>e c. c_inv c \<Longrightarrow> c_state C c = st C t \<Longrightarrow> on_disk c \<subseteq> insert s (on_disk (pers t)) \<Longrightarrow>
      E e (t\<lparr>pers := c\<rparr>)"
  shows "wp (finish_change C s) Q E F t"
  unfolding finish_change_def wp
  by (rule wp_mono [OF persist [OF assms(1), of s]]) (use assms(2,3) in \<open>auto\<close>)

lemma flush_state_wp:
  assumes "c_inv (pers t)"
    and "\<And>c. c_inv c \<Longrightarrow> c_state C c = start_change C t \<Longrightarrow> on_disk c = {start_change C t} \<Longrightarrow>
      Q () (t\<lparr>pers := c\<rparr>)"
    and "\<And>e c. c_inv c \<Longrightarrow> c_state C c = st C t \<Longrightarrow>
      on_disk c \<subseteq> insert (start_change C t) (on_disk (pers t)) \<Longrightarrow> E e (t\<lparr>pers := c\<rparr>)"
  shows "wp (flush_state C) Q E F t"
proof -
  have same: "t\<lparr>pers := c, inmem := mem_of (start_change C t)\<rparr> = t\<lparr>pers := c\<rparr>" for c
    by (cases t) (simp add: mem_of_def start_change_def)
  show ?thesis
    unfolding flush_state_def wp
    by (rule finish_change_wp) (use assms same in auto)
qed

end

end
