(* ===== verification/Safekeeper.thy ===== *)
theory Safekeeper
  imports Safekeeper_Msgs Timeline_State
begin

text \<open>
  The consensus state machine of \<open>safekeeper/src/safekeeper.rs\<close>: the struct
  \<open>SafeKeeper\<close>, generic in its two storages, and the handlers of the messages of the
  proposer and of the peers. The traits \<open>control_file::Storage\<close> and \<open>wal_storage::Storage\<close>
  are records of operations; the lemmas are proved once for all storages that keep the
  contracts \<open>ctrl_storage\<close> and \<open>wal_storage\<close>.
\<close>

definition SK_PROTOCOL_VERSION :: u32 where
  "SK_PROTOCOL_VERSION = 2"

definition UNKNOWN_SERVER_VERSION :: u32 where
  "UNKNOWN_SERVER_VERSION = 0"

record 'w wal_ops =
  w_flush_lsn :: "'w \<Rightarrow> lsn"
  w_write_wal :: "lsn \<Rightarrow> byte list \<Rightarrow> ('w, sk_error, unit) rust"
  w_flush_wal :: "('w, sk_error, unit) rust"
  w_truncate_wal :: "lsn \<Rightarrow> ('w, sk_error, unit) rust"

record ('c, 'w) safekeeper =
  epoch_start_lsn :: lsn
  sk_state :: "'c timeline_state"
  wal_store :: 'w
  node_id :: node_id

type_synonym ('c, 'w, 'a) sk_method = "(('c, 'w) safekeeper, sk_error, 'a) rust"

section \<open>Accessors\<close>

definition safekeeper_new :: "'c ctrl_ops \<Rightarrow> 'c \<Rightarrow> 'w \<Rightarrow> node_id \<Rightarrow> (sk_error, ('c, 'w) safekeeper) outcome" where
  "safekeeper_new C state wal nid =
     (if ps_tenant_id (c_state C state) = replicate 16 0 \<or> ps_timeline_id (c_state C state) = replicate 16 0
      then Err EmptyIds
      else Ok \<lparr>epoch_start_lsn = 0, sk_state = timeline_state_new C state, wal_store = wal,
              node_id = nid\<rparr>)"

abbreviation sk_pers :: "'c ctrl_ops \<Rightarrow> ('c, 'w) safekeeper \<Rightarrow> pstate" where
  "sk_pers C s \<equiv> st C (sk_state s)"

abbreviation sk_mem :: "('c, 'w) safekeeper \<Rightarrow> mem_state" where
  "sk_mem s \<equiv> inmem (sk_state s)"

definition get_term :: "'c ctrl_ops \<Rightarrow> ('c, 'w) safekeeper \<Rightarrow> consensus_term" where
  "get_term C s = as_term (ps_acceptor_state (sk_pers C s))"

definition flush_lsn :: "'c ctrl_ops \<Rightarrow> 'w wal_ops \<Rightarrow> ('c, 'w) safekeeper \<Rightarrow> lsn" where
  "flush_lsn C W s = max (w_flush_lsn W (wal_store s)) (ps_timeline_start_lsn (sk_pers C s))"

definition get_term_history :: "'c ctrl_ops \<Rightarrow> 'w wal_ops \<Rightarrow> ('c, 'w) safekeeper \<Rightarrow> term_history" where
  "get_term_history C W s = up_to (as_term_history (ps_acceptor_state (sk_pers C s))) (flush_lsn C W s)"

definition get_epoch :: "'c ctrl_ops \<Rightarrow> 'w wal_ops \<Rightarrow> ('c, 'w) safekeeper \<Rightarrow> consensus_term" where
  "get_epoch C W s = th_get_epoch (as_term_history (ps_acceptor_state (sk_pers C s))) (flush_lsn C W s)"

text \<open>Methods of the fields.\<close>

definition on_state :: "('c timeline_state, sk_error, 'a) rust \<Rightarrow> ('c, 'w, 'a) sk_method" where
  "on_state = on_field sk_state (\<lambda>x s. s\<lparr>sk_state := x\<rparr>)"

definition on_wal :: "('w, sk_error, 'a) rust \<Rightarrow> ('c, 'w, 'a) sk_method" where
  "on_wal = on_field wal_store (\<lambda>x s. s\<lparr>wal_store := x\<rparr>)"

definition set_mem :: "(mem_state \<Rightarrow> mem_state) \<Rightarrow> ('c, 'w, unit) sk_method" where
  "set_mem f = update (\<lambda>s. s\<lparr>sk_state := (sk_state s)\<lparr>inmem := f (sk_mem s)\<rparr>\<rparr>)"

text \<open>\<open>let mut state = self.state.start_change(); ...; self.state.finish_change(&state)\<close>\<close>

definition change_state :: "'c ctrl_ops \<Rightarrow> (pstate \<Rightarrow> pstate) \<Rightarrow> ('c, 'w, unit) sk_method" where
  "change_state C f = andthen (read (\<lambda>s. start_change C (sk_state s)))
     (\<lambda>state. on_state (finish_change C (f state)))"

definition set_term :: "consensus_term \<Rightarrow> pstate \<Rightarrow> pstate" where
  "set_term t p = p\<lparr>ps_acceptor_state := (ps_acceptor_state p)\<lparr>as_term := t\<rparr>\<rparr>"

section \<open>Handlers\<close>

definition handle_greeting ::
    "'c ctrl_ops \<Rightarrow> proposer_greeting \<Rightarrow> ('c, 'w, acceptor_proposer_message option) sk_method" where
  "handle_greeting C msg =
     andthen (require (\<lambda>_. g_protocol_version msg = SK_PROTOCOL_VERSION) IncompatibleProtocol) (\<lambda>_.
     andthen (require (\<lambda>s. \<not> (g_pg_version msg div 10000 \<noteq> si_pg_version (ps_server (sk_pers C s)) div 10000
       \<and> si_pg_version (ps_server (sk_pers C s)) \<noteq> UNKNOWN_SERVER_VERSION)) IncompatibleServerVersion) (\<lambda>_.
     andthen (require (\<lambda>s. g_tenant_id msg = ps_tenant_id (sk_pers C s)) InvalidTenantId) (\<lambda>_.
     andthen (require (\<lambda>s. g_timeline_id msg = ps_timeline_id (sk_pers C s)) InvalidTimelineId) (\<lambda>_.
     andthen (require (\<lambda>s. si_wal_seg_size (ps_server (sk_pers C s)) = g_wal_seg_size msg) InvalidWalSegSize) (\<lambda>_.
     andthen (run_if (\<lambda>s. si_system_id (ps_server (sk_pers C s)) \<noteq> g_system_id msg \<and> g_system_id msg \<noteq> 0)
       (change_state C (\<lambda>p. p\<lparr>ps_server := (ps_server p)\<lparr>si_system_id := g_system_id msg,
          si_pg_version := (if g_pg_version msg \<noteq> UNKNOWN_SERVER_VERSION then g_pg_version msg
                            else si_pg_version (ps_server p))\<rparr>\<rparr>))) (\<lambda>_.
     read (\<lambda>s. Some (AGreeting \<lparr>ag_term = get_term C s, ag_node_id = node_id s\<rparr>))))))))"

definition vote_refusal :: "'c ctrl_ops \<Rightarrow> 'w wal_ops \<Rightarrow> ('c, 'w) safekeeper \<Rightarrow> vote_response" where
  "vote_refusal C W s = \<lparr>vr_term = get_term C s, vr_vote_given = 0, vr_flush_lsn = flush_lsn C W s,
     vr_truncate_lsn = m_peer_horizon_lsn (sk_mem s), vr_term_history = get_term_history C W s,
     vr_timeline_start_lsn = ps_timeline_start_lsn (sk_pers C s)\<rparr>"

definition handle_vote_request ::
    "'c ctrl_ops \<Rightarrow> 'w wal_ops \<Rightarrow> vote_request \<Rightarrow> ('c, 'w, acceptor_proposer_message option) sk_method" where
  "handle_vote_request C W msg =
     andthen (on_wal (w_flush_wal W)) (\<lambda>_.
     andthen (read (vote_refusal C W)) (\<lambda>resp.
     branch (\<lambda>s. get_term C s < vreq_term msg)
       (andthen (change_state C (set_term (vreq_term msg))) (\<lambda>_.
        read (\<lambda>s. Some (AVoteResponse (resp\<lparr>vr_term := get_term C s, vr_vote_given := 1\<rparr>)))))
       (ret (Some (AVoteResponse resp)))))"

definition make_append_response :: "'c ctrl_ops \<Rightarrow> 'w wal_ops \<Rightarrow> ('c, 'w) safekeeper \<Rightarrow> append_response" where
  "make_append_response C W s = \<lparr>rsp_term = get_term C s, rsp_flush_lsn = flush_lsn C W s,
     rsp_commit_lsn = ps_commit_lsn (sk_pers C s), rsp_hs_feedback = hs_feedback_empty,
     rsp_pageserver_feedback = feedback_empty\<rparr>"

text \<open>The state that an elected proposer's message is adopted into.\<close>

definition adopt_elected :: "proposer_elected \<Rightarrow> pstate \<Rightarrow> pstate" where
  "adopt_elected msg state =
     (let s1 = (if ps_timeline_start_lsn state = 0
                then state\<lparr>ps_timeline_start_lsn := pe_timeline_start_lsn msg\<rparr> else state);
          s2 = (if ps_peer_horizon_lsn s1 = 0
                then s1\<lparr>ps_peer_horizon_lsn := pe_timeline_start_lsn msg\<rparr> else s1);
          s3 = (if ps_local_start_lsn s2 = 0
                then s2\<lparr>ps_local_start_lsn := pe_start_streaming_at msg\<rparr> else s2)
      in s3\<lparr>ps_commit_lsn := max (ps_commit_lsn s3) (ps_timeline_start_lsn s3),
            ps_backup_lsn := max (ps_backup_lsn s3) (ps_timeline_start_lsn s3),
            ps_acceptor_state := (ps_acceptor_state s3)\<lparr>as_term_history := pe_term_history msg\<rparr>\<rparr>)"

definition handle_elected ::
    "'c ctrl_ops \<Rightarrow> 'w wal_ops \<Rightarrow> proposer_elected \<Rightarrow> ('c, 'w, acceptor_proposer_message option) sk_method" where
  "handle_elected C W msg =
     andthen (run_if (\<lambda>s. get_term C s < pe_term msg) (change_state C (set_term (pe_term msg)))) (\<lambda>_.
     branch (\<lambda>s. get_term C s > pe_term msg)
       (ret None)
       (andthen (require (\<lambda>s. \<not> (pe_term msg = get_epoch C W s \<and>
          flush_lsn C W s > pe_start_streaming_at msg)) RefusingElected) (\<lambda>_.
        andthen (assert_that (\<lambda>s. pe_start_streaming_at msg \<ge> m_commit_lsn (sk_mem s))) (\<lambda>_.
        andthen (on_wal (w_truncate_wal W (pe_start_streaming_at msg))) (\<lambda>_.
        andthen (change_state C (adopt_elected msg)) (\<lambda>_.
        if pe_term_history msg = [] then bail EmptyTermHistory
        else andthen (update (\<lambda>s. s\<lparr>epoch_start_lsn := tl_lsn (last (pe_term_history msg))\<rparr>)) (\<lambda>_.
             ret None)))))))"

definition update_commit_lsn :: "'c ctrl_ops \<Rightarrow> 'w wal_ops \<Rightarrow> lsn \<Rightarrow> ('c, 'w, unit) sk_method" where
  "update_commit_lsn C W candidate =
     andthen (read (\<lambda>s. min (max candidate (m_commit_lsn (sk_mem s))) (flush_lsn C W s))) (\<lambda>commit_lsn.
     andthen (assert_that (\<lambda>s. commit_lsn \<ge> m_commit_lsn (sk_mem s))) (\<lambda>_.
     andthen (set_mem (\<lambda>m. m\<lparr>m_commit_lsn := commit_lsn\<rparr>)) (\<lambda>_.
     run_if (\<lambda>s. commit_lsn \<ge> epoch_start_lsn s \<and> ps_commit_lsn (sk_pers C s) < epoch_start_lsn s)
       (on_state (flush_state C)))))"

text \<open>\<open>now\<close> and the time of the last persist are in seconds.\<close>

definition maybe_persist_inmem_control_file :: "'c ctrl_ops \<Rightarrow> nat \<Rightarrow> ('c, 'w, unit) sk_method" where
  "maybe_persist_inmem_control_file C now =
     branch (\<lambda>s. now - c_last_persist_at C (pers (sk_state s)) < 300)
       (ret ())
       (run_if (\<lambda>s. m_commit_lsn (sk_mem s) > ps_commit_lsn (sk_pers C s)
          \<or> m_backup_lsn (sk_mem s) > ps_backup_lsn (sk_pers C s)
          \<or> m_peer_horizon_lsn (sk_mem s) > ps_peer_horizon_lsn (sk_pers C s)
          \<or> m_remote_lsn (sk_mem s) > ps_remote_lsn (sk_pers C s))
         (on_state (flush_state C)))"

definition seg_size_of :: "'c ctrl_ops \<Rightarrow> ('c, 'w) safekeeper \<Rightarrow> u64" where
  "seg_size_of C s = ucast (si_wal_seg_size (ps_server (sk_pers C s)))"

definition handle_append_request ::
    "'c ctrl_ops \<Rightarrow> 'w wal_ops \<Rightarrow> append_request \<Rightarrow> bool \<Rightarrow> ('c, 'w, acceptor_proposer_message option) sk_method" where
  "handle_append_request C W msg require_flush =
     andthen (require (\<lambda>s. \<not> get_term C s < h_term (ar_h msg)) AppendBeforeElected) (\<lambda>_.
     branch (\<lambda>s. get_term C s > h_term (ar_h msg))
       (read (\<lambda>s. Some (AAppendResponse (term_only (get_term C s)))))
       (andthen (set_mem (\<lambda>m. m\<lparr>m_proposer_uuid := h_proposer_uuid (ar_h msg)\<rparr>)) (\<lambda>_.
        andthen (run_if (\<lambda>_. ar_wal_data msg \<noteq> [])
          (on_wal (w_write_wal W (h_begin_lsn (ar_h msg)) (ar_wal_data msg)))) (\<lambda>_.
        andthen (run_if (\<lambda>_. require_flush) (on_wal (w_flush_wal W))) (\<lambda>_.
        andthen (run_if (\<lambda>_. h_commit_lsn (ar_h msg) \<noteq> 0) (update_commit_lsn C W (h_commit_lsn (ar_h msg)))) (\<lambda>_.
        andthen (set_mem (\<lambda>m. m\<lparr>m_peer_horizon_lsn := max (m_peer_horizon_lsn m) (h_truncate_lsn (ar_h msg))\<rparr>)) (\<lambda>_.
        andthen (unwrap (\<lambda>s. lsn_add (ps_commit_lsn (sk_pers C s)) (seg_size_of C s))) (\<lambda>limit.
        andthen (run_if (\<lambda>s. limit < m_commit_lsn (sk_mem s)) (on_state (flush_state C))) (\<lambda>_.
        if \<not> require_flush then ret None
        else read (\<lambda>s. Some (AAppendResponse (make_append_response C W s))))))))))))"

definition handle_flush :: "'c ctrl_ops \<Rightarrow> 'w wal_ops \<Rightarrow> ('c, 'w, acceptor_proposer_message option) sk_method" where
  "handle_flush C W =
     andthen (on_wal (w_flush_wal W)) (\<lambda>_.
     read (\<lambda>s. Some (AAppendResponse (make_append_response C W s))))"

definition process_msg ::
    "'c ctrl_ops \<Rightarrow> 'w wal_ops \<Rightarrow> proposer_acceptor_message \<Rightarrow> ('c, 'w, acceptor_proposer_message option) sk_method" where
  "process_msg C W msg = (case msg of
       Greeting m \<Rightarrow> handle_greeting C m
     | VoteRequest m \<Rightarrow> handle_vote_request C W m
     | Elected m \<Rightarrow> handle_elected C W m
     | AppendRequest m \<Rightarrow> handle_append_request C W m True
     | NoFlushAppendRequest m \<Rightarrow> handle_append_request C W m False
     | FlushWAL \<Rightarrow> handle_flush C W)"

text \<open>The fields of \<open>SafekeeperTimelineInfo\<close>, a message of the broker protocol.\<close>

record sk_timeline_info =
  inf_safekeeper_id :: u64
  inf_ttid :: "id16 \<times> id16"
  inf_term :: consensus_term
  inf_last_log_term :: consensus_term
  inf_commit_lsn :: lsn
  inf_backup_lsn :: lsn
  inf_remote_lsn :: lsn
  inf_peer_horizon_lsn :: lsn
  inf_flush_lsn :: lsn
  inf_local_start_lsn :: lsn
  inf_safekeeper_connstr :: string
  inf_http_connstr :: string
  inf_availability_zone :: "string option"

definition record_safekeeper_info ::
    "'c ctrl_ops \<Rightarrow> 'w wal_ops \<Rightarrow> sk_timeline_info \<Rightarrow> ('c, 'w, unit) sk_method" where
  "record_safekeeper_info C W sk_info =
     andthen (run_if (\<lambda>s. inf_commit_lsn sk_info \<noteq> Lsn_INVALID \<and> inf_last_log_term sk_info \<noteq> INVALID_TERM
         \<and> inf_last_log_term sk_info = get_epoch C W s)
       (update_commit_lsn C W (inf_commit_lsn sk_info))) (\<lambda>_.
     andthen (set_mem (\<lambda>m. m\<lparr>m_backup_lsn := max (inf_backup_lsn sk_info) (m_backup_lsn m)\<rparr>)) (\<lambda>_.
     andthen (unwrap (\<lambda>s. lsn_add (ps_backup_lsn (sk_pers C s)) (seg_size_of C s))) (\<lambda>limit1.
     andthen (read (\<lambda>s. limit1 < m_backup_lsn (sk_mem s))) (\<lambda>sync1.
     andthen (set_mem (\<lambda>m. m\<lparr>m_remote_lsn := max (inf_remote_lsn sk_info) (m_remote_lsn m)\<rparr>)) (\<lambda>_.
     andthen (unwrap (\<lambda>s. lsn_add (ps_remote_lsn (sk_pers C s)) (seg_size_of C s))) (\<lambda>limit2.
     andthen (read (\<lambda>s. limit2 < m_remote_lsn (sk_mem s))) (\<lambda>sync2.
     andthen (set_mem (\<lambda>m. m\<lparr>m_peer_horizon_lsn := max (inf_peer_horizon_lsn sk_info) (m_peer_horizon_lsn m)\<rparr>)) (\<lambda>_.
     andthen (unwrap (\<lambda>s. lsn_add (ps_peer_horizon_lsn (sk_pers C s)) (seg_size_of C s))) (\<lambda>limit3.
     andthen (read (\<lambda>s. limit3 < m_peer_horizon_lsn (sk_mem s))) (\<lambda>sync3.
     run_if (\<lambda>_. sync1 \<or> sync2 \<or> sync3) (on_state (flush_state C))))))))))))"

end
