(* ===== verification/Safekeeper_Safety.thy ===== *)
theory Safekeeper_Safety
  imports Safekeeper
begin

text \<open>
  Invariants of the safekeeper's handlers, for every control file storage and WAL storage
  that keep their contracts.
\<close>

section \<open>The contract of a WAL storage\<close>

text \<open>
  Only \<open>truncate_wal\<close> may move the flush position back. After bytes that the decoder
  rejects, or a panic, a storage promises no more than an unmoved flush position.
\<close>

locale wal_storage =
  fixes W :: "'w wal_ops" and w_inv :: "'w \<Rightarrow> bool"
  assumes write_wal: "w_inv w \<Longrightarrow> wp (w_write_wal W p bs)
      (\<lambda>_ w'. w_inv w' \<and> w_flush_lsn W w' = w_flush_lsn W w)
      (\<lambda>e w'. (e \<noteq> WalDecode \<longrightarrow> w_inv w') \<and> w_flush_lsn W w' = w_flush_lsn W w)
      (\<lambda>w'. w_flush_lsn W w' = w_flush_lsn W w) w"
    and flush_wal: "w_inv w \<Longrightarrow> wp (w_flush_wal W)
      (\<lambda>_ w'. w_inv w' \<and> w_flush_lsn W w \<le> w_flush_lsn W w')
      (\<lambda>_ w'. w_inv w' \<and> w_flush_lsn W w' = w_flush_lsn W w) (\<lambda>_. False) w"
    and truncate_wal: "w_inv w \<Longrightarrow> wp (w_truncate_wal W p)
      (\<lambda>_ w'. w_inv w' \<and> w_flush_lsn W w' = p)
      (\<lambda>_ w'. w_inv w' \<and> w_flush_lsn W w' = w_flush_lsn W w) (\<lambda>_. False) w"

section \<open>Lower bounds that no handler breaks\<close>

text \<open>The terms a reply votes for.\<close>

definition granted :: "acceptor_proposer_message option \<Rightarrow> consensus_term list" where
  "granted r = (case r of Some (AVoteResponse v) \<Rightarrow> if vr_vote_given v \<noteq> 0 then [vr_term v] else [] | _ \<Rightarrow> [])"

lemma wp_on_wal_same:
  assumes "\<And>w. P (s\<lparr>wal_store := w\<rparr>)" and "\<And>e w. E e (s\<lparr>wal_store := w\<rparr>)" and "\<And>w. F (s\<lparr>wal_store := w\<rparr>)"
  shows "wp (on_wal m) (\<lambda>_. P) E F s"
proof -
  have "wp m (\<lambda>_ _. True) (\<lambda>_ _. True) (\<lambda>_. True) (wal_store s)"
    by (auto simp: wp_def split: prod.splits outcome.splits)
  then show ?thesis
    unfolding on_wal_def wp by (rule wp_mono) (use assms in auto)
qed

definition term_of :: "pstate \<Rightarrow> consensus_term" where
  "term_of p = as_term (ps_acceptor_state p)"

lemma get_term_wal [simp]: "get_term C (s\<lparr>wal_store := w\<rparr>) = get_term C s"
  by (simp add: get_term_def)

lemma vote_refusal_given [simp]: "vr_vote_given (vote_refusal C W s) = 0"
  by (simp add: vote_refusal_def)

lemma get_term_of: "get_term C s = term_of (sk_pers C s)"
  by (simp add: get_term_def term_of_def)

context ctrl_storage
begin

text \<open>
  The term is at least \<open>t\<close>, in memory and in every state that a restart may load, and the
  committed position is at least \<open>k\<close>.
\<close>

definition at_least :: "consensus_term \<Rightarrow> lsn \<Rightarrow> ('c, 'w) safekeeper \<Rightarrow> bool" where
  "at_least t k s = (c_inv (pers (sk_state s)) \<and> t \<le> get_term C s \<and>
     (\<forall>p \<in> on_disk (pers (sk_state s)). t \<le> term_of p) \<and> k \<le> m_commit_lsn (sk_mem s))"

abbreviation kept :: "consensus_term \<Rightarrow> lsn \<Rightarrow> ('c, 'w, 'a) sk_method \<Rightarrow> bool" where
  "kept t k m \<equiv> keeps (at_least t k) (\<lambda>_. at_least t k) (at_least t k) m"

lemma at_least_wal [simp]: "at_least t k (s\<lparr>wal_store := w\<rparr>) = at_least t k s"
  by (simp add: at_least_def get_term_def)

lemma kept_on_wal: "kept t k (on_wal m)"
  by (rule keepsI, rule wp_on_wal_same) simp_all

lemma kept_set_mem: "(\<And>m. m_commit_lsn m \<le> m_commit_lsn (f m)) \<Longrightarrow> kept t k (set_mem f)"
  unfolding set_mem_def
  by (rule keeps_update) (auto simp: at_least_def get_term_def intro: order_trans [of k "m_commit_lsn m" for m])

lemma change_state_wp:
  assumes "c_inv (pers (sk_state s))" and p: "p = f (start_change C (sk_state s))"
    and "\<And>c. c_inv c \<Longrightarrow> c_state C c = p \<Longrightarrow> on_disk c = {p} \<Longrightarrow>
      Q () (s\<lparr>sk_state := \<lparr>inmem = mem_of p, pers = c\<rparr>\<rparr>)"
    and "\<And>e c. c_inv c \<Longrightarrow> c_state C c = sk_pers C s \<Longrightarrow> on_disk c \<subseteq> insert p (on_disk (pers (sk_state s))) \<Longrightarrow>
      E e (s\<lparr>sk_state := (sk_state s)\<lparr>pers := c\<rparr>\<rparr>)"
  shows "wp (change_state C f) Q E F s"
proof -
  have eq: "(sk_state s)\<lparr>pers := c, inmem := mem_of p\<rparr> = \<lparr>inmem = mem_of p, pers = c\<rparr>" for c
    by (cases "sk_state s") simp
  show ?thesis
    unfolding change_state_def on_state_def wp p [symmetric]
    by (rule finish_change_wp) (simp_all only: eq assms(1,3,4))
qed

lemma start_change_simps [simp]:
  "ps_acceptor_state (start_change C t) = ps_acceptor_state (st C t)"
  "ps_commit_lsn (start_change C t) = m_commit_lsn (inmem t)"
  "ps_timeline_start_lsn (start_change C t) = ps_timeline_start_lsn (st C t)"
  "ps_backup_lsn (start_change C t) = m_backup_lsn (inmem t)"
  "ps_peer_horizon_lsn (start_change C t) = m_peer_horizon_lsn (inmem t)"
  "ps_remote_lsn (start_change C t) = m_remote_lsn (inmem t)"
  by (simp_all add: start_change_def)

lemma kept_change_state:
  assumes "\<And>p. ps_commit_lsn p \<le> ps_commit_lsn (f p)"
    and "\<And>x. t \<le> term_of (st C x) \<Longrightarrow> t \<le> term_of (f (start_change C x))"
  shows "kept t k (change_state C f)"
proof (rule keepsI)
  fix s
  assume I: "at_least t k s"
  have "k \<le> ps_commit_lsn (f (start_change C (sk_state s)))"
    using I assms(1) [of "start_change C (sk_state s)"] by (auto simp: at_least_def intro: order_trans)
  moreover have "t \<le> term_of (f (start_change C (sk_state s)))"
    using I assms(2) [of "sk_state s"] by (simp add: at_least_def get_term_of)
  ultimately show "wp (change_state C f) (\<lambda>_. at_least t k) (\<lambda>_. at_least t k) (at_least t k) s"
    using I by (intro change_state_wp [OF _ refl]) (auto simp: at_least_def mem_of_def get_term_of)
qed

lemma kept_flush_state: "kept t k (on_state (flush_state C))"
proof (rule keepsI)
  fix s
  assume I: "at_least t k s"
  have "t \<le> term_of (start_change C (sk_state s))"
    using I by (simp add: at_least_def get_term_of term_of_def)
  with I show "wp (on_state (flush_state C)) (\<lambda>_. at_least t k) (\<lambda>_. at_least t k) (at_least t k) s"
    unfolding on_state_def wp
    by (intro flush_state_wp) (auto simp: at_least_def get_term_of)
qed

lemma set_term_wp:
  assumes "at_least t k s" and "get_term C s < x"
  shows "wp (change_state C (set_term x)) (\<lambda>_ s'. at_least x k s' \<and> get_term C s' = x)
    (\<lambda>_. at_least t k) (at_least t k) s"
  using assms
  by (intro change_state_wp [OF _ refl]) (auto simp: at_least_def get_term_of set_term_def term_of_def mem_of_def)

lemma at_least_mono: "at_least t k s \<Longrightarrow> t' \<le> t \<Longrightarrow> at_least t' k s"
  by (auto simp: at_least_def intro: order_trans)

lemma at_least_le: "at_least t k s \<Longrightarrow> t \<le> get_term C s"
  by (simp add: at_least_def)

lemma kept_update_commit_lsn:
  fixes W :: "'w wal_ops"
  shows "kept t k (update_commit_lsn C W candidate)"
proof (rule keepsI)
  fix s :: "('c, 'w) safekeeper"
  assume I: "at_least t k s"
  let ?c = "min (max candidate (m_commit_lsn (sk_mem s))) (flush_lsn C W s)"
  let ?s = "s\<lparr>sk_state := (sk_state s)\<lparr>inmem := (sk_mem s)\<lparr>m_commit_lsn := ?c\<rparr>\<rparr>\<rparr>"
  have "at_least t k ?s" if "m_commit_lsn (sk_mem s) \<le> ?c"
    using I that order_trans [OF _ that] by (auto simp: at_least_def get_term_def)
  with I keepsD [OF kept_flush_state, of t k ?s]
  show "wp (update_commit_lsn C W candidate) (\<lambda>_. at_least t k) (\<lambda>_. at_least t k) (at_least t k) s"
    by (simp add: update_commit_lsn_def set_mem_def wp)
qed

lemma adopt_elected_commit: "ps_commit_lsn p \<le> ps_commit_lsn (adopt_elected msg p)"
  and adopt_elected_term [simp]: "term_of (adopt_elected msg p) = term_of p"
  by (simp_all add: adopt_elected_def Let_def term_of_def)

lemma term_of_start_change [simp]: "term_of (start_change C x) = term_of (st C x)"
  by (simp add: term_of_def)

lemma kept_elected_term: "kept t k (run_if (\<lambda>s. get_term C s < x) (change_state C (set_term x)))"
proof (rule keepsI)
  fix s
  assume I: "at_least t k s"
  have "wp (change_state C (set_term x)) (\<lambda>_. at_least t k) (\<lambda>_. at_least t k) (at_least t k) s"
    if "get_term C s < x"
    using set_term_wp [OF I that] by (rule wp_mono)
      (use at_least_le [OF I] that in \<open>auto intro: at_least_mono order_trans less_imp_le\<close>)
  with I show "wp (run_if (\<lambda>s. get_term C s < x) (change_state C (set_term x))) (\<lambda>_. at_least t k)
      (\<lambda>_. at_least t k) (at_least t k) s"
    by (simp add: wp)
qed

lemmas kept_rules = keeps kept_on_wal kept_set_mem kept_change_state kept_flush_state
  kept_update_commit_lsn kept_elected_term

lemma kept_greeting: "kept t k (handle_greeting C m)"
  unfolding handle_greeting_def
  by (intro kept_rules) (auto simp: term_of_def start_change_def)

lemma kept_elected: "kept t k (handle_elected C W m)"
  unfolding handle_elected_def
  by (intro kept_rules adopt_elected_commit) (auto simp: at_least_def get_term_def)

lemma kept_append: "kept t k (handle_append_request C W m b)"
  unfolding handle_append_request_def by (intro kept_rules) auto

lemma kept_flush: "kept t k (handle_flush C W)"
  unfolding handle_flush_def by (intro kept_rules)

lemma kept_record_info: "kept t k (record_safekeeper_info C W i)"
  unfolding record_safekeeper_info_def by (intro kept_rules) auto

lemma kept_maybe_persist: "kept t k (maybe_persist_inmem_control_file C now)"
  unfolding maybe_persist_inmem_control_file_def by (intro kept_rules)

text \<open>A granted vote is for a higher term than before, and is on the disk when the reply leaves.\<close>

lemma vote_request_wp:
  fixes W :: "'w wal_ops"
  assumes I: "at_least t k s"
  shows "wp (handle_vote_request C W m)
    (\<lambda>r s'. at_least t k s' \<and> (\<forall>v \<in> set (granted r). get_term C s < v \<and> at_least v k s'))
    (\<lambda>_. at_least t k) (at_least t k) s"
proof -
  have "wp (branch (\<lambda>s. get_term C s < vreq_term m)
       (andthen (change_state C (set_term (vreq_term m))) (\<lambda>_.
        read (\<lambda>s. Some (AVoteResponse (resp\<lparr>vr_term := get_term C s, vr_vote_given := 1\<rparr>)))))
       (ret (Some (AVoteResponse resp))))
    (\<lambda>r s'. at_least t k s' \<and> (\<forall>v \<in> set (granted r). get_term C s < v \<and> at_least v k s'))
    (\<lambda>_. at_least t k) (at_least t k) s'"
    if "at_least t k s'" "get_term C s' = get_term C s" "vr_vote_given resp = 0"
    for s' :: "('c, 'w) safekeeper" and resp
    unfolding wp
    using that set_term_wp [OF that(1), of "vreq_term m"] at_least_le [OF that(1)]
    by (auto simp: granted_def intro!: wp_mono [OF set_term_wp [OF that(1), of "vreq_term m"]]
        intro: at_least_mono order_trans less_imp_le)
  with I show ?thesis
    unfolding handle_vote_request_def wp_andthen wp_read
    by (intro wp_on_wal_same) simp_all
qed

end

section \<open>No restart loses a term\<close>

context ctrl_storage
begin

text \<open>The control files that a restart may load have the current term, or a later one.\<close>

definition term_durable :: "('c, 'w) safekeeper \<Rightarrow> bool" where
  "term_durable s = (c_inv (pers (sk_state s)) \<and> (\<forall>p \<in> on_disk (pers (sk_state s)). get_term C s \<le> term_of p))"

abbreviation durable :: "('c, 'w, 'a) sk_method \<Rightarrow> bool" where
  "durable m \<equiv> keeps term_durable (\<lambda>_. term_durable) term_durable m"

lemma durable_on_wal: "durable (on_wal m)"
  by (rule keepsI, rule wp_on_wal_same) (simp_all add: term_durable_def)

lemma durable_set_mem: "durable (set_mem f)"
  unfolding set_mem_def by (rule keeps_update) (simp add: term_durable_def get_term_def)

lemma change_state_durable:
  assumes "term_durable s" and "get_term C s \<le> term_of (f (start_change C (sk_state s)))"
  shows "wp (change_state C f) (\<lambda>_. term_durable) (\<lambda>_. term_durable) F s"
  using assms by (intro change_state_wp [OF _ refl]) (auto simp: term_durable_def get_term_of)

lemma durable_change_state:
  assumes "\<And>p. term_of p \<le> term_of (f p)"
  shows "durable (change_state C f)"
proof (rule keepsI)
  fix s
  assume "term_durable s"
  then show "wp (change_state C f) (\<lambda>_. term_durable) (\<lambda>_. term_durable) term_durable s"
    by (rule change_state_durable) (use assms [of "start_change C (sk_state s)"] in \<open>simp add: get_term_of\<close>)
qed

lemma durable_raise:
  "term_durable s \<Longrightarrow> get_term C s < x \<Longrightarrow>
     wp (change_state C (set_term x)) (\<lambda>_. term_durable) (\<lambda>_. term_durable) F s"
  by (rule change_state_durable) (simp_all add: set_term_def term_of_def)

lemma durable_raise_if: "durable (run_if (\<lambda>s. get_term C s < x) (change_state C (set_term x)))"
  by (rule keepsI) (auto simp: wp intro: durable_raise)

lemma durable_vote_branch:
  "durable (branch (\<lambda>s. get_term C s < x) (andthen (change_state C (set_term x)) (\<lambda>_. read g)) (ret r))"
  by (rule keepsI) (auto simp: wp intro: durable_raise)

lemma durable_flush_state: "durable (on_state (flush_state C))"
  by (rule keepsI, unfold on_state_def wp, rule flush_state_wp) (auto simp: term_durable_def get_term_of)

lemmas durable_rules = durable_vote_branch durable_raise_if keeps durable_on_wal durable_set_mem
  durable_flush_state durable_change_state

lemma durable_update_commit_lsn: "durable (update_commit_lsn C W x)"
  unfolding update_commit_lsn_def by (intro durable_rules)

lemma durable_greeting: "durable (handle_greeting C m)"
  unfolding handle_greeting_def by (intro durable_rules) (auto simp: term_of_def)

lemma durable_vote_request: "durable (handle_vote_request C W m)"
  unfolding handle_vote_request_def by (intro durable_rules)

lemma durable_elected: "durable (handle_elected C W m)"
  unfolding handle_elected_def by (intro durable_rules) (auto simp: term_durable_def get_term_def)

lemma durable_append: "durable (handle_append_request C W m b)"
  unfolding handle_append_request_def by (intro durable_rules durable_update_commit_lsn)

lemma durable_flush: "durable (handle_flush C W)"
  unfolding handle_flush_def by (intro durable_rules)

lemma durable_process_msg: "durable (process_msg C W msg)"
  by (cases msg) (simp_all add: process_msg_def durable_greeting durable_vote_request durable_elected
      durable_append durable_flush)

lemma durable_record_info: "durable (record_safekeeper_info C W i)"
  unfolding record_safekeeper_info_def by (intro durable_rules durable_update_commit_lsn)

lemma durable_maybe_persist: "durable (maybe_persist_inmem_control_file C now)"
  unfolding maybe_persist_inmem_control_file_def by (intro durable_rules)

end

section \<open>The committed WAL is flushed WAL\<close>

locale sk_storages = ctrl_storage C c_inv on_disk + wal_storage W w_inv
  for C :: "'c ctrl_ops" and c_inv on_disk and W :: "'w wal_ops" and w_inv
begin

text \<open>
  The committed position is not beyond the flushed one, and the control file lags behind
  the positions in memory.
\<close>

definition sk_inv :: "('c, 'w) safekeeper \<Rightarrow> bool" where
  "sk_inv s = (c_inv (pers (sk_state s)) \<and> w_inv (wal_store s) \<and>
     m_commit_lsn (sk_mem s) \<le> flush_lsn C W s \<and>
     ps_commit_lsn (sk_pers C s) \<le> m_commit_lsn (sk_mem s) \<and>
     ps_backup_lsn (sk_pers C s) \<le> m_backup_lsn (sk_mem s) \<and>
     ps_peer_horizon_lsn (sk_pers C s) \<le> m_peer_horizon_lsn (sk_mem s) \<and>
     ps_remote_lsn (sk_pers C s) \<le> m_remote_lsn (sk_mem s))"

abbreviation safe :: "('c, 'w, 'a) sk_method \<Rightarrow> bool" where
  "safe m \<equiv> keeps sk_inv (\<lambda>e s. e \<noteq> WalDecode \<longrightarrow> sk_inv s) (\<lambda>_. True) m"

lemma safe_write_wal: "safe (on_wal (w_write_wal W p bs))"
  unfolding on_wal_def keeps_def wp
  by (auto intro!: wp_mono [OF write_wal] simp: sk_inv_def flush_lsn_def)

lemma flush_wal_wp:
  "sk_inv s \<Longrightarrow> wp (on_wal (w_flush_wal W))
     (\<lambda>_ s'. sk_inv s' \<and> sk_state s' = sk_state s \<and> epoch_start_lsn s' = epoch_start_lsn s)
     (\<lambda>_. sk_inv) (\<lambda>_. False) s"
  unfolding on_wal_def wp
  by (rule wp_mono [OF flush_wal]) (auto simp: sk_inv_def flush_lsn_def le_max_iff_disj intro: order_trans)

lemma safe_flush_wal: "safe (on_wal (w_flush_wal W))"
  by (rule keepsI, rule wp_mono [OF flush_wal_wp]) auto

lemma change_state_safe:
  assumes I: "sk_inv s" and p: "p = f (start_change C (sk_state s))"
    and "ps_commit_lsn p \<le> max (w_flush_lsn W (wal_store s)) (ps_timeline_start_lsn p)"
  shows "wp (change_state C f)
    (\<lambda>_ s'. sk_inv s' \<and> sk_pers C s' = p \<and> wal_store s' = wal_store s) (\<lambda>_. sk_inv) (\<lambda>_. False) s"
  by (rule change_state_wp [where p = p]) (use assms in \<open>auto simp: sk_inv_def flush_lsn_def mem_of_def\<close>)

lemma safe_change_state:
  assumes "\<And>x p. ps_commit_lsn p \<le> max x (ps_timeline_start_lsn p) \<Longrightarrow>
      ps_commit_lsn (f p) \<le> max x (ps_timeline_start_lsn (f p))"
  shows "safe (change_state C f)"
proof (rule keepsI)
  fix s
  assume I: "sk_inv s"
  then have "ps_commit_lsn (start_change C (sk_state s)) \<le>
      max (w_flush_lsn W (wal_store s)) (ps_timeline_start_lsn (start_change C (sk_state s)))"
    by (simp add: sk_inv_def flush_lsn_def)
  from wp_mono [OF change_state_safe [where f = f, OF I refl assms [OF this]]]
  show "wp (change_state C f) (\<lambda>_. sk_inv) (\<lambda>e s. e \<noteq> WalDecode \<longrightarrow> sk_inv s) (\<lambda>_. True) s" by auto
qed

lemma flush_state_safe: "sk_inv s \<Longrightarrow> wp (on_state (flush_state C))
    (\<lambda>_ s'. sk_inv s' \<and> sk_mem s' = sk_mem s \<and> wal_store s' = wal_store s \<and>
       epoch_start_lsn s' = epoch_start_lsn s)
    (\<lambda>_ s'. sk_inv s' \<and> sk_mem s' = sk_mem s \<and> wal_store s' = wal_store s) (\<lambda>_. False) s"
  unfolding on_state_def wp
  by (intro flush_state_wp) (auto simp: sk_inv_def flush_lsn_def)

lemma safe_flush_state: "safe (on_state (flush_state C))"
  by (rule keepsI, rule wp_mono [OF flush_state_safe]) auto

lemma safe_set_mem:
  "(\<And>m. m_commit_lsn (f m) = m_commit_lsn m \<and> m_backup_lsn m \<le> m_backup_lsn (f m) \<and>
      m_peer_horizon_lsn m \<le> m_peer_horizon_lsn (f m) \<and> m_remote_lsn m \<le> m_remote_lsn (f m)) \<Longrightarrow>
    safe (set_mem f)"
  unfolding set_mem_def
  by (rule keeps_update) (auto simp: sk_inv_def flush_lsn_def intro: order_trans)

text \<open>The assertion of \<open>update_commit_lsn\<close> cannot fail.\<close>

lemma update_commit_lsn_safe:
  assumes I: "sk_inv s"
  shows "wp (update_commit_lsn C W candidate)
    (\<lambda>_ s'. sk_inv s' \<and> wal_store s' = wal_store s \<and> 
       m_commit_lsn (sk_mem s') = min (max candidate (m_commit_lsn (sk_mem s))) (flush_lsn C W s))
    (\<lambda>_ s'. sk_inv s' \<and>
       m_commit_lsn (sk_mem s') = min (max candidate (m_commit_lsn (sk_mem s))) (flush_lsn C W s))
    (\<lambda>_. False) s"
proof -
  let ?c = "min (max candidate (m_commit_lsn (sk_mem s))) (flush_lsn C W s)"
  let ?s = "s\<lparr>sk_state := (sk_state s)\<lparr>inmem := (sk_mem s)\<lparr>m_commit_lsn := ?c\<rparr>\<rparr>\<rparr>"
  have c: "m_commit_lsn (sk_mem s) \<le> ?c" using I by (simp add: sk_inv_def)
  then have "sk_inv ?s" using I by (auto simp: sk_inv_def flush_lsn_def intro: order_trans)
  from wp_mono [OF flush_state_safe [OF this]] c \<open>sk_inv ?s\<close> show ?thesis
    by (simp add: update_commit_lsn_def set_mem_def wp)
qed

lemma safe_update_commit_lsn: "safe (update_commit_lsn C W candidate)"
  by (rule keepsI, rule wp_mono [OF update_commit_lsn_safe]) auto

lemma adopt_elected_bound:
  "ps_commit_lsn p \<le> max x (ps_timeline_start_lsn p) \<Longrightarrow>
     ps_commit_lsn (adopt_elected msg p) \<le> max x (ps_timeline_start_lsn (adopt_elected msg p))"
  by (auto simp: adopt_elected_def Let_def le_max_iff_disj)

text \<open>Truncation follows an assertion on the committed position.\<close>

lemma truncate_wal_wp:
  "sk_inv s \<Longrightarrow> m_commit_lsn (sk_mem s) \<le> p \<Longrightarrow> wp (on_wal (w_truncate_wal W p))
     (\<lambda>_ s'. sk_inv s' \<and> sk_state s' = sk_state s \<and> w_flush_lsn W (wal_store s') = p)
     (\<lambda>_. sk_inv) (\<lambda>_. False) s"
  unfolding on_wal_def wp
  by (rule wp_mono [OF truncate_wal]) (auto simp: sk_inv_def flush_lsn_def le_max_iff_disj)

lemma safe_truncate:
  assumes "safe g"
  shows "safe (andthen (assert_that (\<lambda>s. p \<ge> m_commit_lsn (sk_mem s))) (\<lambda>_.
    andthen (on_wal (w_truncate_wal W p)) (\<lambda>_. g)))"
proof (rule keepsI)
  fix s
  assume I: "sk_inv s"
  show "wp (andthen (assert_that (\<lambda>s. p \<ge> m_commit_lsn (sk_mem s))) (\<lambda>_. andthen (on_wal (w_truncate_wal W p)) (\<lambda>_. g)))
      (\<lambda>_. sk_inv) (\<lambda>e s. e \<noteq> WalDecode \<longrightarrow> sk_inv s) (\<lambda>_. True) s"
    using I by (auto simp: wp intro!: wp_mono [OF truncate_wal_wp] keepsD [OF assms])
qed

lemmas safe_rules = keeps safe_write_wal safe_flush_wal safe_flush_state safe_set_mem safe_update_commit_lsn
  safe_change_state safe_truncate

lemma set_term_simps [simp]:
  "ps_commit_lsn (set_term t p) = ps_commit_lsn p"
  "ps_timeline_start_lsn (set_term t p) = ps_timeline_start_lsn p"
  by (simp_all add: set_term_def)

lemma safe_greeting: "safe (handle_greeting C m)"
  unfolding handle_greeting_def by (intro safe_rules) auto

lemma safe_vote_request: "safe (handle_vote_request C W m)"
  unfolding handle_vote_request_def by (intro safe_rules) auto

lemma safe_append: "safe (handle_append_request C W m b)"
  unfolding handle_append_request_def by (intro safe_rules) auto

lemma safe_flush: "safe (handle_flush C W)"
  unfolding handle_flush_def by (intro safe_rules)

lemma safe_record_info: "safe (record_safekeeper_info C W i)"
  unfolding record_safekeeper_info_def by (intro safe_rules) auto

lemma safe_maybe_persist: "safe (maybe_persist_inmem_control_file C now)"
  unfolding maybe_persist_inmem_control_file_def by (intro safe_rules)

lemma safe_elected: "safe (handle_elected C W m)"
  unfolding handle_elected_def
  by (intro keeps_andthen keeps_run_if keeps_branch keeps_require safe_change_state keeps_ret safe_truncate
      keeps_if keeps_bail keeps_update adopt_elected_bound) (auto simp: sk_inv_def flush_lsn_def)

lemma safe_process_msg: "safe (process_msg C W msg)"
  by (cases msg) (simp_all add: process_msg_def safe_greeting safe_vote_request safe_append safe_flush safe_elected)

end

end
