(* ===== verification/Wal_Storage.thy ===== *)
theory Wal_Storage
  imports Xlog_Utils File_System Wal_Chunks Safekeeper_Safety
begin

text \<open>
  \<open>safekeeper/src/wal_storage.rs\<close>: \<open>PhysicalStorage\<close>, which keeps WAL in segment files and
  tracks how far it is written, decoded and flushed. The file system is a field of the state; a
  file handle is an inode with its position. \<open>read\<close> of the WAL back after a restart is
  \<open>find_end_of_wal\<close> of \<open>libs/postgres_ffi/src/xlog_utils.rs\<close>. Metrics, log messages and the fail
  point \<open>sk-write-zeroes\<close> (a test hook) have no counterpart.
\<close>

record phys =
  p_fs :: fs
  p_no_sync :: bool
  wal_seg_size :: usize
  write_lsn :: lsn
  write_record_lsn :: lsn
  flush_record_lsn :: lsn
  p_decoder :: decoder
  p_file :: "(inode \<times> nat) option"
  is_truncated_after_restart :: bool

type_synonym 'a phys_method = "(phys, sk_error, 'a) rust"

section \<open>Segment files\<close>

definition phys_io :: "(fs, io_error, 'a) rust \<Rightarrow> 'a phys_method" where
  "phys_io m = on_field p_fs (\<lambda>f s. s\<lparr>p_fs := f\<rparr>) (map_err Io m)"

definition wal_file_paths :: "u64 \<Rightarrow> usize \<Rightarrow> (string \<times> string) option" where
  "wal_file_paths segno seg_size = (case XLogFileName PG_TLI segno seg_size of
       None \<Rightarrow> None | Some wal_file_name \<Rightarrow> Some (wal_file_name, wal_file_name @ ''.partial''))"

definition file_paths :: "u64 \<Rightarrow> (string \<times> string) phys_method" where
  "file_paths segno = unwrap (\<lambda>s. wal_file_paths segno (wal_seg_size s))"

text \<open>Fills with zeroes from a position, one block at a time.\<close>

function write_zeroes :: "inode \<Rightarrow> nat \<Rightarrow> nat \<Rightarrow> (fs, io_error, unit) rust" where
  "write_zeroes i pos count =
     (if count \<ge> 8192 then
        andthen (fs_write i pos (replicate 8192 0)) (\<lambda>_. write_zeroes i (pos + 8192) (count - 8192))
      else andthen (fs_write i pos (replicate count 0)) (\<lambda>_. may_fail (ret ())))"
  by auto
termination
  by (relation "measure (\<lambda>(i, pos, count). count)") auto

declare write_zeroes.simps [simp del]

definition fdatasync_file :: "inode \<Rightarrow> unit phys_method" where
  "fdatasync_file i = branch p_no_sync (ret ()) (phys_io (fs_sync i))"

definition ignore_not_found :: "sk_error \<Rightarrow> unit phys_method" where
  "ignore_not_found e = (if e = Io NotFound then ret () else bail e)"

definition open_or_create :: "u64 \<Rightarrow> (inode \<times> bool) phys_method" where
  "open_or_create segno =
     andthen (file_paths segno) (\<lambda>(wal_file_path, wal_file_partial_path).
     catch (andthen (phys_io (fs_open wal_file_path)) (\<lambda>file. ret (file, False))) (\<lambda>_.
     catch (andthen (phys_io (fs_open wal_file_partial_path)) (\<lambda>file. ret (file, True))) (\<lambda>_.
     andthen (phys_io (fs_open_create ''waltmp'')) (\<lambda>file.
     andthen (read (\<lambda>s. unat (wal_seg_size s))) (\<lambda>n.
     andthen (phys_io (write_zeroes file 0 n)) (\<lambda>_.
     andthen (read p_no_sync) (\<lambda>no_sync.
     andthen (catch (phys_io (durable_rename ''waltmp'' wal_file_partial_path (\<not> no_sync))) (\<lambda>e.
        andthen (catch (phys_io (fs_remove wal_file_partial_path)) ignore_not_found) (\<lambda>_. bail e))) (\<lambda>_.
     ret (file, True)))))))))"

definition take_file :: "(inode \<times> nat) option phys_method" where
  "take_file = andthen (read p_file) (\<lambda>f. andthen (update (\<lambda>s. s\<lparr>p_file := None\<rparr>)) (\<lambda>_. ret f))"

definition open_at :: "u64 \<Rightarrow> nat \<Rightarrow> (inode \<times> nat) phys_method" where
  "open_at segno xlogoff =
     andthen (open_or_create segno) (\<lambda>(file, is_partial).
     andthen (assert_that (\<lambda>_. is_partial)) (\<lambda>_.
     andthen (phys_io (may_fail (ret ()))) (\<lambda>_.
     ret (file, xlogoff))))"

definition write_in_segment :: "u64 \<Rightarrow> nat \<Rightarrow> byte list \<Rightarrow> unit phys_method" where
  "write_in_segment segno xlogoff buf =
     andthen take_file (\<lambda>f.
     andthen (case f of Some file \<Rightarrow> ret file | None \<Rightarrow> open_at segno xlogoff) (\<lambda>(file, pos).
     andthen (phys_io (fs_write file pos buf)) (\<lambda>_.
     andthen (phys_io (may_fail (ret ()))) (\<lambda>_.
     branch (\<lambda>s. xlogoff + length buf = unat (wal_seg_size s))
       (andthen (fdatasync_file file) (\<lambda>_.
        andthen (file_paths segno) (\<lambda>(wal_file_path, wal_file_partial_path).
        phys_io (fs_rename wal_file_partial_path wal_file_path))))
       (update (\<lambda>s. s\<lparr>p_file := Some (file, pos + length buf)\<rparr>))))))"

section \<open>Writing\<close>

text \<open>The bytes that fit the current segment.\<close>

definition bytes_write :: "nat \<Rightarrow> nat \<Rightarrow> nat \<Rightarrow> nat" where
  "bytes_write seg_size xlogoff len = (if xlogoff + len > seg_size then seg_size - xlogoff else len)"

lemma segment_offset_less: "Some x = segment_offset l sz \<Longrightarrow> unat x < unat sz"
  by (metis segment_offset_Some unat_mod_less)

function write_segments :: "byte list \<Rightarrow> unit phys_method" where
  "write_segments buf s =
     (if buf = [] then (Ok (), s)
      else case (segment_offset (write_lsn s) (wal_seg_size s), segment_number (write_lsn s) (wal_seg_size s)) of
          (Some xlogoff, Some segno) \<Rightarrow>
            (let n = bytes_write (unat (wal_seg_size s)) (unat xlogoff) (length buf) in
             case write_in_segment segno (unat xlogoff) (take n buf) s of
               (Ok _, t) \<Rightarrow> (case lsn_add (write_lsn t) (of_nat n) of
                   None \<Rightarrow> (Panic, t)
                 | Some l \<Rightarrow> write_segments (drop n buf) (t\<lparr>write_lsn := l\<rparr>))
             | (Err e, t) \<Rightarrow> (Err e, t)
             | (Panic, t) \<Rightarrow> (Panic, t))
        | _ \<Rightarrow> (Panic, s))"
  by auto
termination
  by (relation "measure (\<lambda>(buf, s). length buf)")
    (auto simp: bytes_write_def dest!: segment_offset_less)

declare write_segments.simps [simp del]

definition write_exact :: "lsn \<Rightarrow> byte list \<Rightarrow> unit phys_method" where
  "write_exact pos buf =
     andthen (run_if (\<lambda>s. write_lsn s \<noteq> pos)
       (andthen take_file (\<lambda>f.
        andthen (case f of Some (file, _) \<Rightarrow> fdatasync_file file | None \<Rightarrow> ret ()) (\<lambda>_.
        update (\<lambda>s. s\<lparr>write_lsn := pos\<rparr>))))) (\<lambda>_.
     write_segments buf)"

text \<open>Each poll that returns a record consumes input, so the loops over records end.\<close>

lemma complete_record_input:
  "wp (complete_record B bs) (\<lambda>_ d'. bs \<noteq> [] \<and> d_inputbuf d' = d_inputbuf d) (\<lambda>_ _. True) (\<lambda>_. True) d"
  by (auto simp: complete_record_def XLOG_RECORD_CRC_OFFS_def wp split: option.splits)

abbreviation eats :: "decoder \<Rightarrow> (lsn \<times> byte list) option option \<Rightarrow> decoder \<Rightarrow> bool" where
  "eats d r d' \<equiv> length (d_inputbuf d') \<le> length (d_inputbuf d) \<and>
     (\<forall>x. r = Some (Some x) \<longrightarrow> length (d_inputbuf d') < length (d_inputbuf d))"

lemma waiting_eats: "wp (waiting_step B) (eats d) (\<lambda>_ _. True) (\<lambda>_. True) d"
  unfolding waiting_step_def wp
  by (auto simp: wp split: option.splits intro!: wp_mono [OF complete_record_input])

lemma reassembling_eats: "wp (reassembling_step B r n) (eats d) (\<lambda>_ _. True) (\<lambda>_. True) d"
  using chunk_pos [of n "d_lsn d"] unfolding reassembling_step_def wp
  by (auto simp: wp split: option.splits intro!: wp_mono [OF complete_record_input])

lemma skipping_eats: "wp (skipping_step l) (eats d) (\<lambda>_ _. True) (\<lambda>_. True) d"
  unfolding skipping_step_def wp by (auto split: option.splits)

lemma page_contents_eats: "wp (page_contents B) (eats d) (\<lambda>_ _. True) (\<lambda>_. True) d"
  by (cases "d_state d")
    (simp_all only: wp_page_contents dec_state.case waiting_eats reassembling_eats skipping_eats)

lemma dec_round_eats: "wp (dec_round B) (eats d) (\<lambda>_ _. True) (\<lambda>_. True) d"
  unfolding dec_round_def wp
  by (rule wp_mono [OF page_boundary_input])
    (fastforce simp: wp intro: wp_mono [OF page_contents_eats])+

lemma poll_consumes:
  "poll_decode B d = (Ok (Some r), d') \<Longrightarrow> length (d_inputbuf d') < length (d_inputbuf d)"
proof -
  assume "poll_decode B d = (Ok (Some r), d')"
  then have poll: "poll_decode_internal B d = (Ok (Some r), d')"
    by (simp add: poll_decode_def fail_def split: if_splits)
  have "wp (poll_decode_internal B)
      (\<lambda>x d'. x \<noteq> None \<longrightarrow> length (d_inputbuf d') < length (d_inputbuf d)) (\<lambda>_ _. True) (\<lambda>_. True) d"
    by (rule poll_internal_induct [where I = "\<lambda>e. length (d_inputbuf e) \<le> length (d_inputbuf d)"])
      (auto intro!: wp_mono [OF dec_round_eats] split: option.splits)
  from wp_Ok [OF this poll] show ?thesis by simp
qed

function decode_records :: "wal_bindings \<Rightarrow> unit phys_method" where
  "decode_records B s = (case poll_decode B (p_decoder s) of
       (Ok None, d) \<Rightarrow> (Ok (), s\<lparr>p_decoder := d\<rparr>)
     | (Ok (Some (l, _)), d) \<Rightarrow> decode_records B (s\<lparr>p_decoder := d, write_record_lsn := l\<rparr>)
     | (Err _, d) \<Rightarrow> (Err WalDecode, s\<lparr>p_decoder := d\<rparr>)
     | (Panic, d) \<Rightarrow> (Panic, s\<lparr>p_decoder := d\<rparr>))"
  by auto
termination
  by (relation "measure (\<lambda>(B, s). length (d_inputbuf (p_decoder s)))") (auto intro: poll_consumes [OF sym])

declare decode_records.simps [simp del]

definition write_wal :: "wal_bindings \<Rightarrow> lsn \<Rightarrow> byte list \<Rightarrow> unit phys_method" where
  "write_wal B startpos buf =
     andthen (require (\<lambda>s. \<not> write_lsn s > startpos) RewritesWal) (\<lambda>_.
     andthen (require (\<lambda>s. \<not> (write_lsn s < startpos \<and> write_lsn s \<noteq> 0)) GapInWal) (\<lambda>_.
     andthen (write_exact startpos buf) (\<lambda>_.
     andthen (unwrap (\<lambda>s. available (p_decoder s))) (\<lambda>a.
     andthen (run_if (\<lambda>_. a \<noteq> startpos)
       (update (\<lambda>s. s\<lparr>p_decoder := decoder_new startpos (d_pg_version (p_decoder s))\<rparr>))) (\<lambda>_.
     andthen (update (\<lambda>s. s\<lparr>p_decoder := feed_bytes buf (p_decoder s)\<rparr>)) (\<lambda>_.
     decode_records B))))))"

section \<open>Flushing\<close>

definition flush_wal :: "unit phys_method" where
  "flush_wal =
     branch (\<lambda>s. flush_record_lsn s = write_record_lsn s)
       (ret ())
       (andthen take_file (\<lambda>f.
        andthen (case f of
            Some (file, pos) \<Rightarrow> andthen (fdatasync_file file) (\<lambda>_. update (\<lambda>s. s\<lparr>p_file := Some (file, pos)\<rparr>))
          | None \<Rightarrow> andthen (unwrap (\<lambda>s. segment_offset (write_lsn s) (wal_seg_size s))) (\<lambda>off.
                     require (\<lambda>_. off = 0) UnflushedNoFile)) (\<lambda>_.
        update (\<lambda>s. s\<lparr>flush_record_lsn := write_record_lsn s\<rparr>))))"

section \<open>Truncation and removal\<close>

fun remove_matching :: "usize \<Rightarrow> (u64 \<Rightarrow> bool) \<Rightarrow> string list \<Rightarrow> (fs, io_error, unit) rust" where
  "remove_matching seg_size remove_predicate [] = may_fail (ret ())"
| "remove_matching seg_size remove_predicate (fname # names) =
     andthen (may_fail (ret ())) (\<lambda>_.
     andthen (if \<not> IsXLogFileName fname \<and> \<not> IsPartialXLogFileName fname then ret ()
        else andthen (unwrap (\<lambda>_. XLogFromFileName fname seg_size)) (\<lambda>(segno, _).
          if remove_predicate segno then fs_remove fname else ret ())) (\<lambda>_.
     remove_matching seg_size remove_predicate names))"

definition remove_segments_from_disk :: "usize \<Rightarrow> (u64 \<Rightarrow> bool) \<Rightarrow> (fs, io_error, unit) rust" where
  "remove_segments_from_disk seg_size remove_predicate =
     andthen fs_names (remove_matching seg_size remove_predicate)"

definition truncate_wal :: "lsn \<Rightarrow> unit phys_method" where
  "truncate_wal end_pos =
     andthen (require (\<lambda>s. \<not> (write_lsn s \<noteq> 0 \<and> end_pos > write_lsn s)) TruncateNonWritten) (\<lambda>_.
     branch (\<lambda>s. is_truncated_after_restart s \<and> end_pos = write_lsn s \<and> end_pos = flush_record_lsn s)
       (ret ())
       (andthen take_file (\<lambda>f.
        andthen (case f of Some (file, _) \<Rightarrow> fdatasync_file file | None \<Rightarrow> ret ()) (\<lambda>_.
        andthen (unwrap (\<lambda>s. segment_offset end_pos (wal_seg_size s))) (\<lambda>xlogoff.
        andthen (unwrap (\<lambda>s. segment_number end_pos (wal_seg_size s))) (\<lambda>segno.
        andthen (read wal_seg_size) (\<lambda>seg_size.
        andthen (phys_io (remove_segments_from_disk seg_size (\<lambda>x. x > segno))) (\<lambda>_.
        andthen (open_or_create segno) (\<lambda>(file, is_partial).
        andthen (phys_io (may_fail (ret ()))) (\<lambda>_.
        andthen (phys_io (write_zeroes file (unat xlogoff) (unat seg_size - unat xlogoff))) (\<lambda>_.
        andthen (fdatasync_file file) (\<lambda>_.
        andthen (if is_partial then ret ()
           else andthen (file_paths segno) (\<lambda>(wal_file_path, wal_file_partial_path).
             phys_io (fs_rename wal_file_path wal_file_partial_path))) (\<lambda>_.
        update (\<lambda>s. s\<lparr>write_lsn := end_pos, write_record_lsn := end_pos, flush_record_lsn := end_pos,
          is_truncated_after_restart := True\<rparr>))))))))))))))"

definition remove_up_to :: "u64 \<Rightarrow> unit phys_method" where
  "remove_up_to segno_up_to =
     andthen (read wal_seg_size) (\<lambda>seg_size.
     phys_io (remove_segments_from_disk seg_size (\<lambda>x. x \<le> segno_up_to)))"

definition phys_close :: "unit phys_method" where
  "phys_close = andthen take_file (\<lambda>_. ret ())"

definition phys_ops :: "wal_bindings \<Rightarrow> phys wal_ops" where
  "phys_ops B = \<lparr>w_flush_lsn = flush_record_lsn, w_write_wal = write_wal B,
     w_flush_wal = flush_wal, w_truncate_wal = truncate_wal\<rparr>"

section \<open>Frames\<close>

text \<open>The state but for the file system and the open file.\<close>

definition cursor :: "phys \<Rightarrow> usize \<times> lsn \<times> lsn \<times> lsn \<times> decoder \<times> bool \<times> bool" where
  "cursor s = (wal_seg_size s, write_lsn s, write_record_lsn s, flush_record_lsn s, p_decoder s,
     p_no_sync s, is_truncated_after_restart s)"

lemma cursor_simps [simp]:
  "cursor (s\<lparr>p_fs := f\<rparr>) = cursor s" "cursor (s\<lparr>p_file := h\<rparr>) = cursor s"
  by (simp_all add: cursor_def)

abbreviation calm :: "('s, 'e, 'a) rust \<Rightarrow> bool" where
  "calm m \<equiv> keeps (\<lambda>_. True) (\<lambda>_ _. True) (\<lambda>_. False) m"

lemma calm_may_fail [keeps]: "calm m \<Longrightarrow> calm (may_fail m)"
  unfolding keeps_def by (auto intro!: wp_may_fail)

lemma calm_next_fault [keeps]: "calm next_fault"
  by (simp add: keeps_def wp split: list.splits)

lemma calm_case_option [keeps]:
  "(\<And>x. calm (f x)) \<Longrightarrow> calm n \<Longrightarrow> calm (case v of Some x \<Rightarrow> f x | None \<Rightarrow> n)"
  by (cases v) auto

lemma calm_add_file [keeps]: "calm (add_file name)"
  by (simp add: add_file_def keeps_def wp_def)

lemma calm_fs [keeps]:
  "calm (fs_open n)" "calm (fs_open_create n)" "calm (fs_write i off bs)" "calm (fs_sync i)"
  "calm fs_sync_dir" "calm (fs_rename n n')" "calm (fs_remove n)" "calm fs_names"
  unfolding fs_open_def fs_open_create_def fs_write_def fs_sync_def fs_sync_dir_def fs_rename_def
    fs_remove_def fs_names_def
  by (rule keeps TrueI | assumption)+

lemma calm_durable_rename [keeps]: "calm (durable_rename n n' b)"
  unfolding durable_rename_def fsync_async_opt_def fsync_async_def by (rule keeps TrueI)+

lemma calm_write_zeroes [keeps]: "calm (write_zeroes i pos n)"
  by (induction i pos n rule: write_zeroes.induct) (subst write_zeroes.simps, auto intro!: keeps)

lemma calm_remove_matching:
  assumes "\<And>f. IsXLogFileName f \<or> IsPartialXLogFileName f \<Longrightarrow> XLogFromFileName f sz \<noteq> None"
  shows "calm (remove_matching sz pr names)"
proof (induction names)
  case Nil
  show ?case by (auto intro!: keeps)
next
  case (Cons f names)
  with assms [of f] show ?case by (auto intro!: keeps split: prod.splits)
qed

lemma keeps_catch [keeps]:
  assumes "keeps I (\<lambda>_. I) F m" and "\<And>e. keeps I E F (h e)"
  shows "keeps I E F (catch m h)"
proof (rule keepsI)
  fix s
  assume "I s"
  with assms(1) have "wp m (\<lambda>_. I) (\<lambda>_. I) F s" by (rule keepsD)
  then show "wp (catch m h) (\<lambda>_. I) E F s"
    unfolding wp by (rule wp_mono) (use assms(2) in \<open>auto dest: keepsD\<close>)
qed

lemma keeps_phys_io [keeps]:
  assumes "calm m" and "\<And>s f. I s \<Longrightarrow> I (s\<lparr>p_fs := f\<rparr>)" and "\<And>s e. I s \<Longrightarrow> E e s"
  shows "keeps I E F (phys_io m)"
proof (rule keepsI)
  fix s
  assume "I s"
  have "wp m (\<lambda>_ _. True) (\<lambda>_ _. True) (\<lambda>_. False) (p_fs s)" using keepsD [OF assms(1)] by simp
  then show "wp (phys_io m) (\<lambda>_. I) E F s"
    unfolding phys_io_def wp by (rule wp_mono) (use assms(2,3) \<open>I s\<close> in auto)
qed

lemma keeps_case_option [keeps]:
  "(\<And>x. keeps I E F (f x)) \<Longrightarrow> keeps I E F n \<Longrightarrow> keeps I E F (case v of Some x \<Rightarrow> f x | None \<Rightarrow> n)"
  by (cases v) auto

lemma keeps_case_prod [keeps]: "(\<And>x y. keeps I E F (f x y)) \<Longrightarrow> keeps I E F (case p of (x, y) \<Rightarrow> f x y)"
  by (cases p) auto

lemma wal_file_paths_16M: "wal_file_paths segno 16777216 \<noteq> None"
  by (simp add: wal_file_paths_def XLogFileName_def XLogSegmentsPerXLogId_def)

lemma hex_val_less: "hex_val c = Some d \<Longrightarrow> d < 16"
  by (auto simp: hex_val_def Let_def split: if_splits)

lemma parse_digits_hex:
  "\<forall>c\<in>set ds. hex_val c \<noteq> None \<Longrightarrow> \<exists>n. parse_digits acc ds = Some n \<and> n < (acc + 1) * 16 ^ length ds"
proof (induction ds arbitrary: acc)
  case (Cons c ds)
  then obtain d where d: "hex_val c = Some d" by auto
  from Cons obtain n where n: "parse_digits (acc * 16 + d) ds = Some n" "n < (acc * 16 + d + 1) * 16 ^ length ds"
    by force
  have "acc * 16 + d + 1 \<le> (acc + 1) * 16" using hex_val_less [OF d] by simp
  then have "(acc * 16 + d + 1) * 16 ^ length ds \<le> (acc + 1) * 16 * 16 ^ length ds" by (rule mult_le_mono1)
  also have "\<dots> = (acc + 1) * 16 ^ length (c # ds)" by (simp add: algebra_simps)
  finally have "(acc * 16 + d + 1) * 16 ^ length ds \<le> (acc + 1) * 16 ^ length (c # ds)" .
  with n d show ?case by auto
qed simp

lemma from_str_radix16_hex:
  assumes "\<forall>c\<in>set ds. hex_val c \<noteq> None" and "length ds = 8"
  shows "from_str_radix16 ds \<noteq> (None :: u32 option)"
proof -
  obtain n where "parse_digits 0 ds = Some n" "n < 16 ^ 8"
    using parse_digits_hex [OF assms(1), of 0] assms(2) by auto
  moreover have "ds \<noteq> []" using assms(2) by auto
  ultimately show ?thesis using from_str_radix16_valid [of ds, where ?'a = 32] assms(1) by simp
qed

lemma XLogFromFileName_hex:
  assumes "IsXLogFileName (take 24 f)" and "24 \<le> length f"
  shows "XLogFromFileName f 16777216 \<noteq> None"
proof -
  have hex: "\<forall>c\<in>set (take 24 f). hex_val c \<noteq> None" using assms(1) by (simp add: IsXLogFileName_def list_all_iff)
  have "set (take 8 (drop k f)) \<subseteq> set (take 24 f)" if "k + 8 \<le> 24" for k
    using set_take_subset_set_take [of "k + 8" 24 f] that set_drop_subset [of k "take (k + 8) f"]
    by (auto simp: take_drop add.commute)
  then have "from_str_radix16 (take 8 (drop k f)) \<noteq> (None :: u32 option)" if "k + 8 \<le> 24" for k
    using hex that assms(2) by (intro from_str_radix16_hex) auto
  from this [of 0] this [of 8] this [of 16] show ?thesis
    using assms(2) by (auto simp: XLogFromFileName_def XLogSegmentsPerXLogId_def split: option.splits)
qed

lemma XLogFromFileName_16M:
  "IsXLogFileName f \<or> IsPartialXLogFileName f \<Longrightarrow> XLogFromFileName f 16777216 \<noteq> None"
proof (elim disjE)
  assume "IsXLogFileName f"
  then show ?thesis by (intro XLogFromFileName_hex) (auto simp: IsXLogFileName_def XLOG_FNAME_LEN_def)
next
  assume p: "IsPartialXLogFileName f"
  then have "length f = 32" by (auto simp: IsPartialXLogFileName_def IsXLogFileName_def XLOG_FNAME_LEN_def ends_with_def)
  with p show ?thesis by (intro XLogFromFileName_hex) (auto simp: IsPartialXLogFileName_def)
qed

abbreviation still :: "(usize \<times> lsn \<times> lsn \<times> lsn \<times> decoder \<times> bool \<times> bool) \<Rightarrow> 'a phys_method \<Rightarrow> bool" where
  "still c m \<equiv> keeps (\<lambda>s. cursor s = c) (\<lambda>_ s. cursor s = c) (\<lambda>_. False) m"

lemma still_file_paths [keeps]: "fst c = 16777216 \<Longrightarrow> still c (file_paths segno)"
  unfolding file_paths_def by (rule keeps) (auto simp: cursor_def wal_file_paths_16M)

lemma still_fdatasync_file [keeps]: "still c (fdatasync_file i)"
  unfolding fdatasync_file_def by (rule keeps | (simp; fail))+

lemma still_take_file [keeps]: "still c take_file"
  unfolding take_file_def by (rule keeps | (simp; fail))+

lemma still_open_or_create [keeps]: "fst c = 16777216 \<Longrightarrow> still c (open_or_create segno)"
  unfolding open_or_create_def ignore_not_found_def by (rule keeps | (simp; fail))+

lemma still_remove_segments [keeps]:
  "still c (phys_io (remove_segments_from_disk 16777216 pr))"
  unfolding remove_segments_from_disk_def
  by (rule keeps calm_remove_matching | (simp add: XLogFromFileName_16M; fail))+

lemma keeps_weaken: "keeps I E (\<lambda>_. False) m \<Longrightarrow> keeps I E F m"
  unfolding keeps_def by (auto elim!: wp_mono)

lemmas still_weaken = still_file_paths [THEN keeps_weaken] still_fdatasync_file [THEN keeps_weaken]
  still_take_file [THEN keeps_weaken] still_open_or_create [THEN keeps_weaken]

lemma write_in_segment_cursor:
  assumes "fst c = 16777216"
  shows "keeps (\<lambda>s. cursor s = c) (\<lambda>_ s. cursor s = c) (\<lambda>s. cursor s = c) (write_in_segment segno off buf)"
  unfolding write_in_segment_def open_at_def
  by (rule keeps still_weaken assms | (simp; fail))+

section \<open>Positions after a write\<close>

definition rest :: "phys \<Rightarrow> usize \<times> lsn \<times> lsn \<times> decoder \<times> bool \<times> bool" where
  "rest s = (wal_seg_size s, write_record_lsn s, flush_record_lsn s, p_decoder s, p_no_sync s,
     is_truncated_after_restart s)"

lemma rest_simps [simp]:
  "rest (s\<lparr>p_fs := f\<rparr>) = rest s" "rest (s\<lparr>p_file := h\<rparr>) = rest s" "rest (s\<lparr>write_lsn := l\<rparr>) = rest s"
  by (simp_all add: rest_def)

lemma cursor_rest: "cursor s = cursor t \<longleftrightarrow> rest s = rest t \<and> write_lsn s = write_lsn t"
  by (auto simp: cursor_def rest_def)

lemma wp_write_segments:
  "wp (write_segments buf) Q E F s =
     (if buf = [] then Q () s
      else case (segment_offset (write_lsn s) (wal_seg_size s), segment_number (write_lsn s) (wal_seg_size s)) of
          (Some off, Some segno) \<Rightarrow>
            (let n = bytes_write (unat (wal_seg_size s)) (unat off) (length buf) in
             wp (write_in_segment segno (unat off) (take n buf))
               (\<lambda>_ t. case lsn_add (write_lsn t) (of_nat n) of None \<Rightarrow> F t
                  | Some l \<Rightarrow> wp (write_segments (drop n buf)) Q E F (t\<lparr>write_lsn := l\<rparr>)) E F s)
        | _ \<Rightarrow> F s)"
  unfolding wp_def
  by (subst write_segments.simps) (auto simp: Let_def split: prod.splits outcome.splits option.splits)

lemma bytes_write_bounds:
  assumes "off < sz" and "0 < len"
  shows "0 < bytes_write sz off len" "bytes_write sz off len \<le> len" "off + bytes_write sz off len \<le> sz"
    "bytes_write sz off len < len \<Longrightarrow> off + bytes_write sz off len = sz"
  using assms by (auto simp: bytes_write_def split: if_splits)

lemma seg_ceil_to_end:
  assumes "x mod 16777216 + n = 16777216"
  shows "seg_ceil x \<le> x + n"
proof -
  have "x + n = 16777216 * (x div 16777216) + (x mod 16777216 + n)" by simp
  also have "\<dots> = 16777216 * (x div 16777216 + 1)" unfolding assms by simp
  finally have "x + n = 16777216 * (x div 16777216 + 1)" .
  then have "seg_ceil (x + n) = x + n" by (metis seg_ceil_multiple)
  then show ?thesis using seg_ceil_mono [of x "x + n"] by simp
qed

text \<open>A failed write stops where it was, or at the end of a segment.\<close>

lemma write_segments_positions:
  "wal_seg_size s = 16777216 \<Longrightarrow> wp (write_segments buf)
    (\<lambda>_ t. rest t = rest s \<and> unat (write_lsn t) = unat (write_lsn s) + length buf)
    (\<lambda>_ t. rest t = rest s \<and> (write_lsn t = write_lsn s \<or> seg_ceil (unat (write_lsn s)) \<le> unat (write_lsn t)))
    (\<lambda>t. rest t = rest s) s"
proof (induction "length buf" arbitrary: buf s rule: less_induct)
  case less
  show ?case
  proof (cases "buf = []")
    case True
    then show ?thesis by (subst wp_write_segments) simp
  next
    case False
    let ?w = "write_lsn s" and ?o = "unat (write_lsn s) mod 16777216"
    let ?n = "bytes_write 16777216 ?o (length buf)"
    have seg: "segment_offset ?w (wal_seg_size s) = Some (?w mod 16777216)"
      "segment_number ?w (wal_seg_size s) = Some (?w div 16777216)" "unat (?w mod 16777216) = ?o"
      using less.prems by (simp_all add: segment_offset_def segment_number_def unat_mod)
    note n = bytes_write_bounds [of ?o 16777216 "length buf"]
    have n: "0 < ?n" "?n \<le> length buf" "?o + ?n \<le> 16777216" "?n < length buf \<Longrightarrow> ?o + ?n = 16777216"
      using n False by simp_all
    have un: "unat (of_nat ?n :: u64) = ?n" using n(3) by (simp add: unat_of_nat)
    have step: "wp (write_segments (drop ?n buf))
      (\<lambda>_ t. rest t = rest s \<and> unat (write_lsn t) = unat ?w + length buf)
      (\<lambda>_ t. rest t = rest s \<and> (write_lsn t = ?w \<or> seg_ceil (unat ?w) \<le> unat (write_lsn t)))
      (\<lambda>t. rest t = rest s) (t\<lparr>write_lsn := l\<rparr>)"
      if "cursor t = cursor s" and "lsn_add (write_lsn t) (of_nat ?n) = Some l" for t l
    proof -
      have t: "rest t = rest s" "wal_seg_size t = 16777216" "write_lsn t = ?w"
        using that(1) less.prems by (auto simp: cursor_def rest_def)
      have l: "unat l = unat ?w + ?n" using lsn_add_unat [OF that(2)] t un by simp
      show ?thesis
      proof (cases "?n = length buf")
        case True
        with t l show ?thesis by (subst wp_write_segments) simp
      next
        case False
        with n have end_of: "seg_ceil (unat ?w) \<le> unat l" using seg_ceil_to_end [OF n(4)] l by simp
        show ?thesis
        proof (rule wp_mono [OF less.hyps [of "drop ?n buf" "t\<lparr>write_lsn := l\<rparr>"]])
          show "length (drop ?n buf) < length buf" using n False by simp
        qed (use t l n end_of seg_ceil_ge [of "unat l"] in \<open>auto intro: order_trans\<close>)
      qed
    qed
    have "wp (write_in_segment (?w div 16777216) ?o (take ?n buf))
      (\<lambda>_ t. cursor t = cursor s) (\<lambda>_ t. cursor t = cursor s) (\<lambda>t. cursor t = cursor s) s"
      using less.prems by (intro keepsD [OF write_in_segment_cursor]) (simp_all add: cursor_def)
    then show ?thesis
      unfolding wp_write_segments [of buf _ _ _ s] using False seg
      by (auto simp: Let_def less.prems cursor_rest split: option.splits intro: step elim!: wp_mono)
  qed
qed

section \<open>Positions after decoding\<close>

lemma wp_decode_records:
  "wp (decode_records B) Q E F s =
     wp (poll_decode B)
       (\<lambda>r d. case r of None \<Rightarrow> Q () (s\<lparr>p_decoder := d\<rparr>)
          | Some (l, _) \<Rightarrow> wp (decode_records B) Q E F (s\<lparr>p_decoder := d, write_record_lsn := l\<rparr>))
       (\<lambda>_ d. E WalDecode (s\<lparr>p_decoder := d\<rparr>)) (\<lambda>d. F (s\<lparr>p_decoder := d\<rparr>)) (p_decoder s)"
  unfolding wp_def
  by (subst decode_records.simps) (auto split: prod.splits outcome.splits option.splits)

text \<open>What the decoder knows of the positions when it needs more input.\<close>

definition decoded_to :: "wal_bindings \<Rightarrow> phys \<Rightarrow> bool" where
  "decoded_to B s = (dec_pos (p_decoder s) = unat (write_lsn s) \<and>
     unat (write_record_lsn s) \<le> frontier B (p_decoder s) \<and>
     unat (write_record_lsn s) \<le> seg_ceil (unat (write_lsn s)))"

definition hungry :: "wal_bindings \<Rightarrow> phys \<Rightarrow> bool" where
  "hungry B s = (dec_pos (p_decoder s) \<le> frontier B (p_decoder s))"

lemma frontier_skipping:
  "d_state d = SkippingEverything l \<Longrightarrow> d_lsn d \<le> l \<Longrightarrow> frontier B d = unat l"
  by (simp add: frontier_def word_le_nat_alt)

lemma decode_records_positions:
  assumes ok: "bindings_ok B"
  shows "decoded_to B s \<Longrightarrow> wp (decode_records B)
    (\<lambda>_ t. decoded_to B t \<and> hungry B t \<and> write_record_lsn s \<le> write_record_lsn t \<and>
       wal_seg_size t = wal_seg_size s \<and> flush_record_lsn t = flush_record_lsn s)
    (\<lambda>e t. e = WalDecode \<and> flush_record_lsn t = flush_record_lsn s)
    (\<lambda>t. flush_record_lsn t = flush_record_lsn s) s"
proof (induction "length (d_inputbuf (p_decoder s))" arbitrary: s rule: less_induct)
  case less
  let ?Q = "\<lambda>s t. decoded_to B t \<and> hungry B t \<and> write_record_lsn s \<le> write_record_lsn t \<and>
       wal_seg_size t = wal_seg_size s \<and> flush_record_lsn t = flush_record_lsn s"
  let ?E = "\<lambda>s e t. e = WalDecode \<and> flush_record_lsn t = flush_record_lsn s"
  let ?F = "\<lambda>s t. flush_record_lsn t = flush_record_lsn s"
  let ?d = "p_decoder s"
  have fin: "?Q s (s\<lparr>p_decoder := d'\<rparr>)" if "poll_post B ?d None d'" for d'
    using that less.prems by (auto simp: decoded_to_def hungry_def)
  have more: "wp (decode_records B) (\<lambda>_. ?Q s) (?E s) (?F s) (s\<lparr>p_decoder := d', write_record_lsn := l\<rparr>)"
    (is "wp _ _ _ _ ?t")
    if p: "poll_post B ?d (Some (l, r)) d'" and len: "length (d_inputbuf d') < length (d_inputbuf ?d)" for l r d'
  proof (cases "d_lsn d' \<le> l")
    case True
    from True p have f: "frontier B d' = unat l" by (simp add: frontier_skipping)
    have le: "write_record_lsn s \<le> l"
      using less.prems p True by (simp add: decoded_to_def word_le_nat_alt)
    have "unat l \<le> seg_ceil (unat (write_lsn s))"
      using p True less.prems seg_ceil_mono [of "unat (d_lsn d')" "unat (write_lsn s)"]
      by (simp add: decoded_to_def dec_pos_def)
    then have "decoded_to B ?t" using p less.prems f by (simp add: decoded_to_def)
    from less.hyps [OF _ this] len le show ?thesis by (auto elim!: wp_mono intro: order_trans)
  next
    case False
    with p have "wp (poll_decode B) (\<lambda>_ _. False) (\<lambda>_ _. True) (\<lambda>_. True) d'"
      by (intro poll_after_wrap) auto
    then show ?thesis by (subst wp_decode_records) (auto elim!: wp_mono)
  qed
  have "wp (poll_decode B) (\<lambda>r d'. poll_post B ?d r d' \<and>
      (r \<noteq> None \<longrightarrow> length (d_inputbuf d') < length (d_inputbuf ?d))) (\<lambda>_ _. True) (\<lambda>_. True) ?d"
    using poll_decode_post [OF ok, of ?d] poll_consumes [of B ?d]
    by (auto simp: wp_def split: prod.splits outcome.splits)
  then show ?case
    unfolding wp_decode_records [of B _ _ _ s]
    by (rule wp_mono) (use fin more in \<open>auto split: option.splits\<close>)
qed

section \<open>The invariant of the positions\<close>

text \<open>
  A record may end in padding that has not arrived, so \<open>write_record_lsn\<close> can be ahead of
  \<open>write_lsn\<close>, but then the decoder is in the middle of skipping it.
\<close>

definition phys_inv :: "wal_bindings \<Rightarrow> phys \<Rightarrow> bool" where
  "phys_inv B s = (wal_seg_size s = 16777216 \<and> flush_record_lsn s \<le> write_record_lsn s \<and> hungry B s \<and>
     unat (write_record_lsn s) \<le> seg_ceil (unat (write_lsn s)) \<and>
     (write_record_lsn s \<le> write_lsn s \<or> decoded_to B s))"

lemma unread_bound:
  assumes "bindings_ok B"
  shows "unread B l x < 2 ^ 64"
proof (cases x)
  case (ReassemblingRecord r n)
  moreover have "unat n < 2 ^ 32" using unsigned_less [of n, where ?'a = nat] by simp
  ultimately show ?thesis using assms by (simp add: header_size_def bindings_ok_def)
next
  case (SkippingEverything u)
  then show ?thesis using unat_lt [of u] by simp
qed (use assms in \<open>simp add: header_size_def bindings_ok_def\<close>)

lemma available_dec_pos:
  assumes "bindings_ok B" and "hungry B s" and "available (p_decoder s) = Some a"
  shows "dec_pos (p_decoder s) = unat a"
proof -
  have "length (d_inputbuf (p_decoder s)) < 2 ^ 64"
    using assms(2) unread_bound [OF assms(1)] by (auto simp: hungry_def dec_pos_def frontier_def intro: order.strict_trans1)
  then show ?thesis
    using lsn_add_unat [OF assms(3) [unfolded available_def]] by (simp add: dec_pos_def unat_of_nat)
qed

lemma storage_feed_simps [simp]:
  "dec_pos (feed_bytes bs d) = dec_pos d + length bs" "frontier B (feed_bytes bs d) = frontier B d"
  by (simp_all add: feed_bytes_def dec_pos_def frontier_def)

lemma decoder_new_simps [simp]:
  "dec_pos (decoder_new l v) = unat l" "unat l \<le> frontier B (decoder_new l v)"
  by (simp_all add: decoder_new_def dec_pos_def frontier_def)

lemma seg_ceil_0 [simp]: "seg_ceil 0 = 0"
  using seg_ceil_multiple [of 0] by simp

text \<open>Before the bytes are written: either the position is the same, or nothing was written yet.\<close>

definition writable_at :: "lsn \<Rightarrow> phys \<Rightarrow> bool" where
  "writable_at p s = (write_lsn s = p \<or> write_lsn s = 0)"

lemma write_exact_positions:
  assumes inv: "phys_inv B s" and at: "writable_at p s"
  shows "wp (write_exact p buf)
    (\<lambda>_ t. rest t = rest s \<and> unat (write_lsn t) = unat p + length buf)
    (\<lambda>_ t. phys_inv B t \<and> flush_record_lsn t = flush_record_lsn s)
    (\<lambda>t. flush_record_lsn t = flush_record_lsn s) s"
proof -
  have seg: "fst (cursor s) = 16777216" using inv by (simp add: phys_inv_def cursor_def)
  have keep: "phys_inv B t \<and> flush_record_lsn t = flush_record_lsn s" if "cursor t = cursor s" for t
    using that inv by (auto simp: phys_inv_def cursor_def hungry_def decoded_to_def)
  have failed: "phys_inv B t \<and> flush_record_lsn t = flush_record_lsn s"
    if t: "rest t = rest s" and w: "write_lsn t = p \<or> seg_ceil (unat p) \<le> unat (write_lsn t)" for t
  proof (cases "write_lsn t = write_lsn s")
    case True
    with t have "cursor t = cursor s" by (simp add: cursor_rest)
    then show ?thesis by (rule keep)
  next
    case False
    have "unat (write_record_lsn s) \<le> unat (write_lsn t)"
      using inv at w False seg_ceil_ge [of "unat p"] by (auto simp: phys_inv_def writable_at_def)
    then show ?thesis
      using t inv seg_ceil_ge [of "unat (write_lsn t)"]
      by (auto simp: phys_inv_def rest_def hungry_def word_le_nat_alt)
  qed
  have move: "wp (run_if (\<lambda>s. write_lsn s \<noteq> p)
       (andthen take_file (\<lambda>f.
        andthen (case f of Some (file, _) \<Rightarrow> fdatasync_file file | None \<Rightarrow> ret ()) (\<lambda>_.
        update (\<lambda>s. s\<lparr>write_lsn := p\<rparr>)))))
      (\<lambda>_ t. rest t = rest s \<and> write_lsn t = p) (\<lambda>_ t. cursor t = cursor s) (\<lambda>_. False) s"
  proof -
    have "wp (andthen take_file (\<lambda>f. case f of Some (file, _) \<Rightarrow> fdatasync_file file | None \<Rightarrow> ret ()))
        (\<lambda>_ t. cursor t = cursor s) (\<lambda>_ t. cursor t = cursor s) (\<lambda>_. False) s"
      by (rule keepsD [where I = "\<lambda>t. cursor t = cursor s"]) (rule keeps refl)+
    then show ?thesis
      unfolding wp by (auto simp: cursor_rest elim!: wp_mono split: option.splits)
  qed
  show ?thesis
    unfolding write_exact_def wp_andthen [of "run_if _ _"]
  proof (rule wp_mono [OF move])
    fix t
    assume t: "rest t = rest s \<and> write_lsn t = p"
    then have "wal_seg_size t = 16777216" using seg by (auto simp: rest_def cursor_def)
    from write_segments_positions [OF this, of buf]
    show "wp (write_segments buf)
      (\<lambda>_ t. rest t = rest s \<and> unat (write_lsn t) = unat p + length buf)
      (\<lambda>_ t. phys_inv B t \<and> flush_record_lsn t = flush_record_lsn s)
      (\<lambda>t. flush_record_lsn t = flush_record_lsn s) t"
    proof (rule wp_mono)
      fix u
      assume "rest u = rest t \<and> (write_lsn u = write_lsn t \<or> seg_ceil (unat (write_lsn t)) \<le> unat (write_lsn u))"
      then show "phys_inv B u \<and> flush_record_lsn u = flush_record_lsn s"
        using t by (intro failed) auto
    qed (use t in \<open>auto simp: rest_def\<close>)
  qed (rule keep, assumption, blast)
qed

lemma decoded_to_after_write:
  assumes ok: "bindings_ok B" and inv: "phys_inv B s" and at: "writable_at p s"
    and t: "rest t = rest s" "unat (write_lsn t) = unat p + length buf"
    and a: "available (p_decoder s) = Some a"
  shows "decoded_to B (t\<lparr>p_decoder := feed_bytes buf
    (if a \<noteq> p then decoder_new p v else p_decoder s)\<rparr>)"
proof -
  have r: "write_record_lsn t = write_record_lsn s" using t(1) by (simp add: rest_def)
  have pos: "dec_pos (p_decoder s) = unat a"
    using available_dec_pos [OF ok _ a] inv by (simp add: phys_inv_def)
  have small: "unat (write_record_lsn s) \<le> unat p" if "a \<noteq> p"
    using inv at pos that
    by (auto simp: phys_inv_def writable_at_def decoded_to_def word_le_nat_alt word_unat_eq_iff)
  have front: "unat (write_record_lsn s) \<le> frontier B (p_decoder s)" if "a = p"
    using inv at pos that
    by (auto simp: phys_inv_def writable_at_def decoded_to_def hungry_def word_le_nat_alt)
  have "unat (write_lsn s) \<le> unat (write_lsn t)" using at t(2) by (auto simp: writable_at_def)
  then have "unat (write_record_lsn s) \<le> seg_ceil (unat (write_lsn t))"
    using inv seg_ceil_mono [of "unat (write_lsn s)" "unat (write_lsn t)"] by (auto simp: phys_inv_def)
  then show ?thesis
    using t(2) pos small front order_trans [OF _ decoder_new_simps(2)] by (auto simp: decoded_to_def r)
qed

lemma wp_write_wal:
  assumes "writable_at p s" and "wp (write_exact p buf) (\<lambda>_ t. case available (p_decoder t) of
        Some a \<Rightarrow> wp (decode_records B) Q E F (t\<lparr>p_decoder := feed_bytes buf
          (if a \<noteq> p then decoder_new p (d_pg_version (p_decoder t)) else p_decoder t)\<rparr>)
      | None \<Rightarrow> F t) E F s"
  shows "wp (write_wal B p buf) Q E F s"
proof -
  have "wp (write_exact p buf) (\<lambda>_. wp (unwrap (\<lambda>s. available (p_decoder s)))
      (\<lambda>a. wp (andthen (run_if (\<lambda>_. a \<noteq> p)
         (update (\<lambda>s. s\<lparr>p_decoder := decoder_new p (d_pg_version (p_decoder s))\<rparr>))) (\<lambda>_.
        andthen (update (\<lambda>s. s\<lparr>p_decoder := feed_bytes buf (p_decoder s)\<rparr>)) (\<lambda>_. decode_records B)))
       Q E F) E F) E F s"
    by (rule wp_mono [OF assms(2)]) (auto simp: wp split: option.splits if_splits)
  moreover have "\<not> p < write_lsn s" "\<not> (write_lsn s < p \<and> write_lsn s \<noteq> 0)"
    using assms(1) by (auto simp: writable_at_def)
  ultimately show ?thesis
    unfolding write_wal_def wp_andthen wp_require by (simp only: not_False_eq_True if_True)
qed

lemma write_wal_positions:
  assumes ok: "bindings_ok B" and inv: "phys_inv B s"
  shows "wp (write_wal B p buf)
    (\<lambda>_ t. phys_inv B t \<and> flush_record_lsn t = flush_record_lsn s)
    (\<lambda>e t. (e \<noteq> WalDecode \<longrightarrow> phys_inv B t) \<and> flush_record_lsn t = flush_record_lsn s)
    (\<lambda>t. flush_record_lsn t = flush_record_lsn s) s"
proof (cases "writable_at p s")
  case False
  with inv show ?thesis by (auto simp: write_wal_def wp writable_at_def)
next
  case True
  let ?Q = "\<lambda>t. phys_inv B t \<and> flush_record_lsn t = flush_record_lsn s"
  let ?E = "\<lambda>e t. (e \<noteq> WalDecode \<longrightarrow> phys_inv B t) \<and> flush_record_lsn t = flush_record_lsn s"
  let ?F = "\<lambda>t. flush_record_lsn t = flush_record_lsn s"
  have decode: "wp (decode_records B) (\<lambda>_. ?Q) ?E ?F (t\<lparr>p_decoder := d\<rparr>)"
    if "rest t = rest s" "decoded_to B (t\<lparr>p_decoder := d\<rparr>)" for t d
    by (rule wp_mono [OF decode_records_positions [OF ok that(2)]])
      (use that(1) inv in \<open>auto simp: phys_inv_def rest_def decoded_to_def\<close>)
  have "wp (write_exact p buf) (\<lambda>_ t. case available (p_decoder t) of
        Some a \<Rightarrow> wp (decode_records B) (\<lambda>_. ?Q) ?E ?F (t\<lparr>p_decoder := feed_bytes buf
          (if a \<noteq> p then decoder_new p (d_pg_version (p_decoder t)) else p_decoder t)\<rparr>)
      | None \<Rightarrow> ?F t) ?E ?F s"
  proof (rule wp_mono [OF write_exact_positions [OF inv True]])
    fix t
    assume t: "rest t = rest s \<and> unat (write_lsn t) = unat p + length buf"
    then have d: "p_decoder t = p_decoder s" by (simp add: rest_def)
    show "case available (p_decoder t) of
        Some a \<Rightarrow> wp (decode_records B) (\<lambda>_. ?Q) ?E ?F (t\<lparr>p_decoder := feed_bytes buf
          (if a \<noteq> p then decoder_new p (d_pg_version (p_decoder t)) else p_decoder t)\<rparr>)
      | None \<Rightarrow> ?F t"
    proof (cases "available (p_decoder s)")
      case None
      with t d show ?thesis by (simp add: rest_def)
    next
      case (Some a)
      show ?thesis
        unfolding d Some option.case
        by (rule decode [OF _ decoded_to_after_write [OF ok inv True _ _ Some]]) (use t in auto)
    qed
  qed auto
  then show ?thesis by (rule wp_write_wal [OF True])
qed

lemma phys_inv_cursor: "cursor t = cursor s \<Longrightarrow> phys_inv B s \<Longrightarrow> phys_inv B t \<and> flush_record_lsn t = flush_record_lsn s"
  by (auto simp: phys_inv_def cursor_def hungry_def decoded_to_def)

text \<open>Methods that touch only files and end in one assignment \<open>g\<close> to the other fields.\<close>

definition lands :: "(usize \<times> lsn \<times> lsn \<times> lsn \<times> decoder \<times> bool \<times> bool) \<Rightarrow> (phys \<Rightarrow> phys) \<Rightarrow> 'a phys_method \<Rightarrow> bool" where
  "lands c g m = (\<forall>s. cursor s = c \<longrightarrow>
     wp m (\<lambda>_ t. \<exists>u. cursor u = c \<and> t = g u) (\<lambda>_ t. cursor t = c) (\<lambda>_. False) s)"

lemma lands_update: "lands c g (update g)"
  by (auto simp: lands_def wp)

lemma lands_andthen:
  assumes "still c m" and "\<And>x. lands c g (f x)"
  shows "lands c g (andthen m f)"
  unfolding lands_def wp_andthen
proof (intro allI impI)
  fix s
  assume "cursor s = c"
  with keepsD [OF assms(1)] have "wp m (\<lambda>_ t. cursor t = c) (\<lambda>_ t. cursor t = c) (\<lambda>_. False) s" by blast
  then show "wp m (\<lambda>x. wp (f x) (\<lambda>_ t. \<exists>u. cursor u = c \<and> t = g u) (\<lambda>_ t. cursor t = c) (\<lambda>_. False))
      (\<lambda>_ t. cursor t = c) (\<lambda>_. False) s"
    by (rule wp_mono) (use assms(2) in \<open>auto simp: lands_def\<close>)
qed

lemma lands_seg_size:
  "fst c = 16777216 \<Longrightarrow> lands c g (f 16777216) \<Longrightarrow> lands c g (andthen (read wal_seg_size) f)"
  by (auto simp: lands_def wp cursor_def)

lemma lands_case_prod: "(\<And>x y. lands c g (f x y)) \<Longrightarrow> lands c g (case p of (x, y) \<Rightarrow> f x y)"
  by (cases p) auto

lemmas lands_intros = lands_seg_size lands_andthen lands_update lands_case_prod

lemma still_segment [keeps]:
  assumes "fst c = 16777216"
  shows "still c (unwrap (\<lambda>s. segment_offset (write_lsn s) (wal_seg_size s)))"
    "still c (unwrap (\<lambda>s. segment_offset p (wal_seg_size s)))"
    "still c (unwrap (\<lambda>s. segment_number p (wal_seg_size s)))"
  by (rule keeps; use assms in \<open>auto simp: cursor_def segment_offset_def segment_number_def\<close>)+

lemma flush_lands:
  assumes "fst c = 16777216"
  shows "lands c (\<lambda>s. s\<lparr>flush_record_lsn := write_record_lsn s\<rparr>) (andthen take_file (\<lambda>f.
        andthen (case f of
            Some (file, pos) \<Rightarrow> andthen (fdatasync_file file) (\<lambda>_. update (\<lambda>s. s\<lparr>p_file := Some (file, pos)\<rparr>))
          | None \<Rightarrow> andthen (unwrap (\<lambda>s. segment_offset (write_lsn s) (wal_seg_size s))) (\<lambda>off.
                     require (\<lambda>_. off = 0) UnflushedNoFile)) (\<lambda>_.
        update (\<lambda>s. s\<lparr>flush_record_lsn := write_record_lsn s\<rparr>))))"
  by (rule lands_intros keeps assms | (simp; fail))+

lemma flush_wal_positions:
  assumes inv: "phys_inv B s"
  shows "wp flush_wal
    (\<lambda>_ t. phys_inv B t \<and> flush_record_lsn t = write_record_lsn s \<and> write_record_lsn t = write_record_lsn s)
    (\<lambda>_ t. phys_inv B t \<and> flush_record_lsn t = flush_record_lsn s) (\<lambda>_. False) s"
proof (cases "flush_record_lsn s = write_record_lsn s")
  case True
  with inv show ?thesis by (simp add: flush_wal_def wp)
next
  case False
  have "fst (cursor s) = 16777216" using inv by (simp add: phys_inv_def cursor_def)
  from flush_lands [OF this] False
  have "wp flush_wal (\<lambda>_ t. \<exists>u. cursor u = cursor s \<and> t = u\<lparr>flush_record_lsn := write_record_lsn u\<rparr>)
      (\<lambda>_ t. cursor t = cursor s) (\<lambda>_. False) s"
    unfolding flush_wal_def wp_branch lands_def by simp
  then show ?thesis
  proof (rule wp_mono)
    fix t
    assume "\<exists>u. cursor u = cursor s \<and> t = u\<lparr>flush_record_lsn := write_record_lsn u\<rparr>"
    then show "phys_inv B t \<and> flush_record_lsn t = write_record_lsn s \<and> write_record_lsn t = write_record_lsn s"
      using inv by (auto simp: phys_inv_def cursor_def hungry_def decoded_to_def)
  qed (rule phys_inv_cursor [OF _ inv], assumption, assumption)
qed

lemma truncate_lands:
  assumes "fst c = 16777216"
  shows "lands c (\<lambda>s. s\<lparr>write_lsn := p, write_record_lsn := p, flush_record_lsn := p,
          is_truncated_after_restart := True\<rparr>)
       (andthen take_file (\<lambda>f.
        andthen (case f of Some (file, _) \<Rightarrow> fdatasync_file file | None \<Rightarrow> ret ()) (\<lambda>_.
        andthen (unwrap (\<lambda>s. segment_offset p (wal_seg_size s))) (\<lambda>xlogoff.
        andthen (unwrap (\<lambda>s. segment_number p (wal_seg_size s))) (\<lambda>segno.
        andthen (read wal_seg_size) (\<lambda>seg_size.
        andthen (phys_io (remove_segments_from_disk seg_size (\<lambda>x. x > segno))) (\<lambda>_.
        andthen (open_or_create segno) (\<lambda>(file, is_partial).
        andthen (phys_io (may_fail (ret ()))) (\<lambda>_.
        andthen (phys_io (write_zeroes file (unat xlogoff) (unat seg_size - unat xlogoff))) (\<lambda>_.
        andthen (fdatasync_file file) (\<lambda>_.
        andthen (if is_partial then ret ()
           else andthen (file_paths segno) (\<lambda>(wal_file_path, wal_file_partial_path).
             phys_io (fs_rename wal_file_path wal_file_partial_path))) (\<lambda>_.
        update (\<lambda>s. s\<lparr>write_lsn := p, write_record_lsn := p, flush_record_lsn := p,
          is_truncated_after_restart := True\<rparr>)))))))))))))"
  by (rule lands_intros still_remove_segments keeps assms | (simp; fail))+

lemma truncate_wal_positions:
  assumes inv: "phys_inv B s"
  shows "wp (truncate_wal p)
    (\<lambda>_ t. phys_inv B t \<and> flush_record_lsn t = p)
    (\<lambda>_ t. phys_inv B t \<and> flush_record_lsn t = flush_record_lsn s) (\<lambda>_. False) s"
proof (cases "(write_lsn s \<noteq> 0 \<and> p > write_lsn s) \<or>
    (is_truncated_after_restart s \<and> p = write_lsn s \<and> p = flush_record_lsn s)")
  case True
  with inv show ?thesis by (auto simp: truncate_wal_def wp)
next
  case False
  have "fst (cursor s) = 16777216" using inv by (simp add: phys_inv_def cursor_def)
  from truncate_lands [OF this, of p] False
  have "wp (truncate_wal p) (\<lambda>_ t. \<exists>u. cursor u = cursor s \<and> t = u\<lparr>write_lsn := p, write_record_lsn := p,
        flush_record_lsn := p, is_truncated_after_restart := True\<rparr>)
      (\<lambda>_ t. cursor t = cursor s) (\<lambda>_. False) s"
    unfolding truncate_wal_def wp_branch wp_andthen [of "require _ _"] wp_require lands_def by auto
  then show ?thesis
  proof (rule wp_mono)
    fix t
    assume "\<exists>u. cursor u = cursor s \<and> t = u\<lparr>write_lsn := p, write_record_lsn := p,
        flush_record_lsn := p, is_truncated_after_restart := True\<rparr>"
    then show "phys_inv B t \<and> flush_record_lsn t = p"
      using inv seg_ceil_ge [of "unat p"] by (auto simp: phys_inv_def cursor_def hungry_def)
  qed (rule phys_inv_cursor [OF _ inv], assumption, assumption)
qed

section \<open>The contract\<close>

locale wal_format =
  fixes B :: wal_bindings
  assumes bindings: "bindings_ok B"

sublocale wal_format \<subseteq> phys: wal_storage "phys_ops B" "phys_inv B"
proof
  fix s p bs
  assume inv: "phys_inv B s"
  show "wp (w_write_wal (phys_ops B) p bs)
      (\<lambda>_ w'. phys_inv B w' \<and> w_flush_lsn (phys_ops B) w' = w_flush_lsn (phys_ops B) s)
      (\<lambda>e w'. (e \<noteq> WalDecode \<longrightarrow> phys_inv B w') \<and> w_flush_lsn (phys_ops B) w' = w_flush_lsn (phys_ops B) s)
      (\<lambda>w'. w_flush_lsn (phys_ops B) w' = w_flush_lsn (phys_ops B) s) s"
    using write_wal_positions [OF bindings inv, of p bs] by (simp add: phys_ops_def)
  have "flush_record_lsn s \<le> write_record_lsn s" using inv by (simp add: phys_inv_def)
  then show "wp (w_flush_wal (phys_ops B))
      (\<lambda>_ w'. phys_inv B w' \<and> w_flush_lsn (phys_ops B) s \<le> w_flush_lsn (phys_ops B) w')
      (\<lambda>_ w'. phys_inv B w' \<and> w_flush_lsn (phys_ops B) w' = w_flush_lsn (phys_ops B) s) (\<lambda>_. False) s"
    unfolding phys_ops_def wal_ops.select_convs by (intro wp_mono [OF flush_wal_positions [OF inv]]) auto
  show "wp (w_truncate_wal (phys_ops B) p)
      (\<lambda>_ w'. phys_inv B w' \<and> w_flush_lsn (phys_ops B) w' = p)
      (\<lambda>_ w'. phys_inv B w' \<and> w_flush_lsn (phys_ops B) w' = w_flush_lsn (phys_ops B) s) (\<lambda>_. False) s"
    using truncate_wal_positions [OF inv, of p] by (simp add: phys_ops_def)
qed

interpretation example_wal: wal_format example_bindings
  by unfold_locales (simp add: bindings_ok_def example_bindings_def)

end
