(* ===== verification/Reference_Codec.thy ===== *)
theory Reference_Codec
  imports Wire
begin

text \<open>
  A small self-delimiting binary codec. The derived \<open>bincode\<close> codecs of the sources are
  parameters of the model; these combinators build concrete ones, which show that the laws
  asked of the parameters can be met.
\<close>

type_synonym 'a codec = "('a \<Rightarrow> byte list) \<times> (byte list \<Rightarrow> ('a \<times> byte list) option)"

definition codec_ok :: "'a codec \<Rightarrow> bool" where
  "codec_ok c = (\<forall>x rest. snd c (fst c x @ rest) = Some (x, rest))"

definition c_word :: "'a::len word codec" where
  "c_word = (\<lambda>w. to_le_bytes w,
     \<lambda>bs. Some (from_le_bytes (take (LENGTH('a) div 8) bs), drop (LENGTH('a) div 8) bs))"

definition c_pair :: "'a codec \<Rightarrow> 'b codec \<Rightarrow> ('a \<times> 'b) codec" where
  "c_pair c d = (\<lambda>(x, y). fst c x @ fst d y,
     \<lambda>bs. case snd c bs of None \<Rightarrow> None
        | Some (x, t) \<Rightarrow> (case snd d t of None \<Rightarrow> None | Some (y, u) \<Rightarrow> Some ((x, y), u)))"

fun dec_list :: "(byte list \<Rightarrow> ('a \<times> byte list) option) \<Rightarrow> nat \<Rightarrow> byte list \<Rightarrow> ('a list \<times> byte list) option" where
  "dec_list d 0 bs = None"
| "dec_list d (Suc k) [] = None"
| "dec_list d (Suc k) (b # bs) = (if b = 0 then Some ([], bs)
     else case d bs of None \<Rightarrow> None
        | Some (x, t) \<Rightarrow> (case dec_list d k t of None \<Rightarrow> None | Some (xs, u) \<Rightarrow> Some (x # xs, u)))"

definition c_list :: "'a codec \<Rightarrow> 'a list codec" where
  "c_list c = (\<lambda>xs. concat (map (\<lambda>x. 1 # fst c x) xs) @ [0], \<lambda>bs. dec_list (snd c) (Suc (length bs)) bs)"

definition c_iso :: "('b \<Rightarrow> 'a) \<Rightarrow> ('a \<Rightarrow> 'b) \<Rightarrow> 'a codec \<Rightarrow> 'b codec" where
  "c_iso f g c = (fst c \<circ> f, \<lambda>bs. map_option (\<lambda>(x, t). (g x, t)) (snd c bs))"

lemma codec_ok_word: "8 dvd LENGTH('a) \<Longrightarrow> codec_ok (c_word :: 'a::len word codec)"
  by (simp add: codec_ok_def c_word_def from_to_le_bytes)

lemma codec_ok_pair: "codec_ok c \<Longrightarrow> codec_ok d \<Longrightarrow> codec_ok (c_pair c d)"
  by (simp add: codec_ok_def c_pair_def)

lemma dec_list_enc:
  "codec_ok c \<Longrightarrow> length xs < k \<Longrightarrow>
     dec_list (snd c) k (concat (map (\<lambda>x. 1 # fst c x) xs) @ 0 # rest) = Some (xs, rest)"
proof (induction xs arbitrary: k)
  case Nil
  then show ?case by (cases k) auto
next
  case (Cons x xs)
  then show ?case by (cases k) (auto simp: codec_ok_def)
qed

lemma enc_list_length: "length xs \<le> length (concat (map (\<lambda>x. 1 # f x) xs))"
  by (induction xs) auto

lemma codec_ok_list: "codec_ok c \<Longrightarrow> codec_ok (c_list c)"
proof -
  assume ok: "codec_ok c"
  have "length xs < Suc (length (concat (map (\<lambda>x. 1 # fst c x) xs) @ [0] @ rest))" for xs rest
    using enc_list_length [of xs "fst c"] by simp
  with dec_list_enc [OF ok] show ?thesis by (simp add: codec_ok_def c_list_def)
qed

lemma codec_ok_iso: "codec_ok c \<Longrightarrow> (\<And>x. g (f x) = x) \<Longrightarrow> codec_ok (c_iso f g c)"
  by (simp add: codec_ok_def c_iso_def)

lemmas codec_ok = codec_ok_word codec_ok_pair codec_ok_list codec_ok_iso

text \<open>Decoding a whole slice.\<close>

definition des_all :: "'a codec \<Rightarrow> byte list \<Rightarrow> 'a option" where
  "des_all c bs = (case snd c bs of Some (x, []) \<Rightarrow> Some x | _ \<Rightarrow> None)"

lemma des_all_enc: "codec_ok c \<Longrightarrow> des_all c (fst c x) = Some x"
  unfolding codec_ok_def des_all_def by (metis (no_types, lifting) append_Nil2 list.case(1) old.prod.case option.case(2))

end
