(* ===== verification/Control_File.thy ===== *)
theory Control_File
  imports Timeline_State Reference_Codec
begin

text \<open>
  \<open>safekeeper/src/control_file.rs\<close> and \<open>control_file_upgrade.rs\<close>: the control file
  storage \<open>FileStorage\<close>, which writes the state with a magic number, a version and a
  checksum to a partial file and renames it into place, and the upgrade of files of older
  format versions. The derived \<open>bincode\<close> codecs, the \<open>crc32c\<close> crate and the integer
  codecs are the parameter \<open>ctl_codec\<close>.
\<close>

definition SK_MAGIC :: u32 where
  "SK_MAGIC = 0xcafeceef"

definition SK_FORMAT_VERSION :: u32 where
  "SK_FORMAT_VERSION = 7"

definition CONTROL_FILE_NAME :: string where
  "CONTROL_FILE_NAME = ''safekeeper.control''"

definition CONTROL_FILE_NAME_PARTIAL :: string where
  "CONTROL_FILE_NAME_PARTIAL = ''safekeeper.control.partial''"

definition CHECKSUM_SIZE :: nat where
  "CHECKSUM_SIZE = 4"

section \<open>States of older format versions\<close>

record acceptor_state_v1 =
  a1_term :: consensus_term
  a1_epoch :: consensus_term

record server_info_v2 =
  s2_pg_version :: u32
  s2_system_id :: u64
  s2_tenant_id :: id16
  s2_timeline_id :: id16
  s2_wal_seg_size :: u32

record sk_state_v1 =
  v1_acceptor_state :: acceptor_state_v1
  v1_server :: server_info_v2
  v1_proposer_uuid :: id16
  v1_commit_lsn :: lsn
  v1_truncate_lsn :: lsn
  v1_wal_start_lsn :: lsn

text \<open>Versions 2 and 3 differ in the encoding of the ids only.\<close>

record sk_state_v2 =
  v2_acceptor_state :: acceptor_state
  v2_server :: server_info_v2
  v2_proposer_uuid :: id16
  v2_commit_lsn :: lsn
  v2_truncate_lsn :: lsn
  v2_wal_start_lsn :: lsn

record sk_state_v4 =
  v4_tenant_id :: id16
  v4_timeline_id :: id16
  v4_acceptor_state :: acceptor_state
  v4_server :: server_info
  v4_proposer_uuid :: id16
  v4_commit_lsn :: lsn
  v4_s3_wal_lsn :: lsn
  v4_peer_horizon_lsn :: lsn
  v4_remote_consistent_lsn :: lsn
  v4_peers :: "(node_id \<times> persisted_peer_info) list"

record ctl_codec =
  cc_wire :: wire
  cc_crc32c :: "byte list \<Rightarrow> u32"
  ser_state :: "pstate \<Rightarrow> byte list"
  des_state :: "byte list \<Rightarrow> pstate option"
  des_v1 :: "byte list \<Rightarrow> sk_state_v1 option"
  des_v2 :: "byte list \<Rightarrow> sk_state_v2 option"
  des_v3 :: "byte list \<Rightarrow> sk_state_v2 option"
  des_v4 :: "byte list \<Rightarrow> sk_state_v4 option"

definition des_or :: "'a option \<Rightarrow> ('a \<Rightarrow> 'b) \<Rightarrow> (sk_error, 'b) outcome" where
  "des_or d f = (case d of Some x \<Rightarrow> Ok (f x) | None \<Rightarrow> Err StateDeserialize)"

definition server_of_v2 :: "server_info_v2 \<Rightarrow> server_info" where
  "server_of_v2 s = \<lparr>si_pg_version = s2_pg_version s, si_system_id = s2_system_id s,
     si_wal_seg_size = s2_wal_seg_size s\<rparr>"

definition upgrade_v1 :: "sk_state_v1 \<Rightarrow> pstate" where
  "upgrade_v1 old = \<lparr>ps_tenant_id = s2_tenant_id (v1_server old),
     ps_timeline_id = s2_timeline_id (v1_server old),
     ps_acceptor_state = \<lparr>as_term = a1_term (v1_acceptor_state old),
       as_term_history = [\<lparr>tl_term = a1_epoch (v1_acceptor_state old), tl_lsn = 0\<rparr>]\<rparr>,
     ps_server = server_of_v2 (v1_server old), ps_proposer_uuid = v1_proposer_uuid old,
     ps_timeline_start_lsn = 0, ps_local_start_lsn = 0, ps_commit_lsn = v1_commit_lsn old,
     ps_backup_lsn = 0, ps_peer_horizon_lsn = v1_truncate_lsn old, ps_remote_lsn = 0, ps_peers = []\<rparr>"

definition upgrade_v2 :: "sk_state_v2 \<Rightarrow> pstate" where
  "upgrade_v2 old = \<lparr>ps_tenant_id = s2_tenant_id (v2_server old),
     ps_timeline_id = s2_timeline_id (v2_server old), ps_acceptor_state = v2_acceptor_state old,
     ps_server = server_of_v2 (v2_server old), ps_proposer_uuid = v2_proposer_uuid old,
     ps_timeline_start_lsn = 0, ps_local_start_lsn = 0, ps_commit_lsn = v2_commit_lsn old,
     ps_backup_lsn = 0, ps_peer_horizon_lsn = v2_truncate_lsn old, ps_remote_lsn = 0, ps_peers = []\<rparr>"

definition upgrade_v4 :: "sk_state_v4 \<Rightarrow> pstate" where
  "upgrade_v4 old = \<lparr>ps_tenant_id = v4_tenant_id old, ps_timeline_id = v4_timeline_id old,
     ps_acceptor_state = v4_acceptor_state old, ps_server = v4_server old,
     ps_proposer_uuid = v4_proposer_uuid old,
     ps_timeline_start_lsn = 0, ps_local_start_lsn = 0, ps_commit_lsn = v4_commit_lsn old,
     ps_backup_lsn = Lsn_INVALID, ps_peer_horizon_lsn = v4_peer_horizon_lsn old, ps_remote_lsn = 0,
     ps_peers = []\<rparr>"

definition upgrade_v5 :: "pstate \<Rightarrow> pstate" where
  "upgrade_v5 old = (if ps_timeline_start_lsn old \<noteq> 0 then old
     else old\<lparr>ps_timeline_start_lsn := 1, ps_local_start_lsn := 1\<rparr>)"

definition upgrade_v6 :: "pstate \<Rightarrow> pstate" where
  "upgrade_v6 old = (if si_pg_version (ps_server old) \<noteq> 0 then old
     else old\<lparr>ps_server := (ps_server old)\<lparr>si_pg_version := 140005\<rparr>\<rparr>)"

definition upgrade_control_file :: "ctl_codec \<Rightarrow> byte list \<Rightarrow> u32 \<Rightarrow> (sk_error, pstate) outcome" where
  "upgrade_control_file K buf version =
     (if version = 1 then des_or (des_v1 K buf) upgrade_v1
      else if version = 2 then des_or (des_v2 K buf) upgrade_v2
      else if version = 3 then des_or (des_v3 K buf) upgrade_v2
      else if version = 4 then des_or (des_v4 K buf) upgrade_v4
      else if version = 5 then des_or (des_state K buf) upgrade_v5
      else if version = 6 then des_or (des_state K buf) upgrade_v6
      else Err UnsupportedControlVersion)"

section \<open>Reading and writing the file\<close>

definition read_u32 :: "ctl_codec \<Rightarrow> (byte list, sk_error, u32) rust" where
  "read_u32 K = andthen (need 4 UnexpectedEndOfFile) (\<lambda>_. get_u32_le (cc_wire K))"

definition deser_sk_state :: "ctl_codec \<Rightarrow> byte list \<Rightarrow> (sk_error, pstate) outcome" where
  "deser_sk_state K buf = fst (
     andthen (read_u32 K) (\<lambda>magic.
     if magic \<noteq> SK_MAGIC then bail BadMagic
     else andthen (read_u32 K) (\<lambda>version.
     (\<lambda>rest. (if version = SK_FORMAT_VERSION then des_or (des_state K rest) id
              else upgrade_control_file K rest version, rest)))) buf)"

text \<open>The slice \<open>buf[..buf.len() - CHECKSUM_SIZE]\<close> panics on a file shorter than the checksum.\<close>

definition check_control_bytes :: "ctl_codec \<Rightarrow> byte list \<Rightarrow> (sk_error, pstate) outcome" where
  "check_control_bytes K buf =
     (if length buf < CHECKSUM_SIZE then Panic
      else let body = take (length buf - CHECKSUM_SIZE) buf;
               expected_checksum = from_le_bytes (drop (length buf - CHECKSUM_SIZE) buf)
           in if cc_crc32c K body \<noteq> expected_checksum then Err ChecksumMismatch
              else deser_sk_state K body)"

definition load_control_file :: "ctl_codec \<Rightarrow> (fs, sk_error, pstate) rust" where
  "load_control_file K =
     andthen (map_err Io (fs_read CONTROL_FILE_NAME)) (\<lambda>buf.
     (\<lambda>s. (check_control_bytes K buf, s)))"

record file_storage =
  ctl_fs :: fs
  ctl_no_sync :: bool
  ctl_state :: pstate
  ctl_last_persist_at :: nat

text \<open>\<open>restore_new\<close> at time \<open>now\<close>, with the codec and the configuration as arguments.\<close>

definition restore_new :: "ctl_codec \<Rightarrow> bool \<Rightarrow> nat \<Rightarrow> fs \<Rightarrow> (sk_error, file_storage) outcome" where
  "restore_new K no_sync now s = (case load_control_file K s of
       (Ok state, t) \<Rightarrow> Ok \<lparr>ctl_fs = t, ctl_no_sync = no_sync, ctl_state = state, ctl_last_persist_at = now\<rparr>
     | (Err e, t) \<Rightarrow> Err e
     | (Panic, t) \<Rightarrow> Panic)"

definition file_storage_create_new :: "fs \<Rightarrow> bool \<Rightarrow> nat \<Rightarrow> pstate \<Rightarrow> file_storage" where
  "file_storage_create_new s no_sync now state =
     \<lparr>ctl_fs = s, ctl_no_sync = no_sync, ctl_state = state, ctl_last_persist_at = now\<rparr>"

definition control_bytes :: "ctl_codec \<Rightarrow> pstate \<Rightarrow> byte list" where
  "control_bytes K s =
     (let buf = enc_u32_le (cc_wire K) SK_MAGIC @ enc_u32_le (cc_wire K) SK_FORMAT_VERSION @ ser_state K s
      in buf @ to_le_bytes (cc_crc32c K buf))"

definition ctl_io :: "(fs, io_error, 'a) rust \<Rightarrow> (file_storage, sk_error, 'a) rust" where
  "ctl_io m = on_field ctl_fs (\<lambda>f s. s\<lparr>ctl_fs := f\<rparr>) (map_err Io m)"

definition file_persist :: "ctl_codec \<Rightarrow> pstate \<Rightarrow> (file_storage, sk_error, unit) rust" where
  "file_persist K s =
     andthen (ctl_io (fs_create CONTROL_FILE_NAME_PARTIAL)) (\<lambda>control_partial.
     andthen (ctl_io (fs_write control_partial 0 (control_bytes K s))) (\<lambda>_.
     andthen (ctl_io (may_fail (ret ()))) (\<lambda>_.
     andthen (read ctl_no_sync) (\<lambda>no_sync.
     andthen (ctl_io (durable_rename CONTROL_FILE_NAME_PARTIAL CONTROL_FILE_NAME (\<not> no_sync))) (\<lambda>_.
     update (\<lambda>self. self\<lparr>ctl_state := s\<rparr>))))))"

definition file_ctrl :: "ctl_codec \<Rightarrow> file_storage ctrl_ops" where
  "file_ctrl K = \<lparr>c_state = ctl_state, c_persist = file_persist K,
     c_last_persist_at = ctl_last_persist_at\<rparr>"

section \<open>Crash safety\<close>

text \<open>What is relied on of the codecs: integers as in \<open>wire_format\<close>, and decoding inverts encoding.\<close>

locale ctl_format =
  fixes K :: ctl_codec
  assumes wire: "wire_format (cc_wire K)"
    and des_ser: "des_state K (ser_state K s) = Some s"
begin

lemma check_control_bytes_control_bytes: "check_control_bytes K (control_bytes K s) = Ok s"
proof -
  let ?W = "cc_wire K"
  let ?buf = "enc_u32_le ?W SK_MAGIC @ enc_u32_le ?W SK_FORMAT_VERSION @ ser_state K s"
  have "deser_sk_state K ?buf = Ok s"
    by (simp add: deser_sk_state_def read_u32_def reads wire_format.get_ints [OF wire]
        wire_format.enc_lengths [OF wire] des_or_def des_ser)
  moreover have "length (to_le_bytes (cc_crc32c K ?buf)) = CHECKSUM_SIZE"
    by (simp add: CHECKSUM_SIZE_def)
  ultimately show ?thesis
    by (simp add: check_control_bytes_def control_bytes_def Let_def from_to_le_bytes)
qed

end

definition file_inv :: "file_storage \<Rightarrow> bool" where
  "file_inv f = (\<not> ctl_no_sync f \<and> replaceable CONTROL_FILE_NAME_PARTIAL CONTROL_FILE_NAME (ctl_fs f))"

text \<open>The states that a restart after a power failure may load.\<close>

definition file_on_disk :: "ctl_codec \<Rightarrow> file_storage \<Rightarrow> pstate set" where
  "file_on_disk K f = {s. \<exists>bs. Some bs \<in> crash_contents (ctl_fs f) CONTROL_FILE_NAME \<and>
     check_control_bytes K bs = Ok s}"

lemma file_persist_versions:
  assumes "file_inv f"
  shows "wp (file_persist K s)
    (\<lambda>_ f'. file_inv f' \<and> ctl_state f' = s \<and>
       versions_of CONTROL_FILE_NAME (ctl_fs f') = {Some (control_bytes K s)})
    (\<lambda>_ f'. file_inv f' \<and> ctl_state f' = ctl_state f \<and>
       versions_of CONTROL_FILE_NAME (ctl_fs f') \<subseteq>
         insert (Some (control_bytes K s)) (versions_of CONTROL_FILE_NAME (ctl_fs f)))
    (\<lambda>_. False) f"
proof -
  let ?P = CONTROL_FILE_NAME_PARTIAL and ?C = CONTROL_FILE_NAME and ?bs = "control_bytes K s"
  let ?V = "\<lambda>g. versions_of ?C (ctl_fs g)"
  let ?same = "\<lambda>g. file_inv g \<and> ctl_state g = ctl_state f"
  let ?E = "\<lambda>g. ?same g \<and> ?V g \<subseteq> insert (Some ?bs) (?V f)"
  let ?open = "\<lambda>bs i g. ?same g \<and> ?V g = ?V f \<and> fs_lookup (ctl_fs g) ?P = Some i \<and> data (ctl_fs g) i = bs"
  have create: "wp (ctl_io (fs_create ?P)) (?open []) (\<lambda>_. ?E) (\<lambda>_. False) f"
    unfolding ctl_io_def wp
    by (rule wp_mono [OF fs_create_replaceable [where final = ?C]]) (use assms in \<open>auto simp: file_inv_def\<close>)
  have wr: "wp (ctl_io (fs_write i 0 ?bs)) (\<lambda>_. ?open ?bs i) (\<lambda>_. ?E) (\<lambda>_. False) g" if "?open [] i g" for i g
    unfolding ctl_io_def wp
    by (rule wp_mono [OF fs_write_replaceable [where tmp = ?P and final = ?C]])
      (use that in \<open>auto simp: file_inv_def\<close>)
  have flush: "wp (ctl_io (may_fail (ret ()))) (\<lambda>_. ?open ?bs i) (\<lambda>_. ?E) (\<lambda>_. False) g" if "?open ?bs i g" for i g
    unfolding ctl_io_def wp
    by (rule wp_may_fail) (use that in \<open>auto simp: file_inv_def wp\<close>)
  have rename: "wp (ctl_io (durable_rename ?P ?C True)) (\<lambda>_ g. ?same g \<and> ?V g = {Some ?bs}) (\<lambda>_. ?E) (\<lambda>_. False) g"
    if "?open ?bs i g" for i g
    unfolding ctl_io_def wp
    by (rule wp_mono [OF durable_rename_replaceable]) (use that in \<open>auto simp: file_inv_def\<close>)
  have finish: "wp (ctl_io (durable_rename ?P ?C (\<not> ctl_no_sync g)))
      (\<lambda>_ g. file_inv (g\<lparr>ctl_state := s\<rparr>) \<and> ?V (g\<lparr>ctl_state := s\<rparr>) = {Some ?bs}) (\<lambda>_. ?E) (\<lambda>_. False) g"
    if "?open ?bs i g" for i g
    using that by (auto simp: file_inv_def intro!: wp_mono [OF rename])
  show ?thesis
    unfolding file_persist_def wp
    by (rule wp_mono [OF create], rule wp_mono [OF wr], assumption, rule wp_mono [OF flush], assumption,
        rule wp_mono [OF finish], assumption) auto
qed

lemma file_inv_crash:
  "file_inv f \<Longrightarrow> crash_contents (ctl_fs f) CONTROL_FILE_NAME = versions_of CONTROL_FILE_NAME (ctl_fs f)"
  by (rule crash_contents_versions [where tmp = CONTROL_FILE_NAME_PARTIAL]) (simp add: file_inv_def)

lemma file_on_disk_versions:
  "file_inv f \<Longrightarrow> file_on_disk K f =
     {s. \<exists>bs. Some bs \<in> versions_of CONTROL_FILE_NAME (ctl_fs f) \<and> check_control_bytes K bs = Ok s}"
  by (simp add: file_on_disk_def file_inv_crash)

sublocale ctl_format \<subseteq> file_ctl: ctrl_storage "file_ctrl K" file_inv "file_on_disk K"
proof
  fix f s
  assume "file_inv f"
  from file_persist_versions [OF this, of K s]
  show "wp (c_persist (file_ctrl K) s)
      (\<lambda>_ f'. file_inv f' \<and> c_state (file_ctrl K) f' = s \<and> file_on_disk K f' = {s})
      (\<lambda>_ f'. file_inv f' \<and> c_state (file_ctrl K) f' = c_state (file_ctrl K) f \<and>
         file_on_disk K f' \<subseteq> insert s (file_on_disk K f))
      (\<lambda>_. False) f"
    unfolding file_ctrl_def ctrl_ops.select_convs
    by (rule wp_mono) (auto simp: file_on_disk_versions [OF \<open>file_inv f\<close>] file_on_disk_versions
        check_control_bytes_control_bytes)
qed

context ctl_format
begin

lemmas file_ctl_persist = file_ctl.persist

end

section \<open>A concrete codec\<close>

definition c_server_info :: "server_info codec" where
  "c_server_info = c_iso (\<lambda>x. (si_pg_version x, si_system_id x, si_wal_seg_size x))
     (\<lambda>(a, b, c). \<lparr>si_pg_version = a, si_system_id = b, si_wal_seg_size = c\<rparr>)
     (c_pair c_word (c_pair c_word c_word))"

definition c_term_lsn :: "term_lsn codec" where
  "c_term_lsn = c_iso (\<lambda>x. (tl_term x, tl_lsn x)) (\<lambda>(a, b). \<lparr>tl_term = a, tl_lsn = b\<rparr>) (c_pair c_word c_word)"

definition c_acceptor_state :: "acceptor_state codec" where
  "c_acceptor_state = c_iso (\<lambda>x. (as_term x, as_term_history x))
     (\<lambda>(a, b). \<lparr>as_term = a, as_term_history = b\<rparr>) (c_pair c_word (c_list c_term_lsn))"

definition c_peer_info :: "persisted_peer_info codec" where
  "c_peer_info = c_iso (\<lambda>x. (pp_backup_lsn x, pp_term x, pp_flush_lsn x, pp_commit_lsn x))
     (\<lambda>(a, b, c, d). \<lparr>pp_backup_lsn = a, pp_term = b, pp_flush_lsn = c, pp_commit_lsn = d\<rparr>)
     (c_pair c_word (c_pair c_word (c_pair c_word c_word)))"

definition c_pstate :: "pstate codec" where
  "c_pstate = c_iso
     (\<lambda>x. (ps_tenant_id x, ps_timeline_id x, ps_acceptor_state x, ps_server x, ps_proposer_uuid x,
        (ps_timeline_start_lsn x, ps_local_start_lsn x, ps_commit_lsn x),
        (ps_backup_lsn x, ps_peer_horizon_lsn x, ps_remote_lsn x), ps_peers x))
     (\<lambda>(a, b, c, d, e, (f, g, h), (i, j, k), l).
        \<lparr>ps_tenant_id = a, ps_timeline_id = b, ps_acceptor_state = c, ps_server = d, ps_proposer_uuid = e,
         ps_timeline_start_lsn = f, ps_local_start_lsn = g, ps_commit_lsn = h, ps_backup_lsn = i,
         ps_peer_horizon_lsn = j, ps_remote_lsn = k, ps_peers = l\<rparr>)
     (c_pair (c_list c_word) (c_pair (c_list c_word) (c_pair c_acceptor_state (c_pair c_server_info
       (c_pair (c_list c_word) (c_pair (c_pair c_word (c_pair c_word c_word))
       (c_pair (c_pair c_word (c_pair c_word c_word)) (c_list (c_pair c_word c_peer_info)))))))))"

lemma c_pstate_ok: "codec_ok c_pstate"
proof -
  have "codec_ok c_server_info" "codec_ok c_term_lsn" "codec_ok c_peer_info"
    by (auto simp: c_server_info_def c_term_lsn_def c_peer_info_def intro!: codec_ok)
  moreover from this(2) have "codec_ok c_acceptor_state"
    by (auto simp: c_acceptor_state_def intro!: codec_ok)
  ultimately show ?thesis by (auto simp: c_pstate_def intro!: codec_ok)
qed

text \<open>The checksum here is the sum of the bytes; the files of older versions are not read.\<close>

definition example_ctl_codec :: ctl_codec where
  "example_ctl_codec = \<lparr>cc_wire = std_wire, cc_crc32c = (\<lambda>bs. sum_list (map ucast bs)),
     ser_state = fst c_pstate, des_state = des_all c_pstate,
     des_v1 = (\<lambda>_. None), des_v2 = (\<lambda>_. None), des_v3 = (\<lambda>_. None), des_v4 = (\<lambda>_. None)\<rparr>"

interpretation example_ctl: ctl_format example_ctl_codec
  by unfold_locales (simp_all add: example_ctl_codec_def std.wire_format_axioms [unfolded wire_format_def]
      std.u32_le std.u64_le std.u32_be std.u64_be des_all_enc c_pstate_ok)

section \<open>Properties\<close>


text \<open>
  C26. Reading a control file back panics exactly on a file shorter than its checksum; every
  other corruption is an error.
\<close>

theorem control_file_panics_iff_short:
  "check_control_bytes K bs = Panic \<longleftrightarrow> length bs < CHECKSUM_SIZE"
proof -
  have up: "upgrade_control_file K b v \<noteq> Panic" for b v
    by (auto simp: upgrade_control_file_def des_or_def split: option.splits)
  have rd: "read_u32 K b \<noteq> (Panic, t)" for b t
    by (auto simp: read_u32_def need_def require_def andthen_def get_u32_le_def get_bytes_def ret_def)
  have "deser_sk_state K b \<noteq> Panic" for b
    by (auto simp: deser_sk_state_def andthen_def bail_def des_or_def up rd
        split: prod.splits outcome.splits option.splits if_splits)
  then show ?thesis by (auto simp: check_control_bytes_def Let_def)
qed


text \<open>An empty directory, and the storage of a timeline created in it.\<close>

definition example_pstate :: pstate where
  "example_pstate = pstate_new (replicate 16 1) (replicate 16 2)
     \<lparr>si_pg_version = 150000, si_system_id = 0, si_wal_seg_size = 16777216\<rparr> [] 0 0"

definition empty_fs :: fs where
  "empty_fs = \<lparr>dir = [], older_dirs = [], data = (\<lambda>_. []), disk_data = (\<lambda>_. []), next_inode = 0, faults = []\<rparr>"

definition example_file_storage :: file_storage where
  "example_file_storage = file_storage_create_new empty_fs False 0 example_pstate"

lemma example_file_inv: "file_inv example_file_storage"
  by (auto simp: file_inv_def example_file_storage_def file_storage_create_new_def empty_fs_def
      replaceable_def refs_def dir_versions_def fs_lookup_def CONTROL_FILE_NAME_def CONTROL_FILE_NAME_PARTIAL_def)

lemma example_persist_ok: "fst (file_persist example_ctl_codec s example_file_storage) = Ok ()"
  by (simp add: example_file_storage_def file_storage_create_new_def empty_fs_def file_persist_def ctl_io_def
      on_field_def map_err_def andthen_def fs_create_def may_fail_def next_fault_def read_def ret_def
      fs_lookup_def add_file_def set_data_def set_dir_def fs_write_def update_def durable_rename_def
      fsync_async_opt_def fsync_async_def fs_open_def fs_sync_def sync_inode_def fs_rename_def fs_sync_dir_def
      CONTROL_FILE_NAME_def CONTROL_FILE_NAME_PARTIAL_def)


end
