(* ===== verification/Wal_Restore.thy ===== *)
theory Wal_Restore
  imports Wal_Storage Control_File
begin

text \<open>
  Opening a WAL storage: \<open>find_end_of_wal\<close> and \<open>open_wal_segment\<close> of
  \<open>libs/postgres_ffi/src/xlog_utils.rs\<close>, and \<open>PhysicalStorage::new\<close>. The local variables of
  \<open>find_end_of_wal\<close> and the file system are the state \<open>wal_scan\<close>. A \<open>read\<close> of a file returns the
  bytes that are left, at most one block.
\<close>

record wal_scan =
  ws_fs :: fs
  ws_result :: lsn
  ws_curr :: lsn
  ws_decoder :: decoder

type_synonym 'a scan_method = "(wal_scan, sk_error, 'a) rust"

definition scan_io :: "(fs, io_error, 'a) rust \<Rightarrow> 'a scan_method" where
  "scan_io m = on_field ws_fs (\<lambda>f w. w\<lparr>ws_fs := f\<rparr>) (map_err Io m)"

definition open_wal_segment :: "string \<Rightarrow> (fs, io_error, inode option) rust" where
  "open_wal_segment seg_file_path =
     catch (andthen (fs_open (seg_file_path @ ''.partial'')) (\<lambda>i. ret (Some i))) (\<lambda>e.
       if e = NotFound then
         catch (andthen (fs_open seg_file_path) (\<lambda>i. ret (Some i))) (\<lambda>e.
           if e = NotFound then ret None else bail e)
       else bail e)"

text \<open>Advances past all completely read records; \<open>True\<close> when the decoder rejects the bytes.\<close>

function scan_records :: "wal_bindings \<Rightarrow> bool scan_method" where
  "scan_records B w = (case poll_decode B (ws_decoder w) of
       (Ok (Some (l, _)), d) \<Rightarrow> scan_records B (w\<lparr>ws_decoder := d, ws_result := l\<rparr>)
     | (Ok None, d) \<Rightarrow> (Ok False, w\<lparr>ws_decoder := d\<rparr>)
     | (Err _, d) \<Rightarrow> (Ok True, w\<lparr>ws_decoder := d\<rparr>)
     | (Panic, d) \<Rightarrow> (Panic, w\<lparr>ws_decoder := d\<rparr>))"
  by auto
termination
  by (relation "measure (\<lambda>(B, w). length (d_inputbuf (ws_decoder w)))") (auto intro: poll_consumes [OF sym])

declare scan_records.simps [simp del]

lemma scan_records_curr:
  "scan_records B w = (r, w') \<Longrightarrow> ws_curr w' = ws_curr w \<and> ws_fs w' = ws_fs w"
proof (induction "length (d_inputbuf (ws_decoder w))" arbitrary: w rule: less_induct)
  case less
  obtain x d where p: "poll_decode B (ws_decoder w) = (x, d)" by fastforce
  show ?case
  proof (cases "\<exists>l rec. x = Ok (Some (l, rec))")
    case True
    then obtain l rec where x: "x = Ok (Some (l, rec))" by blast
    with p less.prems have "scan_records B (w\<lparr>ws_decoder := d, ws_result := l\<rparr>) = (r, w')"
      by (subst (asm) scan_records.simps) simp
    from less.hyps [OF _ this] poll_consumes [of B "ws_decoder w"] p x show ?thesis by simp
  next
    case False
    with p less.prems show ?thesis
      by (subst (asm) scan_records.simps) (auto split: outcome.splits option.splits)
  qed
qed

definition read_block :: "inode \<Rightarrow> nat \<Rightarrow> byte list scan_method" where
  "read_block i pos = scan_io (may_fail (read (\<lambda>f. take 8192 (drop pos (data f i)))))"

lemma read_block_curr: "read_block i pos w = (r, w') \<Longrightarrow> ws_curr w' = ws_curr w"
  by (auto simp: read_block_def scan_io_def on_field_def split: prod.splits)

lemma read_block_length: "read_block i pos w = (Ok bs, w') \<Longrightarrow> length bs \<le> 8192"
  by (auto simp: read_block_def scan_io_def on_field_def map_err_def may_fail_def andthen_def next_fault_def
      read_def bail_def split: prod.splits list.splits if_splits outcome.splits)

lemma scan_step_advances:
  assumes "read_block i pos w = (Ok bs, w1)" and "bs \<noteq> []"
    and "lsn_add (ws_curr w1) (of_nat (length bs)) = Some l"
    and "scan_records B (w1\<lparr>ws_curr := l, ws_decoder := d\<rparr>) = (r, w2)"
  shows "unat (ws_curr w) < unat (ws_curr w2)"
proof -
  have "ws_curr w2 = l" "ws_curr w1 = ws_curr w"
    using scan_records_curr [OF assms(4)] read_block_curr [OF assms(1)] by simp_all
  moreover have "unat (of_nat (length bs) :: u64) = length bs"
    using read_block_length [OF assms(1)] by (simp add: unat_of_nat)
  ultimately show ?thesis using lsn_add_unat [OF assms(3)] assms(2) by simp
qed

text \<open>The loop inside a segment; \<open>True\<close> when the end of WAL is found.\<close>

function scan_segment :: "wal_bindings \<Rightarrow> usize \<Rightarrow> u64 \<Rightarrow> inode \<Rightarrow> nat \<Rightarrow> bool scan_method" where
  "scan_segment B seg_size segno i pos w =
     (if segment_number (ws_curr w) seg_size \<noteq> Some segno then (Ok False, w)
      else case read_block i pos w of
          (Ok bs, w1) \<Rightarrow>
            if bs = [] then (Ok True, w1)
            else (case lsn_add (ws_curr w1) (of_nat (length bs)) of
                None \<Rightarrow> (Panic, w1)
              | Some l \<Rightarrow>
                  (case scan_records B (w1\<lparr>ws_curr := l, ws_decoder := feed_bytes bs (ws_decoder w1)\<rparr>) of
                     (Ok False, w2) \<Rightarrow> scan_segment B seg_size segno i (pos + length bs) w2
                   | (Ok True, w2) \<Rightarrow> (Ok True, w2)
                   | (Err e, w2) \<Rightarrow> (Err e, w2)
                   | (Panic, w2) \<Rightarrow> (Panic, w2)))
        | (Err e, w1) \<Rightarrow> (Err e, w1)
        | (Panic, w1) \<Rightarrow> (Panic, w1))"
  by auto
termination
proof (relation "measure (\<lambda>(B, seg_size, segno, i, pos, w). 2 ^ 64 - unat (ws_curr w))", goal_cases)
  case (2 B seg_size segno i pos w)
  from scan_step_advances [OF 2(2) [unfolded 2(3), symmetric] 2(4,5) 2(6) [symmetric]] show ?case
    using unat_lt by (auto intro!: diff_less_mono2)
qed simp

declare scan_segment.simps [simp del]

text \<open>An invariant of the chunks is an invariant of the loop.\<close>

lemma wp_scan_segment:
  "wp (scan_segment B seg_size segno i pos) Q E F w =
     (if segment_number (ws_curr w) seg_size \<noteq> Some segno then Q False w
      else wp (read_block i pos) (\<lambda>bs w1.
        if bs = [] then Q True w1
        else case lsn_add (ws_curr w1) (of_nat (length bs)) of
            None \<Rightarrow> F w1
          | Some l \<Rightarrow> wp (scan_records B) (\<lambda>b w2.
              if b then Q True w2 else wp (scan_segment B seg_size segno i (pos + length bs)) Q E F w2) E F
              (w1\<lparr>ws_curr := l, ws_decoder := feed_bytes bs (ws_decoder w1)\<rparr>)) E F w)"
proof (cases "segment_number (ws_curr w) seg_size = Some segno")
  case True
  note unfold = wp_def scan_segment.simps [of B seg_size segno i pos w] True
  obtain r w1 where r: "read_block i pos w = (r, w1)" by fastforce
  show ?thesis
  proof (cases "\<exists>bs l. r = Ok bs \<and> bs \<noteq> [] \<and> lsn_add (ws_curr w1) (of_nat (length bs)) = Some l")
    case True
    then obtain bs l where x: "r = Ok bs" "bs \<noteq> []" "lsn_add (ws_curr w1) (of_nat (length bs)) = Some l" by blast
    obtain y w2 where "scan_records B (w1\<lparr>ws_curr := l, ws_decoder := feed_bytes bs (ws_decoder w1)\<rparr>) = (y, w2)"
      by fastforce
    with r x show ?thesis by (cases y) (simp_all add: unfold split: bool.split)
  next
    case False
    with r show ?thesis by (cases r) (auto simp: unfold split: option.splits)
  qed
qed (simp add: wp_def scan_segment.simps [of B seg_size segno i pos w])

lemma scan_segment_induct:
  assumes step: "\<And>pos w bs w1 l. I w \<Longrightarrow> read_block i pos w = (Ok bs, w1) \<Longrightarrow>
      lsn_add (ws_curr w1) (of_nat (length bs)) = Some l \<Longrightarrow> bs \<noteq> [] \<Longrightarrow>
      wp (scan_records B) (\<lambda>b w2. if b then Q w2 else I w2) (\<lambda>_ _. True) (\<lambda>_. True)
        (w1\<lparr>ws_curr := l, ws_decoder := feed_bytes bs (ws_decoder w1)\<rparr>)"
    and eof: "\<And>pos w w1. I w \<Longrightarrow> read_block i pos w = (Ok [], w1) \<Longrightarrow> Q w1"
  shows "I w \<Longrightarrow> wp (scan_segment B seg_size segno i pos)
     (\<lambda>b w'. if b then Q w' else I w' \<and> segment_number (ws_curr w') seg_size \<noteq> Some segno)
     (\<lambda>_ _. True) (\<lambda>_. True) w"
proof (induction "2 ^ 64 - unat (ws_curr w)" arbitrary: w pos rule: less_induct)
  case less
  let ?P = "\<lambda>b w'. if b then Q w' else I w' \<and> segment_number (ws_curr w') seg_size \<noteq> Some segno"
  have more: "wp (scan_records B) (\<lambda>b w2. if b then Q w2
        else wp (scan_segment B seg_size segno i (pos + length bs)) ?P (\<lambda>_ _. True) (\<lambda>_. True) w2)
      (\<lambda>_ _. True) (\<lambda>_. True) (w1\<lparr>ws_curr := l, ws_decoder := feed_bytes bs (ws_decoder w1)\<rparr>)"
    if r: "read_block i pos w = (Ok bs, w1)" "bs \<noteq> []" "lsn_add (ws_curr w1) (of_nat (length bs)) = Some l" for bs w1 l
  proof -
    let ?w1 = "w1\<lparr>ws_curr := l, ws_decoder := feed_bytes bs (ws_decoder w1)\<rparr>"
    have "wp (scan_records B) (\<lambda>b w2. (if b then Q w2 else I w2) \<and> unat (ws_curr w) < unat (ws_curr w2))
        (\<lambda>_ _. True) (\<lambda>_. True) ?w1"
      using step [OF less.prems r(1,3,2)] scan_step_advances [OF r]
      by (auto simp: wp_def split: prod.splits outcome.splits)
    then show ?thesis
    proof (rule wp_mono)
      fix b w2
      assume w2: "(if b then Q w2 else I w2) \<and> unat (ws_curr w) < unat (ws_curr w2)"
      have "2 ^ 64 - unat (ws_curr w2) < 2 ^ 64 - unat (ws_curr w)"
        using w2 unat_lt [of "ws_curr w"] by (intro diff_less_mono2) auto
      from less.hyps [OF this] w2 show "if b then Q w2
        else wp (scan_segment B seg_size segno i (pos + length bs)) ?P (\<lambda>_ _. True) (\<lambda>_. True) w2" by auto
    qed auto
  qed
  have "wp (read_block i pos) (\<lambda>bs w1. read_block i pos w = (Ok bs, w1)) (\<lambda>_ _. True) (\<lambda>_. True) w"
    by (auto simp: wp_def split: prod.splits outcome.splits)
  then have "wp (read_block i pos) (\<lambda>bs w1. if bs = [] then Q w1
      else case lsn_add (ws_curr w1) (of_nat (length bs)) of None \<Rightarrow> True
        | Some l \<Rightarrow> wp (scan_records B) (\<lambda>b w2. if b then Q w2
              else wp (scan_segment B seg_size segno i (pos + length bs)) ?P (\<lambda>_ _. True) (\<lambda>_. True) w2)
            (\<lambda>_ _. True) (\<lambda>_. True) (w1\<lparr>ws_curr := l, ws_decoder := feed_bytes bs (ws_decoder w1)\<rparr>))
      (\<lambda>_ _. True) (\<lambda>_. True) w"
  proof (rule wp_mono)
    fix bs w1
    assume r: "read_block i pos w = (Ok bs, w1)"
    show "if bs = [] then Q w1
      else case lsn_add (ws_curr w1) (of_nat (length bs)) of None \<Rightarrow> True
        | Some l \<Rightarrow> wp (scan_records B) (\<lambda>b w2. if b then Q w2
              else wp (scan_segment B seg_size segno i (pos + length bs)) ?P (\<lambda>_ _. True) (\<lambda>_. True) w2)
            (\<lambda>_ _. True) (\<lambda>_. True) (w1\<lparr>ws_curr := l, ws_decoder := feed_bytes bs (ws_decoder w1)\<rparr>)"
    proof (cases "bs = []")
      case True
      with r eof [OF less.prems] show ?thesis by simp
    next
      case False
      with more [OF r False] show ?thesis by (cases "lsn_add (ws_curr w1) (of_nat (length bs))") (simp_all only: option.case if_False)
    qed
  qed auto
  then show ?case
    unfolding wp_scan_segment [of B seg_size segno i pos ?P] using less.prems
    by (cases "segment_number (ws_curr w) seg_size = Some segno") (simp_all only: if_True if_False simp_thms)
qed

lemma scan_segment_advances:
  assumes "scan_segment B seg_size segno i pos w = (Ok False, w')"
  shows "unat (ws_curr w) \<le> unat (ws_curr w')" "segment_number (ws_curr w') seg_size \<noteq> Some segno"
proof -
  have "wp (scan_segment B seg_size segno i pos) (\<lambda>b w'. if b then True
      else unat (ws_curr w) \<le> unat (ws_curr w') \<and> segment_number (ws_curr w') seg_size \<noteq> Some segno)
     (\<lambda>_ _. True) (\<lambda>_. True) w"
  proof (rule scan_segment_induct)
    fix pos u bs w1 l
    assume u: "unat (ws_curr w) \<le> unat (ws_curr u)" and "read_block i pos u = (Ok bs, w1)"
      "lsn_add (ws_curr w1) (of_nat (length bs)) = Some l" "bs \<noteq> []"
    then show "wp (scan_records B) (\<lambda>b w2. if b then True else unat (ws_curr w) \<le> unat (ws_curr w2))
      (\<lambda>_ _. True) (\<lambda>_. True) (w1\<lparr>ws_curr := l, ws_decoder := feed_bytes bs (ws_decoder w1)\<rparr>)"
      using scan_step_advances [of i pos u bs w1 l B "feed_bytes bs (ws_decoder w1)"]
      by (auto simp: wp_def split: prod.splits outcome.splits)
  qed simp_all
  from wp_Ok [OF this assms] show "unat (ws_curr w) \<le> unat (ws_curr w')"
    "segment_number (ws_curr w') seg_size \<noteq> Some segno" by simp_all
qed

lemma scan_io_curr: "scan_io m w = (r, w') \<Longrightarrow> ws_curr w' = ws_curr w"
  by (auto simp: scan_io_def on_field_def split: prod.splits)

lemma next_segment_advances:
  assumes open_w: "scan_io m w = (x, w1)" and seg: "segment_number (ws_curr w) seg_size = Some segno"
    and scan: "andthen (scan_io n) (\<lambda>_. scan_segment B seg_size segno i pos) w1 = (Ok False, w2)"
  shows "unat (ws_curr w) < unat (ws_curr w2)"
proof -
  obtain y u where u: "scan_io n w1 = (Ok y, u)" "scan_segment B seg_size segno i pos u = (Ok False, w2)"
    using scan by (auto simp: andthen_def split: prod.splits outcome.splits)
  then have "unat (ws_curr w) \<le> unat (ws_curr w2)" "segment_number (ws_curr w2) seg_size \<noteq> Some segno"
    using scan_segment_advances [OF u(2)] scan_io_curr [OF u(1)] scan_io_curr [OF open_w] by simp_all
  with seg show ?thesis by (metis le_neq_implies_less word_unat_eq_iff)
qed

function find_end_loop :: "wal_bindings \<Rightarrow> usize \<Rightarrow> lsn scan_method" where
  "find_end_loop B seg_size w =
     (case (segment_number (ws_curr w) seg_size, segment_offset (ws_curr w) seg_size) of
        (Some segno, Some seg_offs) \<Rightarrow>
          (case XLogFileName PG_TLI segno seg_size of
             None \<Rightarrow> (Panic, w)
           | Some seg_file_name \<Rightarrow>
               (case scan_io (open_wal_segment seg_file_name) w of
                  (Ok None, w1) \<Rightarrow> (Ok (ws_result w1), w1)
                | (Ok (Some segment), w1) \<Rightarrow>
                    (case andthen (scan_io (may_fail (ret ()))) (\<lambda>_.
                            scan_segment B seg_size segno segment (unat seg_offs)) w1 of
                       (Ok True, w2) \<Rightarrow> (Ok (ws_result w2), w2)
                     | (Ok False, w2) \<Rightarrow> find_end_loop B seg_size w2
                     | (Err e, w2) \<Rightarrow> (Err e, w2)
                     | (Panic, w2) \<Rightarrow> (Panic, w2))
                | (Err e, w1) \<Rightarrow> (Err e, w1)
                | (Panic, w1) \<Rightarrow> (Panic, w1)))
      | _ \<Rightarrow> (Panic, w))"
  by auto
termination
proof (relation "measure (\<lambda>(B, seg_size, w). 2 ^ 64 - unat (ws_curr w))", goal_cases)
  case (2 B seg_size w)
  from next_segment_advances [OF 2(5) [symmetric] _ 2(8) [unfolded 2(9,10), symmetric]] 2(1,2) show ?case
    using unat_lt by (auto intro!: diff_less_mono2)
qed simp

declare find_end_loop.simps [simp del]

definition find_end_of_wal :: "wal_bindings \<Rightarrow> u32 \<Rightarrow> usize \<Rightarrow> lsn \<Rightarrow> (fs, sk_error, lsn) rust" where
  "find_end_of_wal B pg_version seg_size start_lsn = (\<lambda>f.
     case find_end_loop B seg_size \<lparr>ws_fs = f, ws_result = start_lsn, ws_curr = start_lsn,
         ws_decoder = decoder_new start_lsn pg_version\<rparr> of (r, w) \<Rightarrow> (r, ws_fs w))"

text \<open>The Postgres version of the state selects the bindings.\<close>

definition phys_new :: "wal_bindings \<Rightarrow> bool \<Rightarrow> pstate \<Rightarrow> (fs, sk_error, phys) rust" where
  "phys_new B no_sync state =
     andthen (if ps_commit_lsn state = 0 then ret 0
        else let version = si_pg_version (ps_server state) div 10000 in
          if supported_pg_version version
          then find_end_of_wal B version (ucast (si_wal_seg_size (ps_server state))) (ps_commit_lsn state)
          else bail UnsupportedPgVersion) (\<lambda>l.
     read (\<lambda>f. \<lparr>p_fs = f, p_no_sync = no_sync, wal_seg_size = ucast (si_wal_seg_size (ps_server state)),
       write_lsn = l, write_record_lsn = l, flush_record_lsn = l,
       p_decoder = decoder_new l (si_pg_version (ps_server state) div 10000),
       p_file = None, is_truncated_after_restart = False\<rparr>))"

section \<open>The result is not before the start\<close>

lemma find_end_induct:
  assumes scan: "\<And>segno i pos w. I w \<Longrightarrow> wp (scan_segment B seg_size segno i pos)
        (\<lambda>b w'. if b then Q w' else I w') (\<lambda>_ _. True) (\<lambda>_. True) w"
    and io: "\<And>w f. I w \<Longrightarrow> I (w\<lparr>ws_fs := f\<rparr>)" and stop: "\<And>w. I w \<Longrightarrow> Q w"
  shows "I w \<Longrightarrow> find_end_loop B seg_size w = (Ok l, w') \<Longrightarrow> l = ws_result w' \<and> Q w'"
proof (induction "2 ^ 64 - unat (ws_curr w)" arbitrary: w rule: less_induct)
  case less
  obtain segno off where seg: "segment_number (ws_curr w) seg_size = Some segno"
      "segment_offset (ws_curr w) seg_size = Some off"
    using less.prems(2) by (subst (asm) find_end_loop.simps) (auto split: option.splits)
  obtain name where name: "XLogFileName PG_TLI segno seg_size = Some name"
    using less.prems(2) seg by (subst (asm) find_end_loop.simps) (auto split: option.splits)
  obtain x w1 where o: "scan_io (open_wal_segment name) w = (Ok x, w1)"
    using less.prems(2) seg name
    by (subst (asm) find_end_loop.simps) (auto split: option.splits prod.splits outcome.splits)
  have I1: "I w1" using o io [OF less.prems(1)] by (auto simp: scan_io_def on_field_def split: prod.splits)
  show ?case
  proof (cases x)
    case None
    with less.prems(2) seg name o stop [OF I1] show ?thesis by (subst (asm) find_end_loop.simps) auto
  next
    case (Some i)
    obtain b w2 where w2: "andthen (scan_io (may_fail (ret ()))) (\<lambda>_. scan_segment B seg_size segno i (unat off)) w1
        = (Ok b, w2)" and cont: "if b then l = ws_result w2 \<and> w' = w2 else find_end_loop B seg_size w2 = (Ok l, w')"
      using less.prems(2) seg name o Some
      by (subst (asm) find_end_loop.simps) (auto split: prod.splits outcome.splits bool.splits)
    obtain u where u: "I u" "scan_segment B seg_size segno i (unat off) u = (Ok b, w2)"
      using w2 io [OF I1] by (auto simp: andthen_def scan_io_def on_field_def split: prod.splits outcome.splits)
    note r = wp_Ok [OF scan [OF u(1)] u(2)]
    show ?thesis
    proof (cases b)
      case True
      with r cont show ?thesis by simp
    next
      case False
      with w2 have "unat (ws_curr w) < unat (ws_curr w2)" using next_segment_advances [OF o seg(1)] by simp
      then have "2 ^ 64 - unat (ws_curr w2) < 2 ^ 64 - unat (ws_curr w)"
        using unat_lt [of "ws_curr w2"] by (intro diff_less_mono2) auto
      from less.hyps [OF this] r cont False show ?thesis by simp
    qed
  qed
qed

lemma wp_scan_records:
  "wp (scan_records B) Q E F w =
     wp (poll_decode B)
       (\<lambda>r d. case r of None \<Rightarrow> Q False (w\<lparr>ws_decoder := d\<rparr>)
          | Some (l, _) \<Rightarrow> wp (scan_records B) Q E F (w\<lparr>ws_decoder := d, ws_result := l\<rparr>))
       (\<lambda>_ d. Q True (w\<lparr>ws_decoder := d\<rparr>)) (\<lambda>d. F (w\<lparr>ws_decoder := d\<rparr>)) (ws_decoder w)"
  unfolding wp_def
  by (subst scan_records.simps) (auto split: prod.splits outcome.splits option.splits)

lemma poll_wrap_panics:
  assumes "d_state d = SkippingEverything l" and "l < d_lsn d" and "supported_pg_version (d_pg_version d)"
  shows "wp (poll_decode B) (\<lambda>_ _. False) (\<lambda>_ _. False) (\<lambda>_. True) d"
proof -
  have "wp (poll_decode_internal B) (\<lambda>_ _. False) (\<lambda>_ _. False) (\<lambda>_. True) d"
    by (subst wp_poll_internal)
      (use assms in \<open>auto simp: dec_round_def page_boundary_def wp wp_page_contents skipping_step_def\<close>)
  with assms(3) show ?thesis by (simp add: poll_decode_def wp_def)
qed

abbreviation same_version :: "u32 \<Rightarrow> 'a dec_method \<Rightarrow> bool" where
  "same_version v m \<equiv> keeps (\<lambda>d. d_pg_version d = v) (\<lambda>_ _. True) (\<lambda>_. True) m"

lemma same_version_simps [keeps]:
  "same_version v (fail :: 'a dec_method)" "same_version v (take_input n)" "same_version v (advance_lsn a)"
  "same_version v (validate_page_header B hdr)"
  by (auto simp: keeps_def wp wp_validate_page_header split: option.splits)

lemma same_version_boundary [keeps]: "same_version v (page_boundary B)"
  unfolding page_boundary_def read_header_def by (rule keeps keeps_case_option TrueI | (simp; fail))+

lemma same_version_complete [keeps]: "same_version v (complete_record B bs)"
  unfolding complete_record_def panic_def [symmetric]
  by (auto simp: keeps_def wp split: option.splits)

lemma same_version_contents [keeps]: "same_version v (page_contents B)"
proof (rule keepsI)
  fix d :: decoder
  assume v: "d_pg_version d = v"
  have "same_version v (waiting_step B)" "same_version v (reassembling_step B r n)" "same_version v (skipping_step l)" for r n l
    unfolding waiting_step_def reassembling_step_def skipping_step_def
    by (rule keeps TrueI | (simp add: keeps_def wp; fail))+
  from this [THEN keepsD, OF v] show "wp (page_contents B) (\<lambda>_ d. d_pg_version d = v) (\<lambda>_ _. True) (\<lambda>_. True) d"
    by (simp add: wp_page_contents split: dec_state.splits)
qed

lemma same_version_round: "same_version v (dec_round B)"
  unfolding dec_round_def by (rule keeps | (simp; fail))+

lemma poll_decode_same_version:
  "poll_decode B d = (Ok r, d') \<Longrightarrow> d_pg_version d' = d_pg_version d"
proof -
  assume "poll_decode B d = (Ok r, d')"
  then have poll: "poll_decode_internal B d = (Ok r, d')"
    by (simp add: poll_decode_def fail_def split: if_splits)
  have "wp (poll_decode_internal B) (\<lambda>_ d'. d_pg_version d' = d_pg_version d) (\<lambda>_ _. True) (\<lambda>_. True) d"
  proof (rule poll_internal_induct [where I = "\<lambda>e. d_pg_version e = d_pg_version d"])
    fix e :: decoder
    assume "d_pg_version e = d_pg_version d"
    from keepsD [OF same_version_round this]
    show "wp (dec_round B) (\<lambda>r d'. case r of None \<Rightarrow> d_pg_version d' = d_pg_version d
        | Some x \<Rightarrow> d_pg_version d' = d_pg_version d) (\<lambda>_ _. True) (\<lambda>_. True) e"
      by (rule wp_mono) (auto split: option.splits)
  qed simp
  from wp_Ok [OF this poll] show ?thesis .
qed

text \<open>Every record that the scan passes ends after the ones before it.\<close>

definition scan_at :: "wal_bindings \<Rightarrow> lsn \<Rightarrow> wal_scan \<Rightarrow> bool" where
  "scan_at B start w = (start \<le> ws_result w \<and> unat (ws_result w) \<le> frontier B (ws_decoder w))"

lemma scan_records_ge:
  assumes ok: "bindings_ok B"
  shows "scan_at B start w \<Longrightarrow> wp (scan_records B)
    (\<lambda>b w'. if b then start \<le> ws_result w' else scan_at B start w') (\<lambda>_ _. True) (\<lambda>_. True) w"
proof (induction "length (d_inputbuf (ws_decoder w))" arbitrary: w rule: less_induct)
  case less
  let ?Q = "\<lambda>b w'. if b then start \<le> ws_result w' else scan_at B start w'"
  let ?d = "ws_decoder w"
  have more: "wp (scan_records B) ?Q (\<lambda>_ _. True) (\<lambda>_. True) (w\<lparr>ws_decoder := d', ws_result := l\<rparr>)"
    (is "wp _ _ _ _ ?w")
    if p: "poll_post B ?d (Some (l, r)) d'" and len: "length (d_inputbuf d') < length (d_inputbuf ?d)"
      and v: "supported_pg_version (d_pg_version d')" for l r d'
  proof (cases "d_lsn d' \<le> l")
    case True
    with p less.prems have "scan_at B start ?w"
      by (auto simp: scan_at_def frontier_skipping word_le_nat_alt)
    from less.hyps [OF _ this] len show ?thesis by simp
  next
    case False
    with p v have "wp (poll_decode B) (\<lambda>_ _. False) (\<lambda>_ _. False) (\<lambda>_. True) d'"
      by (intro poll_wrap_panics) auto
    then show ?thesis by (subst wp_scan_records) (auto elim!: wp_mono)
  qed
  have "wp (poll_decode B) (\<lambda>r d'. poll_post B ?d r d' \<and> supported_pg_version (d_pg_version d') \<and>
      (r \<noteq> None \<longrightarrow> length (d_inputbuf d') < length (d_inputbuf ?d))) (\<lambda>_ _. True) (\<lambda>_. True) ?d"
    using poll_decode_post [OF ok, of ?d] poll_consumes [of B ?d] poll_decode_version [of B ?d]
      poll_decode_same_version [of B ?d]
    by (auto simp: wp_def split: prod.splits outcome.splits)
  then show ?case
    unfolding wp_scan_records [of B _ _ _ w]
  proof (rule wp_mono)
    fix r d'
    assume r: "poll_post B ?d r d' \<and> supported_pg_version (d_pg_version d') \<and>
      (r \<noteq> None \<longrightarrow> length (d_inputbuf d') < length (d_inputbuf ?d))"
    show "case r of None \<Rightarrow> ?Q False (w\<lparr>ws_decoder := d'\<rparr>)
        | Some (l, _) \<Rightarrow> wp (scan_records B) ?Q (\<lambda>_ _. True) (\<lambda>_. True) (w\<lparr>ws_decoder := d', ws_result := l\<rparr>)"
    proof (cases r)
      case None
      with r less.prems show ?thesis by (simp add: scan_at_def)
    next
      case (Some a)
      obtain l x where a: "a = (l, x)" by fastforce
      show ?thesis unfolding Some a option.case prod.case by (rule more) (use r Some a in auto)
    qed
  qed (use less.prems in \<open>auto simp: scan_at_def\<close>)
qed

lemma scan_segment_ge:
  assumes "bindings_ok B" and "scan_at B start w"
  shows "wp (scan_segment B seg_size segno i pos)
    (\<lambda>b w'. if b then start \<le> ws_result w' else scan_at B start w') (\<lambda>_ _. True) (\<lambda>_. True) w"
proof (rule wp_mono [OF scan_segment_induct [where I = "scan_at B start" and Q = "\<lambda>w. start \<le> ws_result w"]])
  fix pos bs l and w w1 :: wal_scan
  assume w: "scan_at B start w" and "read_block i pos w = (Ok bs, w1)"
  then have "scan_at B start (w1\<lparr>ws_curr := l, ws_decoder := feed_bytes bs (ws_decoder w1)\<rparr>)"
    by (auto simp: scan_at_def read_block_def scan_io_def on_field_def split: prod.splits)
  then show "wp (scan_records B) (\<lambda>b w2. if b then start \<le> ws_result w2 else scan_at B start w2)
      (\<lambda>_ _. True) (\<lambda>_. True) (w1\<lparr>ws_curr := l, ws_decoder := feed_bytes bs (ws_decoder w1)\<rparr>)"
    by (rule scan_records_ge [OF assms(1)])
next
  fix pos and w w1 :: wal_scan
  assume "scan_at B start w" and "read_block i pos w = (Ok [], w1)"
  then show "start \<le> ws_result w1"
    by (auto simp: scan_at_def read_block_def scan_io_def on_field_def split: prod.splits)
qed (use assms(2) in \<open>auto split: if_splits\<close>)

lemma find_end_ge:
  assumes "bindings_ok B" and "find_end_of_wal B pg_version seg_size start f = (Ok l, f')"
  shows "start \<le> l"
proof -
  let ?w = "\<lparr>ws_fs = f, ws_result = start, ws_curr = start, ws_decoder = decoder_new start pg_version\<rparr>"
  obtain w where w: "find_end_loop B seg_size ?w = (Ok l, w)"
    using assms(2) by (auto simp: find_end_of_wal_def split: prod.splits)
  have "l = ws_result w \<and> start \<le> ws_result w"
    by (rule find_end_induct [where I = "scan_at B start", OF scan_segment_ge [OF assms(1)] _ _ _ w])
      (auto simp: scan_at_def)
  then show ?thesis by simp
qed

lemma phys_new_positions:
  assumes "bindings_ok B" and "si_wal_seg_size (ps_server state) = 16777216"
    and "phys_new B no_sync state f = (Ok s, f')"
  shows "phys_inv B s \<and> ps_commit_lsn state \<le> flush_record_lsn s"
proof -
  let ?v = "si_pg_version (ps_server state) div 10000"
  obtain l f1 where l: "ps_commit_lsn state \<le> l"
    and s: "s = \<lparr>p_fs = f1, p_no_sync = no_sync, wal_seg_size = 16777216,
       write_lsn = l, write_record_lsn = l, flush_record_lsn = l, p_decoder = decoder_new l ?v,
       p_file = None, is_truncated_after_restart = False\<rparr>"
    using assms(2,3) find_end_ge [OF assms(1)]
    by (auto simp: phys_new_def andthen_def ret_def read_def bail_def Let_def split: if_splits prod.splits outcome.splits)
  then show ?thesis
    using seg_ceil_ge [of "unat l"] by (simp add: phys_inv_def hungry_def)
qed

lemma find_end_no_segment:
  assumes "segment_number start seg_size = Some segno" and "XLogFileName PG_TLI segno seg_size = Some name"
    and "dir f = []" and "faults f = []"
  shows "find_end_of_wal B v seg_size start f = (Ok start, f)"
proof -
  have off: "segment_offset start seg_size = Some (start mod seg_size)"
    using assms(1) by (auto simp: segment_number_def segment_offset_def split: if_splits)
  have "open_wal_segment name f = (Ok None, f)"
    using assms(3,4) by (simp add: open_wal_segment_def catch_def fs_open_def may_fail_def next_fault_def
        andthen_def read_def fs_lookup_def bail_def ret_def)
  with assms(1,2) off show ?thesis
    by (simp add: find_end_of_wal_def find_end_loop.simps scan_io_def on_field_def map_err_def)
qed

section \<open>Properties\<close>

text \<open>
  C16. Whatever the segment files hold and whatever I/O errors occur, a storage that
  \<open>PhysicalStorage::new\<close> opens satisfies the invariant of the positions, and what it reports as
  flushed is not before the committed position of the control file: the scan of
  \<open>find_end_of_wal\<close> never ends before its start.
\<close>

theorem phys_new_inv:
  assumes "bindings_ok B" and "si_wal_seg_size (ps_server state) = 16777216"
    and "phys_new B no_sync state f = (Ok s, f')"
  shows "phys_inv B s \<and> ps_commit_lsn state \<le> flush_record_lsn s"
  using assms by (rule phys_new_positions)

theorem phys_new_inv_witness:
  "\<exists>s. phys_new example_bindings False (example_pstate\<lparr>ps_commit_lsn := 64\<rparr>) empty_fs = (Ok s, empty_fs)
     \<and> phys_inv example_bindings s \<and> 64 \<le> flush_record_lsn s"
proof -
  obtain name where "XLogFileName PG_TLI 0 16777216 = Some name"
    by (simp add: XLogFileName_def XLogSegmentsPerXLogId_def)
  then have "find_end_of_wal example_bindings 15 16777216 64 empty_fs = (Ok 64, empty_fs)"
    by (intro find_end_no_segment) (simp_all add: segment_number_def empty_fs_def)
  then obtain s where s: "phys_new example_bindings False (example_pstate\<lparr>ps_commit_lsn := 64\<rparr>) empty_fs = (Ok s, empty_fs)"
    by (simp add: phys_new_def andthen_def read_def example_pstate_def pstate_new_def supported_pg_version_def)
  from phys_new_inv [OF _ _ s] s show ?thesis
    by (auto simp: bindings_ok_def example_bindings_def example_pstate_def pstate_new_def)
qed

end
