(* ===== verification/Wal_Senders.thy ===== *)
theory Wal_Senders
  imports Safekeeper_Msgs
begin

text \<open>
  The registries of connections of a timeline: \<open>WalSenders\<close> of \<open>safekeeper/src/send_wal.rs\<close>
  (readers of WAL: pageservers and standbys, with the feedback they sent) and \<open>WalReceivers\<close> of
  \<open>safekeeper/src/receive_wal.rs\<close> (computes that push WAL). A registry is a vector of slots; an
  index or an \<open>expect\<close> on a slot that is not occupied panics. The second part has the rules by
  which a WAL sender cuts the stream into messages and waits for WAL.
\<close>

section \<open>Slots\<close>

fun first_free :: "'a option list \<Rightarrow> nat" where
  "first_free [] = 0"
| "first_free (None # xs) = 0"
| "first_free (Some x # xs) = Suc (first_free xs)"

text \<open>The first empty slot is used, or a new one at the end.\<close>

definition occupy :: "'a \<Rightarrow> 'a option list \<Rightarrow> nat \<times> 'a option list" where
  "occupy x slots = (let pos = first_free slots in
     (pos, if pos < length slots then slots[pos := Some x] else slots @ [Some x]))"

definition flatten :: "'a option list \<Rightarrow> 'a list" where
  "flatten slots = List.map_filter id slots"

section \<open>WAL senders\<close>

record standby_reply =
  sr_write_lsn :: lsn
  sr_flush_lsn :: lsn
  sr_apply_lsn :: lsn
  sr_reply_ts :: u64
  sr_reply_requested :: bool

definition standby_reply_empty :: standby_reply where
  "standby_reply_empty = \<lparr>sr_write_lsn = Lsn_INVALID, sr_flush_lsn = Lsn_INVALID, sr_apply_lsn = Lsn_INVALID,
     sr_reply_ts = 0, sr_reply_requested = False\<rparr>"

record standby_feedback =
  sf_reply :: standby_reply
  sf_hs_feedback :: hot_standby_feedback

datatype replication_feedback = FPageserver pageserver_feedback | FStandby standby_feedback

record walsender_state =
  ws_ttid :: "byte list \<times> byte list"
  ws_addr :: string
  ws_conn_id :: nat
  ws_appname :: "string option"
  ws_feedback :: replication_feedback

record walsenders =
  agg_hs_feedback :: hot_standby_feedback
  agg_ps_feedback :: pageserver_feedback
  ws_slots :: "walsender_state option list"

type_synonym ('e, 'a) ws_method = "(walsenders, 'e, 'a) rust"

definition INVALID_FULL_TRANSACTION_ID :: u64 where
  "INVALID_FULL_TRANSACTION_ID = 0"

definition walsenders_new :: walsenders where
  "walsenders_new = \<lparr>agg_hs_feedback = hs_feedback_empty, agg_ps_feedback = feedback_empty, ws_slots = []\<rparr>"

definition ws_register ::
    "byte list \<times> byte list \<Rightarrow> string \<Rightarrow> nat \<Rightarrow> string option \<Rightarrow> ('e, nat) ws_method" where
  "ws_register ttid addr conn_id appname = (\<lambda>s.
     case occupy \<lparr>ws_ttid = ttid, ws_addr = addr, ws_conn_id = conn_id, ws_appname = appname,
        ws_feedback = FPageserver feedback_empty\<rparr> (ws_slots s) of
       (pos, slots) \<Rightarrow> (Ok pos, s\<lparr>ws_slots := slots\<rparr>))"

definition ws_get_all :: "walsenders \<Rightarrow> walsender_state list" where
  "ws_get_all s = flatten (ws_slots s)"

definition received_lsn :: "walsender_state \<Rightarrow> lsn option" where
  "received_lsn s = (case ws_feedback s of FPageserver f \<Rightarrow> Some (last_received_lsn f) | FStandby _ \<Rightarrow> None)"

definition laggard_lsn :: "walsenders \<Rightarrow> lsn option" where
  "laggard_lsn s = (case List.map_filter received_lsn (flatten (ws_slots s)) of
       [] \<Rightarrow> None | l # ls \<Rightarrow> Some (fold min ls l))"

definition get_feedbacks :: "walsenders \<Rightarrow> pageserver_feedback \<times> hot_standby_feedback" where
  "get_feedbacks s = (agg_ps_feedback s, agg_hs_feedback s)"

definition get_slot :: "nat \<Rightarrow> walsenders \<Rightarrow> walsender_state option" where
  "get_slot i s = (if i < length (ws_slots s) then ws_slots s ! i else None)"

definition set_slot :: "nat \<Rightarrow> walsender_state \<Rightarrow> walsenders \<Rightarrow> walsenders" where
  "set_slot i x s = s\<lparr>ws_slots := (ws_slots s)[i := Some x]\<rparr>"

text \<open>\<open>std::cmp::min\<close> on \<open>TimestampTz\<close>, a signed integer.\<close>

definition min_ts :: "u64 \<Rightarrow> u64 \<Rightarrow> u64" where
  "min_ts a b = (if sint a \<le> sint b then a else b)"

definition agg_hs_step :: "walsender_state \<Rightarrow> hot_standby_feedback \<Rightarrow> hot_standby_feedback" where
  "agg_hs_step ws agg = (case ws_feedback ws of
       FPageserver _ \<Rightarrow> agg
     | FStandby standby_feedback \<Rightarrow>
         let hs = sf_hs_feedback standby_feedback;
             agg1 = (if hs_xmin hs \<noteq> INVALID_FULL_TRANSACTION_ID
                     then agg\<lparr>hs_xmin := (if hs_xmin agg \<noteq> INVALID_FULL_TRANSACTION_ID
                                then min (hs_xmin agg) (hs_xmin hs) else hs_xmin hs),
                              hs_ts := min_ts (hs_ts agg) (hs_ts hs)\<rparr>
                     else agg)
         in if hs_catalog_xmin hs \<noteq> INVALID_FULL_TRANSACTION_ID
            then agg1\<lparr>hs_catalog_xmin := (if hs_catalog_xmin agg1 \<noteq> INVALID_FULL_TRANSACTION_ID
                       then min (hs_catalog_xmin agg1) (hs_catalog_xmin hs) else hs_catalog_xmin hs),
                     hs_ts := min_ts (hs_ts agg1) (hs_ts hs)\<rparr>
            else agg1)"

definition update_hs_feedback :: "walsenders \<Rightarrow> walsenders" where
  "update_hs_feedback s = s\<lparr>agg_hs_feedback := fold agg_hs_step (flatten (ws_slots s)) hs_feedback_empty\<rparr>"

definition agg_ps_step :: "walsender_state \<Rightarrow> pageserver_feedback \<Rightarrow> pageserver_feedback" where
  "agg_ps_step ws acc = (case ws_feedback ws of
       FStandby _ \<Rightarrow> acc
     | FPageserver feedback \<Rightarrow>
         acc\<lparr>current_timeline_size := (if last_received_lsn feedback > last_received_lsn acc
               then current_timeline_size feedback else current_timeline_size acc),
             last_received_lsn := max (last_received_lsn feedback) (last_received_lsn acc),
             disk_consistent_lsn := max (disk_consistent_lsn feedback) (disk_consistent_lsn acc),
             ps_remote_consistent_lsn := max (ps_remote_consistent_lsn feedback) (ps_remote_consistent_lsn acc),
             replytime := max (replytime feedback) (replytime acc)\<rparr>)"

definition update_ps_feedback :: "walsenders \<Rightarrow> walsenders" where
  "update_ps_feedback s = s\<lparr>agg_ps_feedback := fold agg_ps_step (flatten (ws_slots s)) feedback_empty\<rparr>"

definition record_ps_feedback :: "nat \<Rightarrow> pageserver_feedback \<Rightarrow> ('e, unit) ws_method" where
  "record_ps_feedback i feedback =
     andthen (unwrap (get_slot i)) (\<lambda>slot.
     update (\<lambda>s. update_ps_feedback (set_slot i (slot\<lparr>ws_feedback := FPageserver feedback\<rparr>) s)))"

definition record_standby_reply :: "nat \<Rightarrow> standby_reply \<Rightarrow> ('e, unit) ws_method" where
  "record_standby_reply i reply =
     andthen (unwrap (get_slot i)) (\<lambda>slot.
     update (set_slot i (slot\<lparr>ws_feedback := FStandby (case ws_feedback slot of
         FStandby sf \<Rightarrow> sf\<lparr>sf_reply := reply\<rparr>
       | FPageserver _ \<Rightarrow> \<lparr>sf_reply = reply, sf_hs_feedback = hs_feedback_empty\<rparr>)\<rparr>)))"

definition record_hs_feedback :: "nat \<Rightarrow> hot_standby_feedback \<Rightarrow> ('e, unit) ws_method" where
  "record_hs_feedback i feedback =
     andthen (unwrap (get_slot i)) (\<lambda>slot.
     update (\<lambda>s. update_hs_feedback (set_slot i (slot\<lparr>ws_feedback := FStandby (case ws_feedback slot of
         FStandby sf \<Rightarrow> sf\<lparr>sf_hs_feedback := feedback\<rparr>
       | FPageserver _ \<Rightarrow> \<lparr>sf_reply = standby_reply_empty, sf_hs_feedback = feedback\<rparr>)\<rparr>) s)))"

definition get_ws_remote_consistent_lsn :: "nat \<Rightarrow> ('e, lsn option) ws_method" where
  "get_ws_remote_consistent_lsn i =
     andthen (unwrap (get_slot i)) (\<lambda>slot.
     ret (case ws_feedback slot of FPageserver f \<Rightarrow> Some (ps_remote_consistent_lsn f) | FStandby _ \<Rightarrow> None))"

definition ws_unregister :: "nat \<Rightarrow> ('e, unit) ws_method" where
  "ws_unregister i =
     andthen (assert_that (\<lambda>s. i < length (ws_slots s))) (\<lambda>_.
     update (\<lambda>s. update_hs_feedback (s\<lparr>ws_slots := (ws_slots s)[i := None]\<rparr>)))"

section \<open>WAL receivers\<close>

datatype walreceiver_status = Voting | Streaming

record walreceiver_state =
  wr_conn_id :: "nat option"
  wr_status :: walreceiver_status

type_synonym walreceivers = "walreceiver_state option list"

definition wr_register :: "nat option \<Rightarrow> (walreceivers, 'e, nat) rust" where
  "wr_register conn_id = (\<lambda>slots. case occupy \<lparr>wr_conn_id = conn_id, wr_status = Voting\<rparr> slots of
     (pos, slots') \<Rightarrow> (Ok pos, slots'))"

definition get_num :: "walreceivers \<Rightarrow> nat" where
  "get_num slots = length (flatten slots)"

definition get_num_streaming :: "walreceivers \<Rightarrow> nat" where
  "get_num_streaming slots = length (filter (\<lambda>s. wr_conn_id s \<noteq> None \<and> wr_status s = Streaming) (flatten slots))"

definition wr_unregister :: "nat \<Rightarrow> (walreceivers, 'e, unit) rust" where
  "wr_unregister i =
     andthen (assert_that (\<lambda>slots. i < length slots)) (\<lambda>_. update (\<lambda>slots. slots[i := None]))"

section \<open>Sending\<close>

text \<open>
  The end of the next message: as much as is available, at most \<open>MAX_SEND_SIZE\<close> bytes, and a
  page boundary unless it is the end. \<open>None\<close> is the panic of an overflowing addition.
\<close>

definition chunk_end_pos :: "lsn \<Rightarrow> lsn \<Rightarrow> lsn option" where
  "chunk_end_pos start_pos end_pos = (case lsn_add start_pos (of_nat MAX_SEND_SIZE) of
       None \<Rightarrow> None
     | Some chunk_end \<Rightarrow> if chunk_end \<ge> end_pos then Some end_pos
         else lsn_checked_sub chunk_end (block_offset chunk_end))"

datatype end_watch = WCommit | WFlush

datatype wait_error = TermChanged

text \<open>
  \<open>wait_for_lsn\<close>, on the values that the watch channel shows until the timeout. A commit watch
  carries positions only; the term of its values is not looked at.
\<close>

fun wait_for_lsn :: "end_watch \<Rightarrow> consensus_term option \<Rightarrow> lsn \<Rightarrow> term_lsn list \<Rightarrow> (wait_error, lsn option) outcome" where
  "wait_for_lsn rx client_term start_pos [] = Ok None"
| "wait_for_lsn rx client_term start_pos (v # vs) =
     (if tl_lsn v > start_pos then Ok (Some (tl_lsn v))
      else case rx of
          WFlush \<Rightarrow> (case client_term of
              Some t \<Rightarrow> if tl_term v \<noteq> t then Err TermChanged else wait_for_lsn rx client_term start_pos vs
            | None \<Rightarrow> wait_for_lsn rx client_term start_pos vs)
        | WCommit \<Rightarrow> wait_for_lsn rx client_term start_pos vs)"

section \<open>Lemmas\<close>

lemma first_free_le: "first_free xs \<le> length xs"
  by (induction xs rule: first_free.induct) auto

lemma first_free_None: "first_free xs < length xs \<Longrightarrow> xs ! first_free xs = None"
  by (induction xs rule: first_free.induct) auto

lemma flatten_simps [simp]:
  "flatten [] = []" "flatten (None # xs) = flatten xs" "flatten (Some x # xs) = x # flatten xs"
  "flatten (xs @ ys) = flatten xs @ flatten ys"
  by (simp_all add: flatten_def List.map_filter_def)

lemma set_flatten: "set (flatten xs) = {x. Some x \<in> set xs}"
  by (induction xs) (auto simp: flatten_def List.map_filter_def)

text \<open>The smallest valid id that the standbys report.\<close>

definition valid_xmins :: "(hot_standby_feedback \<Rightarrow> u64) \<Rightarrow> walsender_state list \<Rightarrow> u64 set" where
  "valid_xmins f wss = {f (sf_hs_feedback sf) | ws sf. ws \<in> set wss \<and> ws_feedback ws = FStandby sf} - {0}"

definition least_or_zero :: "u64 set \<Rightarrow> u64" where
  "least_or_zero X = (if X = {} then 0 else Min X)"

lemma finite_valid_xmins [simp]: "finite (valid_xmins f wss)"
proof -
  have "valid_xmins f wss \<subseteq> (\<lambda>ws. case ws_feedback ws of FStandby sf \<Rightarrow> f (sf_hs_feedback sf) | _ \<Rightarrow> 0) ` set wss"
    by (force simp: valid_xmins_def)
  then show ?thesis by (rule finite_subset) simp
qed

lemma least_or_zero_insert:
  "finite X \<Longrightarrow> 0 \<notin> X \<Longrightarrow> x \<noteq> 0 \<Longrightarrow>
     least_or_zero (insert x X) = (if least_or_zero X \<noteq> 0 then min (least_or_zero X) x else x)"
proof (cases "X = {}")
  case False
  assume X: "finite X" "0 \<notin> X" "x \<noteq> 0"
  with False have "Min X \<noteq> 0" using Min_in [OF X(1) False] by metis
  with False X show ?thesis by (simp add: least_or_zero_def min.commute)
qed (simp add: least_or_zero_def)

lemma valid_xmins_snoc:
  "valid_xmins f (wss @ [ws]) = (case ws_feedback ws of
     FPageserver _ \<Rightarrow> valid_xmins f wss
   | FStandby sf \<Rightarrow> if f (sf_hs_feedback sf) = 0 then valid_xmins f wss
                    else insert (f (sf_hs_feedback sf)) (valid_xmins f wss))"
  by (cases "ws_feedback ws") (auto simp: valid_xmins_def)

lemma valid_xmins_zero [simp]: "0 \<notin> valid_xmins f wss"
  by (simp add: valid_xmins_def)

lemma agg_hs_min:
  "hs_xmin (fold agg_hs_step wss hs_feedback_empty) = least_or_zero (valid_xmins hs_xmin wss) \<and>
   hs_catalog_xmin (fold agg_hs_step wss hs_feedback_empty) = least_or_zero (valid_xmins hs_catalog_xmin wss)"
proof (induction wss rule: rev_induct)
  case Nil
  then show ?case by (simp add: hs_feedback_empty_def least_or_zero_def valid_xmins_def)
next
  case (snoc ws wss)
  then show ?case
    by (cases "ws_feedback ws")
      (auto simp: valid_xmins_snoc agg_hs_step_def Let_def INVALID_FULL_TRANSACTION_ID_def least_or_zero_insert)
qed

text \<open>A minimum that starts at zero: the aggregated time stays zero.\<close>

lemma agg_hs_ts:
  "(\<forall>ws \<in> set wss. \<forall>sf. ws_feedback ws = FStandby sf \<longrightarrow> 0 \<le> sint (hs_ts (sf_hs_feedback sf))) \<Longrightarrow>
     hs_ts (fold agg_hs_step wss hs_feedback_empty) = 0"
proof (induction wss rule: rev_induct)
  case (snoc ws wss)
  then show ?case
    by (cases "ws_feedback ws") (auto simp: agg_hs_step_def Let_def min_ts_def)
qed (simp add: hs_feedback_empty_def)

text \<open>The pageserver feedbacks.\<close>

definition ps_feedbacks :: "walsender_state list \<Rightarrow> pageserver_feedback set" where
  "ps_feedbacks wss = {f. \<exists>ws \<in> set wss. ws_feedback ws = FPageserver f}"

lemma agg_ps_max:
  "(\<forall>f \<in> ps_feedbacks wss. last_received_lsn f \<le> last_received_lsn (fold agg_ps_step wss feedback_empty) \<and>
      disk_consistent_lsn f \<le> disk_consistent_lsn (fold agg_ps_step wss feedback_empty) \<and>
      ps_remote_consistent_lsn f \<le> ps_remote_consistent_lsn (fold agg_ps_step wss feedback_empty))"
  (is "?A wss")
proof (induction wss rule: rev_induct)
  case (snoc ws wss)
  then show ?case
    by (cases "ws_feedback ws") (auto simp: ps_feedbacks_def agg_ps_step_def intro: le_max_iff_disj [THEN iffD2])
qed (simp add: ps_feedbacks_def)

lemma agg_ps_attained:
  "last_received_lsn (fold agg_ps_step wss feedback_empty) \<in> insert 0 (last_received_lsn ` ps_feedbacks wss) \<and>
   disk_consistent_lsn (fold agg_ps_step wss feedback_empty) \<in> insert 0 (disk_consistent_lsn ` ps_feedbacks wss) \<and>
   ps_remote_consistent_lsn (fold agg_ps_step wss feedback_empty) \<in> insert 0 (ps_remote_consistent_lsn ` ps_feedbacks wss)"
proof (induction wss rule: rev_induct)
  case (snoc ws wss)
  have "ps_feedbacks (wss @ [ws]) = (case ws_feedback ws of FPageserver f \<Rightarrow> insert f (ps_feedbacks wss) | _ \<Rightarrow> ps_feedbacks wss)"
    by (auto simp: ps_feedbacks_def split: replication_feedback.splits)
  with snoc show ?case
    by (cases "ws_feedback ws") (auto simp: agg_ps_step_def max_def)
qed (simp add: feedback_empty_def Lsn_INVALID_def)

lemma ws_get_all_update_hs [simp]: "ws_get_all (update_hs_feedback s) = ws_get_all s"
  by (simp add: ws_get_all_def update_hs_feedback_def)

lemma agg_update_hs: "agg_hs_feedback (update_hs_feedback s) = fold agg_hs_step (ws_get_all s) hs_feedback_empty"
  by (simp add: update_hs_feedback_def ws_get_all_def)

lemma record_hs_feedback_Ok:
  "record_hs_feedback i feedback s = (Ok (), s') \<Longrightarrow> \<exists>t. s' = update_hs_feedback t"
  by (auto simp: record_hs_feedback_def andthen_def unwrap_def update_def split: option.splits)

lemma laggard_lsn_Min:
  "laggard_lsn s = (let ls = List.map_filter received_lsn (ws_get_all s) in if ls = [] then None else Some (Min (set ls)))"
  by (auto simp: laggard_lsn_def ws_get_all_def Let_def Min.set_eq_fold [symmetric] split: list.splits)

lemma block_offset_unat: "unat (block_offset x) = unat x mod 8192"
  by (simp add: block_offset_def XLOG_BLCKSZ_def unat_mod)

lemma chunk_end_pos_bounds:
  assumes "start_pos < end_pos" and "unat start_pos + MAX_SEND_SIZE < 2 ^ 64"
  shows "\<exists>c. chunk_end_pos start_pos end_pos = Some c \<and> start_pos < c \<and> c \<le> end_pos \<and>
    unat c - unat start_pos \<le> MAX_SEND_SIZE \<and> (c = end_pos \<or> block_offset c = 0)"
proof -
  let ?e = "start_pos + of_nat MAX_SEND_SIZE"
  have e: "unat ?e = unat start_pos + 131072"
    using assms(2) by (simp add: MAX_SEND_SIZE_def unat_word_ariths)
  have add: "lsn_add start_pos (of_nat MAX_SEND_SIZE) = Some ?e"
    using assms(2) by (simp add: lsn_add_def checked_add_def MAX_SEND_SIZE_def)
  show ?thesis
  proof (cases "?e \<ge> end_pos")
    case True
    then have "unat end_pos \<le> unat start_pos + 131072" using e by (simp add: word_le_nat_alt)
    with True add assms(1) show ?thesis by (simp add: chunk_end_pos_def MAX_SEND_SIZE_def)
  next
    case False
    let ?b = "block_offset ?e"
    have b: "unat ?b = (unat start_pos + 131072) mod 8192" "unat ?b < 8192"
      using e by (simp_all add: block_offset_unat)
    have le: "?b \<le> ?e" using b(2) e by (simp add: word_le_nat_alt)
    have c: "unat (?e - ?b) = unat ?e - unat ?b" using le by (rule unat_sub)
    have "8192 dvd unat (?e - ?b)" unfolding c b(1) e by (rule dvd_minus_mod)
    then have "block_offset (?e - ?b) = 0" by (simp add: unat_eq_zero [symmetric] block_offset_unat)
    moreover have "start_pos < ?e - ?b" using b(2) by (simp add: word_less_nat_alt c e)
    moreover have "?e - ?b \<le> end_pos" using False c by (simp add: word_le_nat_alt)
    moreover have "unat (?e - ?b) - unat start_pos \<le> MAX_SEND_SIZE" unfolding c e by (simp add: MAX_SEND_SIZE_def)
    moreover have "chunk_end_pos start_pos end_pos = Some (?e - ?b)"
      using False add le by (simp add: chunk_end_pos_def lsn_checked_sub_def checked_sub_def word_le_nat_alt)
    ultimately show ?thesis by blast
  qed
qed

section \<open>Properties\<close>



text \<open>
  C25. The hot standby feedback sent to the compute holds back vacuum for every standby: after a
  standby reported, \<open>xmin\<close> and \<open>catalog_xmin\<close> of the aggregate are the least valid ones among all
  connected standbys, and invalid exactly when no standby has one. The aggregated time, however,
  is zero whatever times the standbys sent.
\<close>

theorem hs_feedback_is_least:
  assumes "record_hs_feedback i feedback s = (Ok (), s')"
    and "\<forall>ws \<in> set (ws_get_all s'). \<forall>sf. ws_feedback ws = FStandby sf \<longrightarrow> 0 \<le> sint (hs_ts (sf_hs_feedback sf))"
  shows "hs_xmin (agg_hs_feedback s') = least_or_zero (valid_xmins hs_xmin (ws_get_all s')) \<and>
    hs_catalog_xmin (agg_hs_feedback s') = least_or_zero (valid_xmins hs_catalog_xmin (ws_get_all s')) \<and>
    hs_ts (agg_hs_feedback s') = 0"
proof -
  obtain t where t: "s' = update_hs_feedback t" using record_hs_feedback_Ok [OF assms(1)] ..
  with assms(2) show ?thesis by (simp add: agg_update_hs agg_hs_min agg_hs_ts)
qed

definition example_senders :: walsenders where
  "example_senders = walsenders_new\<lparr>ws_slots := [Some \<lparr>ws_ttid = ([], []), ws_addr = [], ws_conn_id = 1,
     ws_appname = None, ws_feedback = FPageserver feedback_empty\<rparr>]\<rparr>"

theorem hs_feedback_is_least_witness:
  "hs_ts (agg_hs_feedback (snd (record_hs_feedback 0 \<lparr>hs_ts = 5, hs_xmin = 7, hs_catalog_xmin = 0\<rparr> example_senders))) = 0 \<and>
   hs_xmin (agg_hs_feedback (snd (record_hs_feedback 0 \<lparr>hs_ts = 5, hs_xmin = 7, hs_catalog_xmin = 0\<rparr> example_senders))) = 7"
  using hs_feedback_is_least [of 0 "\<lparr>hs_ts = 5, hs_xmin = 7, hs_catalog_xmin = 0\<rparr>" example_senders
      "snd (record_hs_feedback 0 \<lparr>hs_ts = 5, hs_xmin = 7, hs_catalog_xmin = 0\<rparr> example_senders)"]
  by (simp add: record_hs_feedback_def andthen_def unwrap_def get_slot_def example_senders_def walsenders_new_def
      update_def set_slot_def ws_get_all_def update_hs_feedback_def valid_xmins_def least_or_zero_def)

end
