(* ===== verification/Sk_Timeline.thy ===== *)
theory Sk_Timeline
  imports Wal_Restore Safekeeper_Safety Wal_Senders "HOL-Library.Product_Lexorder"
begin

text \<open>
  \<open>safekeeper/src/timeline.rs\<close>, the timeline of a safekeeper: the consensus core with its two
  storages, what is known of the peers, the registries of connections and the watch channels.
  A method runs under the timeline's lock, so a call is one step. Time is a natural number of
  milliseconds and an argument. The sending halves of the watch channels never fail, since
  the timeline holds a receiver; messages to the backup launcher are counted.
\<close>

section \<open>Peers\<close>

record peer_info =
  pi_sk_id :: node_id
  pi_term :: consensus_term
  pi_last_log_term :: consensus_term
  pi_flush_lsn :: lsn
  pi_commit_lsn :: lsn
  pi_local_start_lsn :: lsn
  pi_ts :: nat
  pi_pg_connstr :: string
  pi_http_connstr :: string

definition from_sk_info :: "sk_timeline_info \<Rightarrow> nat \<Rightarrow> peer_info" where
  "from_sk_info sk_info ts =
     \<lparr>pi_sk_id = inf_safekeeper_id sk_info, pi_term = inf_term sk_info,
      pi_last_log_term = inf_last_log_term sk_info, pi_flush_lsn = inf_flush_lsn sk_info,
      pi_commit_lsn = inf_commit_lsn sk_info, pi_local_start_lsn = inf_local_start_lsn sk_info, pi_ts = ts,
      pi_pg_connstr = inf_safekeeper_connstr sk_info, pi_http_connstr = inf_http_connstr sk_info\<rparr>"

fun peers_upsert :: "peer_info \<Rightarrow> peer_info list \<Rightarrow> peer_info list" where
  "peers_upsert p [] = [p]"
| "peers_upsert p (q # ps) = (if pi_sk_id q = pi_sk_id p then p # ps else q # peers_upsert p ps)"

section \<open>Shared state\<close>

record sk_conf =
  my_id :: node_id
  conf_no_sync :: bool
  advertise_pg_addr :: "string option"
  listen_pg_addr :: string
  listen_http_addr :: string
  conf_availability_zone :: "string option"
  conf_walsenders_keep_horizon :: bool

record shared_state =
  ss_sk :: "(file_storage, phys) safekeeper"
  peers_info :: "peer_info list"
  wal_backup_active :: bool
  ss_active :: bool
  last_removed_segno :: u64

type_synonym 'a ss_method = "(shared_state, sk_error, 'a) rust"

definition sk_with :: "ctl_codec \<Rightarrow> sk_conf \<Rightarrow> file_storage \<Rightarrow> phys \<Rightarrow> (sk_error, shared_state) outcome" where
  "sk_with K conf control_store w = (case safekeeper_new (file_ctrl K) control_store w (my_id conf) of
       Ok sk \<Rightarrow> Ok \<lparr>ss_sk = sk, peers_info = [], wal_backup_active = False, ss_active = False, last_removed_segno = 0\<rparr>
     | Err e \<Rightarrow> Err e | Panic \<Rightarrow> Panic)"

text \<open>The files of the control file and of the WAL are in the timeline's directory; they are the arguments.\<close>

definition shared_create_new ::
    "ctl_codec \<Rightarrow> wal_bindings \<Rightarrow> sk_conf \<Rightarrow> nat \<Rightarrow> fs \<Rightarrow> fs \<Rightarrow> pstate \<Rightarrow> (sk_error, shared_state) outcome" where
  "shared_create_new K B conf now ctl_files wal_files state =
     (if si_wal_seg_size (ps_server state) = 0 then Err UninitializedWalSegSize
      else if si_pg_version (ps_server state) = UNKNOWN_SERVER_VERSION then Err UninitializedPgVersion
      else if ps_commit_lsn state < ps_local_start_lsn state then Err CommitBelowLocalStart
      else let control_store = file_storage_create_new ctl_files (conf_no_sync conf) now state
        in case fst (phys_new B (conf_no_sync conf) (ctl_state control_store) wal_files) of
          Ok w \<Rightarrow> sk_with K conf control_store w
        | Err e \<Rightarrow> Err e | Panic \<Rightarrow> Panic)"

definition shared_restore ::
    "ctl_codec \<Rightarrow> wal_bindings \<Rightarrow> sk_conf \<Rightarrow> nat \<Rightarrow> fs \<Rightarrow> fs \<Rightarrow> (sk_error, shared_state) outcome" where
  "shared_restore K B conf now ctl_files wal_files = (case restore_new K (conf_no_sync conf) now ctl_files of
       Ok control_store \<Rightarrow>
         if si_wal_seg_size (ps_server (ctl_state control_store)) = 0 then Err UninitializedWalSegSize
         else (case fst (phys_new B (conf_no_sync conf) (ctl_state control_store) wal_files) of
             Ok w \<Rightarrow> sk_with K conf control_store w
           | Err e \<Rightarrow> Err e | Panic \<Rightarrow> Panic)
     | Err e \<Rightarrow> Err e | Panic \<Rightarrow> Panic)"

definition on_sk :: "(file_storage, phys, 'a) sk_method \<Rightarrow> 'a ss_method" where
  "on_sk = on_field ss_sk (\<lambda>sk s. s\<lparr>ss_sk := sk\<rparr>)"

definition ss_mem :: "shared_state \<Rightarrow> mem_state" where
  "ss_mem s = sk_mem (ss_sk s)"

definition ss_pers :: "shared_state \<Rightarrow> pstate" where
  "ss_pers s = ctl_state (pers (sk_state (ss_sk s)))"

definition get_wal_seg_size :: "shared_state \<Rightarrow> usize" where
  "get_wal_seg_size s = ucast (si_wal_seg_size (ps_server (ss_pers s)))"

text \<open>Evaluated left to right: the division by the segment size happens only without computes.\<close>

definition is_wal_backup_required :: "nat \<Rightarrow> bool ss_method" where
  "is_wal_backup_required num_computes =
     branch (\<lambda>_. num_computes > 0)
       (ret True)
       (andthen (unwrap (\<lambda>s. segment_number (m_commit_lsn (ss_mem s)) (get_wal_seg_size s))) (\<lambda>c.
        andthen (unwrap (\<lambda>s. segment_number (m_backup_lsn (ss_mem s)) (get_wal_seg_size s))) (\<lambda>b.
        ret (c > b))))"

definition ss_is_active :: "nat \<Rightarrow> bool ss_method" where
  "ss_is_active num_computes =
     andthen (is_wal_backup_required num_computes) (\<lambda>b.
     read (\<lambda>s. b \<or> m_remote_lsn (ss_mem s) < m_commit_lsn (ss_mem s)))"

definition is_wal_backup_action_pending :: "nat \<Rightarrow> bool ss_method" where
  "is_wal_backup_action_pending num_computes =
     andthen (is_wal_backup_required num_computes) (\<lambda>b. read (\<lambda>s. wal_backup_active s \<noteq> b))"

text \<open>A failed save of the control file is only logged.\<close>

definition ss_update_status :: "ctl_codec \<Rightarrow> nat \<Rightarrow> bool ss_method" where
  "ss_update_status K num_computes =
     andthen (ss_is_active num_computes) (\<lambda>is_active.
     andthen (run_if (\<lambda>s. ss_active s \<noteq> is_active \<and> \<not> is_active)
       (catch (on_sk (on_state (flush_state (file_ctrl K)))) (\<lambda>_. ret ()))) (\<lambda>_.
     andthen (update (\<lambda>s. s\<lparr>ss_active := is_active\<rparr>)) (\<lambda>_.
     is_wal_backup_action_pending num_computes)))"

definition ss_wal_backup_attend :: "nat \<Rightarrow> bool ss_method" where
  "ss_wal_backup_attend num_computes =
     andthen (is_wal_backup_required num_computes) (\<lambda>b.
     andthen (update (\<lambda>s. s\<lparr>wal_backup_active := b\<rparr>)) (\<lambda>_. ret b))"

definition ss_get_safekeeper_info ::
    "ctl_codec \<Rightarrow> wal_bindings \<Rightarrow> id16 \<times> id16 \<Rightarrow> sk_conf \<Rightarrow> shared_state \<Rightarrow> sk_timeline_info" where
  "ss_get_safekeeper_info K B ttid conf s =
     \<lparr>inf_safekeeper_id = my_id conf, inf_ttid = ttid,
      inf_term = as_term (ps_acceptor_state (ss_pers s)),
      inf_last_log_term = get_epoch (file_ctrl K) (phys_ops B) (ss_sk s),
      inf_commit_lsn = m_commit_lsn (ss_mem s), inf_backup_lsn = m_backup_lsn (ss_mem s),
      inf_remote_lsn = m_remote_lsn (ss_mem s), inf_peer_horizon_lsn = m_peer_horizon_lsn (ss_mem s),
      inf_flush_lsn = flush_lsn (file_ctrl K) (phys_ops B) (ss_sk s),
      inf_local_start_lsn = ps_local_start_lsn (ss_pers s),
      inf_safekeeper_connstr = (case advertise_pg_addr conf of Some a \<Rightarrow> a | None \<Rightarrow> listen_pg_addr conf),
      inf_http_connstr = listen_http_addr conf, inf_availability_zone = conf_availability_zone conf\<rparr>"

definition ss_get_peers :: "nat \<Rightarrow> nat \<Rightarrow> shared_state \<Rightarrow> peer_info list" where
  "ss_get_peers now heartbeat_timeout s = filter (\<lambda>p. now - pi_ts p \<le> heartbeat_timeout) (peers_info s)"

definition horizon_lsn :: "bool \<Rightarrow> lsn option \<Rightarrow> shared_state \<Rightarrow> lsn" where
  "horizon_lsn wal_backup_enabled extra_horizon_lsn s =
     (let h0 = min (ps_remote_lsn (ss_pers s)) (ps_peer_horizon_lsn (ss_pers s));
          h1 = (if wal_backup_enabled then min h0 (ps_backup_lsn (ss_pers s)) else h0)
      in case extra_horizon_lsn of Some l \<Rightarrow> min h1 l | None \<Rightarrow> h1)"

definition get_horizon_segno :: "bool \<Rightarrow> lsn option \<Rightarrow> u64 ss_method" where
  "get_horizon_segno wal_backup_enabled extra_horizon_lsn =
     unwrap (\<lambda>s. segment_number (horizon_lsn wal_backup_enabled extra_horizon_lsn s) (get_wal_seg_size s))"

section \<open>The timeline\<close>

record timeline =
  ttid :: "id16 \<times> id16"
  tl_shared :: shared_state
  commit_lsn_watch :: lsn
  term_flush_lsn_watch :: term_lsn
  tl_walsenders :: walsenders
  tl_walreceivers :: walreceivers
  cancelled :: bool
  walsenders_keep_horizon :: bool
  launcher_notifications :: nat

type_synonym 'a tl_method = "(timeline, sk_error, 'a) rust"

definition on_shared :: "'a ss_method \<Rightarrow> 'a tl_method" where
  "on_shared = on_field tl_shared (\<lambda>x t. t\<lparr>tl_shared := x\<rparr>)"

abbreviation tl_sk :: "timeline \<Rightarrow> (file_storage, phys) safekeeper" where
  "tl_sk t \<equiv> ss_sk (tl_shared t)"

definition term_flush_of :: "ctl_codec \<Rightarrow> wal_bindings \<Rightarrow> shared_state \<Rightarrow> term_lsn" where
  "term_flush_of K B s = \<lparr>tl_term = get_term (file_ctrl K) (ss_sk s), tl_lsn = flush_lsn (file_ctrl K) (phys_ops B) (ss_sk s)\<rparr>"

definition load_timeline ::
    "ctl_codec \<Rightarrow> wal_bindings \<Rightarrow> sk_conf \<Rightarrow> nat \<Rightarrow> fs \<Rightarrow> fs \<Rightarrow> id16 \<times> id16 \<Rightarrow> (sk_error, timeline) outcome" where
  "load_timeline K B conf now ctl_files wal_files tt = (case shared_restore K B conf now ctl_files wal_files of
       Ok s \<Rightarrow> Ok \<lparr>ttid = tt, tl_shared = s, commit_lsn_watch = ps_commit_lsn (ss_pers s),
          term_flush_lsn_watch = term_flush_of K B s, tl_walsenders = walsenders_new, tl_walreceivers = [],
          cancelled = False, walsenders_keep_horizon = conf_walsenders_keep_horizon conf, launcher_notifications = 0\<rparr>
     | Err e \<Rightarrow> Err e | Panic \<Rightarrow> Panic)"

definition create_empty ::
    "ctl_codec \<Rightarrow> wal_bindings \<Rightarrow> sk_conf \<Rightarrow> nat \<Rightarrow> fs \<Rightarrow> fs \<Rightarrow> id16 \<times> id16 \<Rightarrow> server_info \<Rightarrow> lsn \<Rightarrow> lsn \<Rightarrow>
      (sk_error, timeline) outcome" where
  "create_empty K B conf now ctl_files wal_files tt server_info commit_lsn local_start_lsn =
     (case shared_create_new K B conf now ctl_files wal_files
         (pstate_new (fst tt) (snd tt) server_info [] commit_lsn local_start_lsn) of
       Ok s \<Rightarrow> Ok \<lparr>ttid = tt, tl_shared = s, commit_lsn_watch = Lsn_INVALID,
          term_flush_lsn_watch = \<lparr>tl_term = INVALID_TERM, tl_lsn = Lsn_INVALID\<rparr>, tl_walsenders = walsenders_new,
          tl_walreceivers = [], cancelled = False, walsenders_keep_horizon = conf_walsenders_keep_horizon conf,
          launcher_notifications = 0\<rparr>
     | Err e \<Rightarrow> Err e | Panic \<Rightarrow> Panic)"

definition cancel :: "unit tl_method" where
  "cancel = andthen (update (\<lambda>t. t\<lparr>cancelled := True\<rparr>)) (\<lambda>_. on_shared (on_sk (on_wal phys_close)))"

definition not_cancelled :: "unit tl_method" where
  "not_cancelled = require (\<lambda>t. \<not> cancelled t) TimelineCancelled"

definition notify_launcher :: "bool \<Rightarrow> unit tl_method" where
  "notify_launcher pending = run_if (\<lambda>_. pending) (update (\<lambda>t. t\<lparr>launcher_notifications := Suc (launcher_notifications t)\<rparr>))"

definition tl_update_status :: "ctl_codec \<Rightarrow> bool tl_method" where
  "tl_update_status K = andthen (read (\<lambda>t. get_num (tl_walreceivers t))) (\<lambda>n. on_shared (ss_update_status K n))"

definition update_status_notify :: "ctl_codec \<Rightarrow> unit tl_method" where
  "update_status_notify K =
     andthen not_cancelled (\<lambda>_. andthen (tl_update_status K) notify_launcher)"

definition should_walsender_stop :: "lsn \<Rightarrow> timeline \<Rightarrow> bool" where
  "should_walsender_stop reported_remote_consistent_lsn t =
     (cancelled t \<or> (get_num (tl_walreceivers t) = 0 \<and>
        (m_commit_lsn (ss_mem (tl_shared t)) = 0 \<or> reported_remote_consistent_lsn \<ge> m_commit_lsn (ss_mem (tl_shared t)))))"

definition acquire_term :: "consensus_term \<Rightarrow> unit tl_method" where
  "acquire_term x = require (\<lambda>t. as_term (ps_acceptor_state (ss_pers (tl_shared t))) = x) TermNotAcquired"

definition tl_wal_backup_attend :: "bool tl_method" where
  "tl_wal_backup_attend = branch cancelled (ret False)
     (andthen (read (\<lambda>t. get_num (tl_walreceivers t))) (\<lambda>n. on_shared (ss_wal_backup_attend n)))"

text \<open>The feedbacks of the WAL senders are filled into an append response.\<close>

definition fill_feedback :: "walsenders \<Rightarrow> acceptor_proposer_message option \<Rightarrow> acceptor_proposer_message option" where
  "fill_feedback ws rmsg = (case rmsg of
       Some (AAppendResponse resp) \<Rightarrow> (case get_feedbacks ws of (ps, hs) \<Rightarrow>
         Some (AAppendResponse (resp\<lparr>rsp_hs_feedback := hs, rsp_pageserver_feedback := ps\<rparr>)))
     | _ \<Rightarrow> rmsg)"

definition tl_process_msg ::
    "ctl_codec \<Rightarrow> wal_bindings \<Rightarrow> proposer_acceptor_message \<Rightarrow> acceptor_proposer_message option tl_method" where
  "tl_process_msg K B msg =
     andthen not_cancelled (\<lambda>_.
     andthen (on_shared (on_sk (process_msg (file_ctrl K) (phys_ops B) msg))) (\<lambda>rmsg.
     andthen (read (\<lambda>t. fill_feedback (tl_walsenders t) rmsg)) (\<lambda>rmsg'.
     andthen (update (\<lambda>t. t\<lparr>commit_lsn_watch := m_commit_lsn (ss_mem (tl_shared t)),
        term_flush_lsn_watch := term_flush_of K B (tl_shared t)\<rparr>)) (\<lambda>_.
     ret rmsg'))))"

definition set_wal_backup_lsn :: "lsn \<Rightarrow> unit tl_method" where
  "set_wal_backup_lsn backup_lsn =
     andthen not_cancelled (\<lambda>_.
     on_shared (on_sk (set_mem (\<lambda>m. m\<lparr>m_backup_lsn := max (m_backup_lsn m) backup_lsn\<rparr>))))"

definition tl_record_safekeeper_info :: "ctl_codec \<Rightarrow> wal_bindings \<Rightarrow> nat \<Rightarrow> sk_timeline_info \<Rightarrow> unit tl_method" where
  "tl_record_safekeeper_info K B now sk_info =
     andthen (on_shared (on_sk (record_safekeeper_info (file_ctrl K) (phys_ops B) sk_info))) (\<lambda>_.
     andthen (on_shared (update (\<lambda>s. s\<lparr>peers_info := peers_upsert (from_sk_info sk_info now) (peers_info s)\<rparr>))) (\<lambda>_.
     andthen (tl_update_status K) (\<lambda>pending.
     andthen (update (\<lambda>t. t\<lparr>commit_lsn_watch := m_commit_lsn (ss_mem (tl_shared t))\<rparr>)) (\<lambda>_.
     notify_launcher pending))))"

definition update_remote_consistent_lsn :: "lsn \<Rightarrow> unit tl_method" where
  "update_remote_consistent_lsn candidate =
     on_shared (on_sk (set_mem (\<lambda>m. m\<lparr>m_remote_lsn := max (m_remote_lsn m) candidate\<rparr>)))"

definition remove_old_wal :: "bool \<Rightarrow> unit tl_method" where
  "remove_old_wal wal_backup_enabled =
     andthen not_cancelled (\<lambda>_.
     andthen (read (\<lambda>t. if walsenders_keep_horizon t then laggard_lsn (tl_walsenders t) else None)) (\<lambda>replication_horizon_lsn.
     andthen (on_shared (get_horizon_segno wal_backup_enabled replication_horizon_lsn)) (\<lambda>horizon_segno.
     branch (\<lambda>t. horizon_segno \<le> 1 \<or> horizon_segno \<le> last_removed_segno (tl_shared t))
       (ret ())
       (andthen (on_shared (on_sk (on_wal (remove_up_to (horizon_segno - 1))))) (\<lambda>_.
        on_shared (update (\<lambda>s. s\<lparr>last_removed_segno := horizon_segno\<rparr>)))))))"

definition maybe_persist_control_file :: "ctl_codec \<Rightarrow> nat \<Rightarrow> unit tl_method" where
  "maybe_persist_control_file K now = on_shared (on_sk (maybe_persist_inmem_control_file (file_ctrl K) now))"

section \<open>Feedback of a reader\<close>

text \<open>
  The deserializers of the standby's replies, and the wire that the pageserver's feedback is
  read from, are arguments; slices beyond the message panic.
\<close>

record feedback_codec =
  des_hs_feedback :: "byte list \<Rightarrow> hot_standby_feedback option"
  des_standby_reply :: "byte list \<Rightarrow> standby_reply option"
  feedback_wire :: wire

definition parse_ps_feedback :: "feedback_codec \<Rightarrow> byte list \<Rightarrow> pageserver_feedback option" where
  "parse_ps_feedback F buf = (case fst (feedback_parse (feedback_wire F) buf) of Ok f \<Rightarrow> Some f | _ \<Rightarrow> None)"

definition on_walsenders :: "(sk_error, 'a) ws_method \<Rightarrow> 'a tl_method" where
  "on_walsenders = on_field tl_walsenders (\<lambda>x t. t\<lparr>tl_walsenders := x\<rparr>)"

definition handle_feedback :: "feedback_codec \<Rightarrow> nat \<Rightarrow> byte list \<Rightarrow> unit tl_method" where
  "handle_feedback F i msg = (case msg of
       [] \<Rightarrow> ret ()
     | tag # body \<Rightarrow>
         if tag = 104 then
           (case des_hs_feedback F body of None \<Rightarrow> bail FeedbackDeserialize
            | Some f \<Rightarrow> on_walsenders (record_hs_feedback i f))
         else if tag = 114 then
           (case des_standby_reply F body of None \<Rightarrow> bail FeedbackDeserialize
            | Some r \<Rightarrow> on_walsenders (record_standby_reply i r))
         else if tag = 122 then
           (if length msg < 9 then panic
            else andthen (unwrap (\<lambda>_. parse_ps_feedback F (drop 9 msg))) (\<lambda>f.
              andthen (on_walsenders (record_ps_feedback i f)) (\<lambda>_.
              update_remote_consistent_lsn (ps_remote_consistent_lsn f))))
         else ret ())"

section \<open>Recovery from a peer\<close>

record donor =
  dn_sk_id :: node_id
  dn_term :: consensus_term
  dn_flush_lsn :: lsn
  dn_pg_connstr :: string
  dn_http_connstr :: string

definition donor_from :: "peer_info \<Rightarrow> donor" where
  "donor_from p = \<lparr>dn_sk_id = pi_sk_id p, dn_term = pi_term p, dn_flush_lsn = pi_flush_lsn p,
     dn_pg_connstr = pi_pg_connstr p, dn_http_connstr = pi_http_connstr p\<rparr>"

record recovery_needed_info =
  rn_term :: consensus_term
  rn_last_log_term :: consensus_term
  rn_flush_lsn :: lsn
  rn_peers :: "peer_info list"
  rn_num_streaming_computes :: nat
  rn_donors :: "donor list"

text \<open>\<open>TermLsn\<close> is compared field by field. \<open>sort_by\<close> is stable; the order is descending.\<close>

definition log_end :: "peer_info \<Rightarrow> consensus_term \<times> lsn" where
  "log_end p = (pi_last_log_term p, pi_flush_lsn p)"

definition sort_peers :: "peer_info list \<Rightarrow> peer_info list" where
  "sort_peers ps = rev (sort_key log_end (rev ps))"

definition recovery_needed :: "ctl_codec \<Rightarrow> wal_bindings \<Rightarrow> nat \<Rightarrow> nat \<Rightarrow> timeline \<Rightarrow> recovery_needed_info" where
  "recovery_needed K B now heartbeat_timeout t =
     (let ss = tl_shared t;
          my_term = as_term (ps_acceptor_state (ss_pers ss));
          last_log_term = get_epoch (file_ctrl K) (phys_ops B) (ss_sk ss);
          my_flush_lsn = flush_lsn (file_ctrl K) (phys_ops B) (ss_sk ss);
          peers = sort_peers (ss_get_peers now heartbeat_timeout ss);
          streaming = get_num_streaming (tl_walreceivers t);
          donors = (if streaming > 0 then []
            else List.map_filter (\<lambda>candidate.
              if (last_log_term, my_flush_lsn) < log_end candidate
              then if pi_term candidate = pi_last_log_term candidate \<and> pi_term candidate \<ge> my_term
                then Some (donor_from candidate) else None
              else None) peers)
      in \<lparr>rn_term = my_term, rn_last_log_term = last_log_term, rn_flush_lsn = my_flush_lsn, rn_peers = peers,
          rn_num_streaming_computes = streaming, rn_donors = donors\<rparr>)"

text \<open>
  \<open>recover\<close> up to the start of streaming: the term and the history that the donor's HTTP API
  reports are arguments.
\<close>

definition recover_start ::
    "ctl_codec \<Rightarrow> wal_bindings \<Rightarrow> donor \<Rightarrow> consensus_term \<Rightarrow> term_history \<Rightarrow> lsn tl_method" where
  "recover_start K B d reported_term donor_th =
     andthen (require (\<lambda>_. reported_term = dn_term d) DonorTermChanged) (\<lambda>_.
     andthen (tl_process_msg K B (VoteRequest \<lparr>vreq_term = dn_term d\<rparr>)) (\<lambda>r. case r of
         Some (AVoteResponse vr) \<Rightarrow>
           andthen (require (\<lambda>_. vr_term vr = dn_term d) OurTermChanged) (\<lambda>_.
           andthen (\<lambda>t. (find_highest_common_point donor_th (vr_term_history vr) (vr_flush_lsn vr), t)) (\<lambda>lcp. case lcp of
              None \<Rightarrow> bail NoCommonPoint
            | Some last_common_point \<Rightarrow>
                andthen (tl_process_msg K B (Elected \<lparr>pe_term = dn_term d, pe_start_streaming_at = tl_lsn last_common_point,
                    pe_term_history = donor_th, pe_timeline_start_lsn = Lsn_INVALID\<rparr>)) (\<lambda>_.
                ret (tl_lsn last_common_point))))
       | _ \<Rightarrow> bail UnexpectedVoteReply))"

end
