(* ===== verification/Safekeeper_Runs.thy ===== *)
theory Safekeeper_Runs
  imports Sk_Timeline
begin

text \<open>
  The safekeeper of one timeline over time: messages of proposers, positions of peers,
  persists of the control file and restarts after power failures, in any order, on the file
  system's control file and WAL storage. The theorems hold for every run.
\<close>

section \<open>The assembled safekeeper\<close>

type_synonym file_safekeeper = "(file_storage, phys) safekeeper"

locale sk_formats = ctl_format K + wal_format B
  for K :: ctl_codec and B :: wal_bindings

sublocale sk_formats \<subseteq> sk: sk_storages "file_ctrl K" file_inv "file_on_disk K" "phys_ops B" "phys_inv B" ..

interpretation example_sk: sk_formats example_ctl_codec example_bindings ..

datatype sk_event =
    ProposerMessage proposer_acceptor_message
  | PeerPositions sk_timeline_info
  | PersistTick nat
  | FlushControl
  | BackedUp lsn
  | RemotelyConsistent lsn
  | RemoveWal u64
  | CloseWal

text \<open>All but the messages of proposers have no reply.\<close>

definition silent_event :: "ctl_codec \<Rightarrow> wal_bindings \<Rightarrow> sk_event \<Rightarrow> (file_storage, phys, unit) sk_method" where
  "silent_event K B ev = (case ev of
       ProposerMessage _ \<Rightarrow> ret ()
     | PeerPositions i \<Rightarrow> record_safekeeper_info (file_ctrl K) (phys_ops B) i
     | PersistTick now \<Rightarrow> maybe_persist_inmem_control_file (file_ctrl K) now
     | FlushControl \<Rightarrow> on_state (flush_state (file_ctrl K))
     | BackedUp l \<Rightarrow> set_mem (\<lambda>m. m\<lparr>m_backup_lsn := max (m_backup_lsn m) l\<rparr>)
     | RemotelyConsistent l \<Rightarrow> set_mem (\<lambda>m. m\<lparr>m_remote_lsn := max (m_remote_lsn m) l\<rparr>)
     | RemoveWal segno \<Rightarrow> on_wal (remove_up_to segno)
     | CloseWal \<Rightarrow> on_wal phys_close)"

definition handle_event ::
    "ctl_codec \<Rightarrow> wal_bindings \<Rightarrow> sk_event \<Rightarrow> (file_storage, phys, acceptor_proposer_message option) sk_method" where
  "handle_event K B ev = (case ev of
       ProposerMessage m \<Rightarrow> process_msg (file_ctrl K) (phys_ops B) m
     | _ \<Rightarrow> andthen (silent_event K B ev) (\<lambda>_. ret None))"

text \<open>The votes granted by the reply of a step, and whether the step left the WAL storage in doubt.\<close>

definition votes_of :: "(sk_error, acceptor_proposer_message option) outcome \<Rightarrow> consensus_term list" where
  "votes_of r = (case r of Ok x \<Rightarrow> granted x | _ \<Rightarrow> [])"

definition in_doubt :: "(sk_error, 'a) outcome \<Rightarrow> bool" where
  "in_doubt r = (r = Err WalDecode \<or> r = Panic)"

text \<open>
  \<open>sk_run K B vs doubt s\<close>: the state \<open>s\<close> is reached after granting the votes \<open>vs\<close>, the latest
  first; \<open>doubt\<close> holds when since the last restart the WAL decoder failed or a handler panicked.
\<close>

inductive sk_run :: "ctl_codec \<Rightarrow> wal_bindings \<Rightarrow> consensus_term list \<Rightarrow> bool \<Rightarrow> file_safekeeper \<Rightarrow> bool"
  for K :: ctl_codec and B :: wal_bindings where
  create: "sk_run K B [] False (ss_sk ss)"
    if "shared_create_new K B conf now f g state = Ok ss" and "\<not> conf_no_sync conf"
      and "replaceable CONTROL_FILE_NAME_PARTIAL CONTROL_FILE_NAME f" and "refs CONTROL_FILE_NAME f = {None}"
      and "si_wal_seg_size (ps_server state) = 16777216"
| event: "sk_run K B (votes_of r @ vs) (doubt \<or> in_doubt r) s'"
    if "sk_run K B vs doubt s" and "handle_event K B ev s = (r, s')"
| restart: "sk_run K B vs False (ss_sk ss)"
    if "sk_run K B vs doubt s" and "after_crash (ctl_fs (pers (sk_state s))) f"
      and "shared_restore K B conf now f g = Ok ss" and "\<not> conf_no_sync conf"
      and "si_wal_seg_size (ps_server (sk_pers (file_ctrl K) (ss_sk ss))) = 16777216"

section \<open>Restarts\<close>

lemma sk_withE:
  assumes "sk_with K conf c w = Ok ss"
  shows "safekeeper_new (file_ctrl K) c w (my_id conf) = Ok (ss_sk ss)"
  using assms by (auto simp: sk_with_def split: outcome.splits)

lemma shared_restoreE:
  assumes "shared_restore K B conf now f g = Ok ss" and "\<not> conf_no_sync conf"
  obtains c w g' where "restore_new K False now f = Ok c" and "phys_new B False (ctl_state c) g = (Ok w, g')"
    and "safekeeper_new (file_ctrl K) c w (my_id conf) = Ok (ss_sk ss)"
proof -
  from assms obtain c where c: "restore_new K False now f = Ok c"
    by (auto simp: shared_restore_def split: outcome.splits)
  with assms that show thesis
    by (cases "phys_new B False (ctl_state c) g")
      (auto simp: shared_restore_def split: outcome.splits if_splits dest!: sk_withE)
qed

lemma shared_create_newE:
  assumes "shared_create_new K B conf now f g state = Ok ss" and "\<not> conf_no_sync conf"
  obtains w g' where "phys_new B False state g = (Ok w, g')"
    and "safekeeper_new (file_ctrl K) (file_storage_create_new f False now state) w (my_id conf) = Ok (ss_sk ss)"
  using assms that
  by (cases "phys_new B False state g")
    (auto simp: shared_create_new_def Let_def file_storage_create_new_def split: outcome.splits if_splits dest!: sk_withE)

lemma create_file_inv:
  assumes "replaceable CONTROL_FILE_NAME_PARTIAL CONTROL_FILE_NAME f" and "refs CONTROL_FILE_NAME f = {None}"
  shows "file_inv (file_storage_create_new f False now state)"
    and "file_on_disk K (file_storage_create_new f False now state) = {}"
  using assms by (simp_all add: file_inv_def file_storage_create_new_def file_on_disk_def crash_contents_def)

lemma safekeeper_new_state:
  "safekeeper_new C c w nid = Ok s \<Longrightarrow> pers (sk_state s) = c \<and> sk_mem s = mem_of (c_state C c) \<and> wal_store s = w"
  by (auto simp: safekeeper_new_def timeline_state_new_def split: if_splits)

lemma next_fault_ok: "next_fault s = (Ok x, t) \<Longrightarrow> \<exists>f. t = s\<lparr>faults := f\<rparr>"
  by (cases s) (auto simp: next_fault_def split: list.splits)

lemma fs_read_ok:
  assumes "fs_read name s = (Ok bs, t)"
  shows "fs_contents s name = Some bs \<and> (\<exists>f. t = s\<lparr>faults := f\<rparr>)"
  using assms
  by (auto simp: fs_read_def fs_open_def may_fail_def andthen_def read_def ret_def bail_def
      fs_contents_def fs_lookup_def split: option.splits prod.splits outcome.splits if_splits dest!: next_fault_ok)

text \<open>A restart loads one of the states that the disk may hold, and then no other is left.\<close>

lemma restore_new_crash:
  assumes inv: "file_inv f" and crash: "after_crash (ctl_fs f) g" and c: "restore_new K False now g = Ok c"
  shows "file_inv c \<and> ctl_state c \<in> file_on_disk K f \<and> file_on_disk K c = {ctl_state c}"
proof -
  obtain bs h where bs: "fs_contents g CONTROL_FILE_NAME = Some bs" "check_control_bytes K bs = Ok (ctl_state c)"
    and g: "ctl_fs c = g\<lparr>faults := h\<rparr>" "\<not> ctl_no_sync c"
    using c fs_read_ok [of CONTROL_FILE_NAME g]
    by (auto simp: restore_new_def load_control_file_def andthen_def map_err_def split: prod.splits outcome.splits)
  note r = after_crash_replaceable [OF _ crash, of CONTROL_FILE_NAME_PARTIAL CONTROL_FILE_NAME]
  from inv g r have c_inv: "file_inv c" by (simp add: file_inv_def)
  moreover have "versions_of CONTROL_FILE_NAME (ctl_fs c) = {Some bs}"
    using inv g r bs by (simp add: file_inv_def)
  ultimately have "file_on_disk K c = {ctl_state c}"
    using bs by (auto simp: file_on_disk_versions)
  moreover have "ctl_state c \<in> file_on_disk K f"
    using after_crash_contents [OF crash, of CONTROL_FILE_NAME] bs by (auto simp: file_on_disk_def)
  ultimately show ?thesis using c_inv by simp
qed

section \<open>Invariants of runs\<close>

lemma file_ctrl_simps [simp]: "c_state (file_ctrl K) = ctl_state" "w_flush_lsn (phys_ops B) = flush_record_lsn"
  by (simp_all add: file_ctrl_def phys_ops_def)

text \<open>Only a vote request is answered with a vote.\<close>

lemma no_votes:
  "returns (\<lambda>r. granted r = []) (handle_greeting C g)"
  "returns (\<lambda>r. granted r = []) (handle_elected C W e)"
  "returns (\<lambda>r. granted r = []) (handle_append_request C W a b)"
  "returns (\<lambda>r. granted r = []) (handle_flush C W)"
  "returns (\<lambda>r. granted r = []) (andthen m (\<lambda>_. ret None))"
  by (unfold handle_greeting_def handle_elected_def handle_append_request_def handle_flush_def)
    ((rule keeps | simp add: granted_def; fail)+)

lemma wp_no_votes:
  assumes "keeps I (\<lambda>_. I) I m" and "returns (\<lambda>r. granted r = []) m" and "I s"
  shows "wp m (\<lambda>r s'. I s' \<and> (\<forall>v \<in> set (granted r). P v s')) (\<lambda>_. I) I s"
  using keepsD [OF assms(1,3)] assms(2) [unfolded returns_def, rule_format, of s]
  by (auto simp: wp_def split: prod.splits outcome.splits)

context sk_formats
begin

lemma kept_silent: "file_ctl.kept t k (silent_event K B ev)"
  by (cases ev) (auto simp: silent_event_def intro: keeps file_ctl.kept_record_info file_ctl.kept_maybe_persist
      file_ctl.kept_flush_state file_ctl.kept_set_mem file_ctl.kept_on_wal)

lemma event_votes:
  assumes I: "file_ctl.at_least t k s"
  shows "wp (handle_event K B ev)
    (\<lambda>r s'. file_ctl.at_least t k s' \<and>
       (\<forall>v \<in> set (granted r). get_term (file_ctrl K) s < v \<and> file_ctl.at_least v k s'))
    (\<lambda>_. file_ctl.at_least t k) (file_ctl.at_least t k) s"
proof (cases "\<exists>m. ev = ProposerMessage m")
  case True
  then obtain m where ev: "ev = ProposerMessage m" ..
  show ?thesis
    by (cases m) (use file_ctl.vote_request_wp [OF I] I in \<open>auto simp: handle_event_def ev process_msg_def
        intro!: wp_no_votes no_votes file_ctl.kept_greeting file_ctl.kept_elected file_ctl.kept_append file_ctl.kept_flush\<close>)
next
  case False
  then have "handle_event K B ev = andthen (silent_event K B ev) (\<lambda>_. ret None)"
    by (cases ev) (simp_all add: handle_event_def)
  then show ?thesis
    by (simp only:) (rule wp_no_votes [where I = "file_ctl.at_least t k", OF _ no_votes(5) I], intro keeps kept_silent)
qed

lemma durable_event: "file_ctl.durable (handle_event K B ev)"
  by (cases ev) (auto simp: handle_event_def silent_event_def intro: keeps file_ctl.durable_process_msg
      file_ctl.durable_record_info file_ctl.durable_maybe_persist file_ctl.durable_flush_state
      file_ctl.durable_set_mem file_ctl.durable_on_wal)

lemma safe_still:
  assumes "\<And>c. fst c = 16777216 \<Longrightarrow> still c m"
  shows "sk.safe (on_wal m)"
proof (rule keepsI)
  fix s :: file_safekeeper
  assume I: "sk.sk_inv s"
  then have inv: "phys_inv B (wal_store s)" by (simp add: sk.sk_inv_def)
  then have "wp m (\<lambda>_ w. cursor w = cursor (wal_store s)) (\<lambda>_ w. cursor w = cursor (wal_store s)) (\<lambda>_. False) (wal_store s)"
    by (intro keepsD [OF assms]) (simp_all add: cursor_def phys_inv_def)
  moreover have keep: "sk.sk_inv (s\<lparr>wal_store := w\<rparr>)" if "cursor w = cursor (wal_store s)" for w
    using phys_inv_cursor [OF that inv] I by (auto simp: sk.sk_inv_def flush_lsn_def)
  ultimately show "wp (on_wal m) (\<lambda>_. sk.sk_inv) (\<lambda>e s. e \<noteq> WalDecode \<longrightarrow> sk.sk_inv s) (\<lambda>_. True) s"
    unfolding on_wal_def wp by (rule wp_mono) (simp_all add: keep)
qed

lemma still_remove_up_to: "fst c = 16777216 \<Longrightarrow> still c (remove_up_to n)"
  unfolding remove_up_to_def wp_andthen
  by (rule keepsI) (use keepsD [OF still_remove_segments] in \<open>auto simp: wp_andthen wp_read cursor_def\<close>)

lemma still_phys_close: "still c phys_close"
  unfolding phys_close_def by (intro keeps)

lemma safe_silent: "sk.safe (silent_event K B ev)"
  by (cases ev) (auto simp: silent_event_def intro: keeps sk.safe_record_info sk.safe_maybe_persist sk.safe_flush_state
      sk.safe_set_mem safe_still [OF still_remove_up_to] safe_still [OF still_phys_close])

lemma safe_event: "sk.safe (handle_event K B ev)"
  by (cases ev) (auto simp: handle_event_def intro: keeps sk.safe_process_msg safe_silent)

lemma fresh_sk_inv:
  assumes "file_inv c" and "si_wal_seg_size (ps_server (ctl_state c)) = 16777216"
    and "phys_new B False (ctl_state c) f = (Ok w, f')" and "safekeeper_new (file_ctrl K) c w nid = Ok s"
  shows "sk.sk_inv s"
  using assms(1) safekeeper_new_state [OF assms(4)] phys_new_positions [OF bindings assms(2,3)]
  by (auto simp: sk.sk_inv_def flush_lsn_def mem_of_def le_max_iff_disj)

lemma restart_term:
  assumes "file_ctl.at_least t k s" and "file_ctl.term_durable s" and "after_crash (ctl_fs (pers (sk_state s))) f"
    and "shared_restore K B conf now f g = Ok ss" and "\<not> conf_no_sync conf"
  shows "file_ctl.at_least t 0 (ss_sk ss) \<and> file_ctl.term_durable (ss_sk ss)"
proof -
  obtain c w where c: "restore_new K False now f = Ok c"
    and s': "safekeeper_new (file_ctrl K) c w (my_id conf) = Ok (ss_sk ss)"
    by (rule shared_restoreE [OF assms(4,5)])
  have "file_inv c \<and> ctl_state c \<in> file_on_disk K (pers (sk_state s)) \<and> file_on_disk K c = {ctl_state c}"
    by (rule restore_new_crash [OF _ assms(3) c]) (use assms(1) in \<open>simp add: file_ctl.at_least_def\<close>)
  with assms(1) safekeeper_new_state [OF s'] show ?thesis
    by (auto simp: file_ctl.at_least_def file_ctl.term_durable_def get_term_of)
qed

lemma granted_cases: "granted r = [] \<or> (\<exists>v. granted r = [v])"
  by (simp add: granted_def split: option.splits acceptor_proposer_message.splits)

lemma run_votes:
  "sk_run K B vs doubt s \<Longrightarrow>
     sorted_wrt (>) vs \<and> file_ctl.at_least (hd (vs @ [0])) 0 s \<and> file_ctl.term_durable s"
proof (induction rule: sk_run.induct)
  case (create conf now f g state ss)
  obtain w where "safekeeper_new (file_ctrl K) (file_storage_create_new f False now state) w (my_id conf) = Ok (ss_sk ss)"
    by (rule shared_create_newE [OF create.hyps(1,2)])
  from safekeeper_new_state [OF this] create_file_inv [OF create.hyps(3,4)] show ?case
    by (auto simp: file_ctl.at_least_def file_ctl.term_durable_def get_term_of)
next
  case (event vs doubt s ev r s')
  have "file_ctl.term_durable s'"
    using keepsD [OF durable_event, of s ev] event by (cases r) (auto simp: wp_def)
  moreover have "sorted_wrt (>) (votes_of r @ vs) \<and> file_ctl.at_least (hd ((votes_of r @ vs) @ [0])) 0 s'"
  proof (cases r)
    case (Ok x)
    let ?t = "hd (vs @ [0])"
    have vote: "file_ctl.at_least ?t 0 s'" "v \<in> set (granted x) \<Longrightarrow> get_term (file_ctrl K) s < v \<and> file_ctl.at_least v 0 s'" for v
      using event_votes [of ?t 0 s ev] event Ok by (simp_all add: wp_def)
    have IH: "sorted_wrt (>) vs" "?t \<le> get_term (file_ctrl K) s"
      using event.IH by (simp_all add: file_ctl.at_least_def)
    then have low: "v \<le> get_term (file_ctrl K) s" if "v \<in> set vs" for v
      using that by (cases vs) auto
    from granted_cases [of x] show ?thesis
    proof
      assume "granted x = []"
      with vote(1) IH(1) Ok show ?thesis by (simp add: votes_of_def)
    next
      assume "\<exists>v. granted x = [v]"
      then obtain v where v: "granted x = [v]" ..
      with vote(2) [of v] low have "v' < v" if "v' \<in> set vs" for v' using that by (auto intro: le_less_trans)
      with v vote(2) [of v] IH(1) Ok show ?thesis by (simp add: votes_of_def)
    qed
  qed (use event event_votes [of "hd (vs @ [0])" 0 s ev] in \<open>auto simp: wp_def votes_of_def\<close>)
  ultimately show ?case by simp
next
  case (restart vs doubt s f conf now g ss)
  then show ?case using restart_term by blast
qed

lemma run_safe: "sk_run K B vs doubt s \<Longrightarrow> file_inv (pers (sk_state s)) \<and> (\<not> doubt \<longrightarrow> sk.sk_inv s)"
proof (induction rule: sk_run.induct)
  case (create conf now f g state ss)
  obtain w g' where w: "phys_new B False state g = (Ok w, g')"
    and sk: "safekeeper_new (file_ctrl K) (file_storage_create_new f False now state) w (my_id conf) = Ok (ss_sk ss)"
    by (rule shared_create_newE [OF create.hyps(1,2)])
  have state: "ctl_state (file_storage_create_new f False now state) = state" by (simp add: file_storage_create_new_def)
  note inv = create_file_inv(1) [OF create.hyps(3,4), of now state]
  from fresh_sk_inv [OF inv _ _ sk] w create.hyps(5) safekeeper_new_state [OF sk] inv show ?case by (simp add: state)
next
  case (event vs doubt s ev r s')
  then have "file_inv (pers (sk_state s'))"
    using run_votes [OF sk_run.event [OF event(1,2)]] by (simp add: file_ctl.term_durable_def)
  moreover have "sk.sk_inv s'" if "\<not> doubt" "\<not> in_doubt r"
    using keepsD [OF safe_event, of s ev] event that by (cases r) (auto simp: wp_def in_doubt_def)
  ultimately show ?case by simp
next
  case (restart vs doubt s f conf now g ss)
  obtain c w g' where c: "restore_new K False now f = Ok c" and w: "phys_new B False (ctl_state c) g = (Ok w, g')"
    and s': "safekeeper_new (file_ctrl K) c w (my_id conf) = Ok (ss_sk ss)"
    by (rule shared_restoreE [OF restart.hyps(3,4)])
  have "file_inv c" using restore_new_crash [OF _ restart.hyps(2) c] restart.IH by simp
  with fresh_sk_inv [OF _ _ w s'] restart.hyps(5) safekeeper_new_state [OF s'] show ?case by simp
qed

end

end
