(* ===== verification/Wal_Progress.thy ===== *)
theory Wal_Progress
  imports Wal_Storage
begin

text \<open>
  Without I/O errors the operations of \<open>PhysicalStorage\<close> succeed.
\<close>

section \<open>Calls without faults\<close>

definition tidy :: "fs \<Rightarrow> bool" where
  "tidy f = (faults f = [] \<and> distinct (map fst (dir f)))"

lemma calls_succeed:
  assumes "faults f = []"
  shows "may_fail m f = m f"
    and "fs_write i off bs f = (Ok (), set_data i (write_bytes off bs (data f i)) f)"
    and "fs_lookup f name = Some i \<Longrightarrow> fs_open name f = (Ok i, f)"
    and "fs_lookup f name = None \<Longrightarrow> fs_open name f = (Err NotFound, f)"
    and "fs_lookup f name = Some i \<Longrightarrow> fs_remove name f = (Ok (), set_dir (AList.delete name (dir f)) f)"
    and "fs_lookup f name = Some i \<Longrightarrow>
      fs_rename name new f = (Ok (), set_dir (AList.update new i (AList.delete name (dir f))) f)"
    and "fs_sync i f = (Ok (), sync_inode i f)"
    and "fs_sync_dir f = (Ok (), f\<lparr>older_dirs := []\<rparr>)"
    and "fs_names f = (Ok (map fst (dir f)), f)"
  using assms
  by (simp_all add: may_fail_def next_fault_def andthen_def fs_write_def fs_open_def fs_remove_def fs_rename_def
      fs_sync_def fs_sync_dir_def fs_names_def read_def ret_def bail_def update_def)

lemma write_zeroes_succeeds: "faults f = [] \<Longrightarrow> \<exists>d. write_zeroes i pos n f = (Ok (), f\<lparr>data := d\<rparr>)"
proof (induction i pos n arbitrary: f rule: write_zeroes.induct)
  case (1 i pos n)
  have data: "set_data i bs f = f\<lparr>data := (data f)(i := bs)\<rparr>" for bs by (simp add: set_data_def)
  show ?case
  proof (cases "n \<ge> 8192")
    case True
    obtain d where "write_zeroes i (pos + 8192) (n - 8192) (set_data i (write_bytes pos (replicate 8192 0) (data f i)) f)
        = (Ok (), (set_data i (write_bytes pos (replicate 8192 0) (data f i)) f)\<lparr>data := d\<rparr>)"
      using 1 True by (metis data_simps(9))
    with True 1 show ?thesis
      by (subst write_zeroes.simps) (auto simp: andthen_def calls_succeed data)
  next
    case False
    with 1 show ?thesis
      by (subst write_zeroes.simps) (auto simp: andthen_def calls_succeed data ret_def)
  qed
qed

lemma distinct_names [simp]:
  "distinct (map fst (AList.delete n d))" if "distinct (map fst d)"
  using that by (simp add: AList.distinct_delete)

lemma durable_rename_succeeds:
  assumes "tidy f" and "fs_lookup f old_name = Some i"
  shows "\<exists>t. durable_rename old_name new_name b f = (Ok (), t) \<and> tidy t"
  using assms
  by (auto simp: durable_rename_def fsync_async_opt_def fsync_async_def andthen_def calls_succeed tidy_def ret_def
      fs_lookup_def update_conv' distinct_update)

lemma remove_matching_succeeds:
  assumes "tidy f" and "distinct names" and "set names \<subseteq> set (map fst (dir f))"
  shows "\<exists>t. remove_matching 16777216 p names f = (Ok (), t) \<and> tidy t"
  using assms
proof (induction names arbitrary: f)
  case Nil
  then show ?case by (auto simp: calls_succeed tidy_def ret_def)
next
  case (Cons n names)
  then obtain i where i: "fs_lookup f n = Some i"
    by (metis fs_lookup_def list.set_intros(1) list.set_map map_of_eq_None_iff not_None_eq subsetD)
  let ?t = "set_dir (AList.delete n (dir f)) f"
  have "tidy ?t" "set names \<subseteq> set (map fst (dir ?t))"
    using Cons.prems by (auto simp: tidy_def AList.delete_keys distinct_removeAll simp del: set_map)
  from Cons.IH [OF this(1) _ this(2)] Cons.prems obtain t
    where t: "remove_matching 16777216 p names ?t = (Ok (), t)" "tidy t" by auto
  obtain u where u: "remove_matching 16777216 p names f = (Ok (), u)" "tidy u"
    using Cons.IH [OF Cons.prems(1)] Cons.prems by auto
  from Cons.prems(1) i t u XLogFromFileName_16M [of n] show ?case
    by (auto simp: andthen_def calls_succeed tidy_def ret_def unwrap_def split: option.splits)
qed

lemma remove_segments_succeeds:
  "tidy f \<Longrightarrow> \<exists>t. remove_segments_from_disk 16777216 p f = (Ok (), t) \<and> tidy t"
  using remove_matching_succeeds [of f "map fst (dir f)" p]
  by (auto simp: remove_segments_from_disk_def andthen_def calls_succeed tidy_def)

section \<open>Methods\<close>

lemma andthen_ok: "m s = (Ok x, t) \<Longrightarrow> andthen m f s = f x t"
  and branch_no: "\<not> b s \<Longrightarrow> branch b m n s = n s"
  by (simp_all add: andthen_def branch_def)

lemma phys_io_ok: "m (p_fs s) = (Ok x, t) \<Longrightarrow> phys_io m s = (Ok x, s\<lparr>p_fs := t\<rparr>)"
  and phys_io_err: "m (p_fs s) = (Err e, t) \<Longrightarrow> phys_io m s = (Err (Io e), s\<lparr>p_fs := t\<rparr>)"
  by (simp_all add: phys_io_def on_field_def map_err_def)

lemma file_paths_ok:
  assumes "wal_seg_size s = 16777216"
  shows "\<exists>full part. file_paths segno s = (Ok (full, part), s)"
  using assms wal_file_paths_16M [of segno] by (auto simp: file_paths_def unwrap_def split: option.splits)

lemma open_or_create_succeeds:
  assumes "tidy (p_fs s)" and "wal_seg_size s = 16777216" and paths: "file_paths segno s = (Ok (full, part), s)"
  shows "\<exists>i b t. open_or_create segno s = (Ok (i, b), s\<lparr>p_fs := t\<rparr>) \<and> tidy t \<and> (\<not> b \<longrightarrow> fs_lookup t full = Some i)"
proof -
  let ?f = "p_fs s"
  have f: "faults ?f = []" using assms(1) by (simp add: tidy_def)
  show ?thesis
  proof (cases "fs_lookup ?f full")
    case (Some i)
    with f paths have "open_or_create segno s = (Ok (i, False), s\<lparr>p_fs := ?f\<rparr>)"
      by (simp add: open_or_create_def andthen_def catch_def phys_io_ok calls_succeed ret_def)
    with assms(1) Some show ?thesis by blast
  next
    case full: None
    show ?thesis
    proof (cases "fs_lookup ?f part")
      case (Some i)
      with f full paths have "open_or_create segno s = (Ok (i, True), s\<lparr>p_fs := ?f\<rparr>)"
        by (simp add: open_or_create_def andthen_def catch_def phys_io_ok phys_io_err calls_succeed ret_def)
      with assms(1) show ?thesis by blast
    next
      case part: None
      obtain i g where g: "fs_open_create ''waltmp'' ?f = (Ok i, g)" "tidy g" "fs_lookup g ''waltmp'' = Some i"
        using assms(1) f
        by (cases "fs_lookup ?f ''waltmp''")
          (auto simp: fs_open_create_def calls_succeed andthen_def read_def ret_def add_file_def tidy_def
            distinct_update update_conv')
      obtain d where d: "write_zeroes i 0 16777216 g = (Ok (), g\<lparr>data := d\<rparr>)"
        using write_zeroes_succeeds g(2) unfolding tidy_def by blast
      have "tidy (g\<lparr>data := d\<rparr>)" "fs_lookup (g\<lparr>data := d\<rparr>) ''waltmp'' = Some i"
        using g by (simp_all add: tidy_def fs_lookup_def)
      then obtain t where "durable_rename ''waltmp'' part (\<not> p_no_sync s) (g\<lparr>data := d\<rparr>) = (Ok (), t)" "tidy t"
        using durable_rename_succeeds by blast
      with f full part paths g d assms(2) show ?thesis
        by (auto simp: open_or_create_def andthen_def catch_def phys_io_ok phys_io_err calls_succeed ret_def read_def)
    qed
  qed
qed

lemma fdatasync_succeeds:
  assumes "tidy (p_fs s)"
  shows "\<exists>t. fdatasync_file i s = (Ok (), s\<lparr>p_fs := t\<rparr>) \<and> tidy t \<and> dir t = dir (p_fs s)"
proof (cases "p_no_sync s")
  case True
  then have "fdatasync_file i s = (Ok (), s\<lparr>p_fs := p_fs s\<rparr>)" by (simp add: fdatasync_file_def branch_def ret_def)
  with assms show ?thesis by blast
next
  case False
  with assms have "fdatasync_file i s = (Ok (), s\<lparr>p_fs := sync_inode i (p_fs s)\<rparr>)"
    by (simp add: fdatasync_file_def branch_def phys_io_ok calls_succeed tidy_def)
  moreover have "tidy (sync_inode i (p_fs s))" using assms by (simp add: tidy_def)
  ultimately show ?thesis using data_simps(13) by blast
qed

lemma rename_back_succeeds:
  assumes "tidy (p_fs s)" and "file_paths segno s = (Ok (full, part), s)"
    and "\<not> b \<longrightarrow> fs_lookup (p_fs s) full = Some i"
  shows "\<exists>t. (if b then ret () else andthen (file_paths segno) (\<lambda>(full, part). phys_io (fs_rename full part))) s =
      (Ok (), s\<lparr>p_fs := t\<rparr>) \<and> tidy t"
proof (cases b)
  case True
  then have "(if b then ret () else andthen (file_paths segno) (\<lambda>(full, part). phys_io (fs_rename full part))) s =
      (Ok (), s\<lparr>p_fs := p_fs s\<rparr>)" by (simp add: ret_def)
  with assms(1) show ?thesis by blast
next
  case False
  with assms show ?thesis
    by (auto simp: andthen_def phys_io_ok calls_succeed tidy_def distinct_update)
qed

lemma file_paths_fs [simp]:
  "file_paths segno s = (Ok (full, part), s) \<Longrightarrow> file_paths segno (s\<lparr>p_fs := t\<rparr>) = (Ok (full, part), s\<lparr>p_fs := t\<rparr>)"
  by (auto simp: file_paths_def unwrap_def split: option.splits)

lemma truncate_files_succeeds:
  assumes "tidy (p_fs s)" and "wal_seg_size s = 16777216"
  shows "\<exists>t. andthen (phys_io (remove_segments_from_disk 16777216 p)) (\<lambda>_.
        andthen (open_or_create segno) (\<lambda>(file, is_partial).
        andthen (phys_io (may_fail (ret ()))) (\<lambda>_.
        andthen (phys_io (write_zeroes file off n)) (\<lambda>_.
        andthen (fdatasync_file file) (\<lambda>_.
        andthen (if is_partial then ret ()
           else andthen (file_paths segno) (\<lambda>(full, part). phys_io (fs_rename full part))) (\<lambda>_.
        update g)))))) s = (Ok (), g (s\<lparr>p_fs := t\<rparr>)) \<and> tidy t"
proof -
  obtain full part where paths: "file_paths segno s = (Ok (full, part), s)" using file_paths_ok [OF assms(2)] by blast
  obtain t1 where t1: "remove_segments_from_disk 16777216 p (p_fs s) = (Ok (), t1)" "tidy t1"
    using remove_segments_succeeds [OF assms(1)] by blast
  obtain i b t2 where t2: "open_or_create segno (s\<lparr>p_fs := t1\<rparr>) = (Ok (i, b), s\<lparr>p_fs := t2\<rparr>)" "tidy t2"
      "\<not> b \<longrightarrow> fs_lookup t2 full = Some i"
    using open_or_create_succeeds [of "s\<lparr>p_fs := t1\<rparr>" segno full part] t1(2) assms(2) paths by auto
  obtain d where d: "write_zeroes i off n t2 = (Ok (), t2\<lparr>data := d\<rparr>)"
    using write_zeroes_succeeds t2(2) unfolding tidy_def by blast
  have "tidy (t2\<lparr>data := d\<rparr>)" using t2(2) by (simp add: tidy_def)
  then obtain t3 where t3: "fdatasync_file i (s\<lparr>p_fs := t2\<lparr>data := d\<rparr>\<rparr>) = (Ok (), s\<lparr>p_fs := t3\<rparr>)" "tidy t3"
      "dir t3 = dir t2"
    using fdatasync_succeeds [of "s\<lparr>p_fs := t2\<lparr>data := d\<rparr>\<rparr>" i] by auto
  have "\<not> b \<longrightarrow> fs_lookup (p_fs (s\<lparr>p_fs := t3\<rparr>)) full = Some i" using t2(3) t3(3) by (simp add: fs_lookup_def)
  from rename_back_succeeds [OF _ file_paths_fs [OF paths] this] t3(2) obtain t4
    where t4: "(if b then ret () else andthen (file_paths segno) (\<lambda>(full, part). phys_io (fs_rename full part))) (s\<lparr>p_fs := t3\<rparr>)
      = (Ok (), s\<lparr>p_fs := t4\<rparr>)" "tidy t4" by auto
  have seek: "phys_io (may_fail (ret ())) (s\<lparr>p_fs := t2\<rparr>) = (Ok (), s\<lparr>p_fs := t2\<rparr>)"
    using t2(2) by (simp add: phys_io_def on_field_def map_err_def calls_succeed tidy_def ret_def)
  from t1 t2 seek d t3 t4 show ?thesis
    by (simp add: andthen_def [of "phys_io _"] andthen_def [of "open_or_create _"] andthen_def [of "fdatasync_file _"]
        andthen_def [of "if _ then _ else _"] phys_io_ok update_def exI [of _ t4])
qed

lemma truncate_wal_succeeds:
  assumes "phys_inv B s" and "tidy (p_fs s)" and "write_lsn s = 0 \<or> p \<le> write_lsn s"
  shows "\<exists>t. truncate_wal p s = (Ok (), t) \<and> flush_record_lsn t = p \<and> write_lsn t = p \<and> tidy (p_fs t) \<and>
    (is_truncated_after_restart s \<or> write_record_lsn t = p)"
proof (cases "is_truncated_after_restart s \<and> p = write_lsn s \<and> p = flush_record_lsn s")
  case True
  then have "is_truncated_after_restart s" "write_lsn s = p" "flush_record_lsn s = p" by auto
  then have "truncate_wal p s = (Ok (), s)"
    unfolding truncate_wal_def
    by (intro trans [OF andthen_ok [where x = "()" and t = s]]) (simp_all add: require_def branch_def ret_def)
  with True assms(2) show ?thesis by auto
next
  case False
  let ?s = "s\<lparr>p_file := None\<rparr>"
  obtain t where t: "(case p_file s of Some (file, _) \<Rightarrow> fdatasync_file file | None \<Rightarrow> ret ()) ?s = (Ok (), ?s\<lparr>p_fs := t\<rparr>)" "tidy t"
  proof (cases "p_file s")
    case None
    then have "(case p_file s of Some (file, _) \<Rightarrow> fdatasync_file file | None \<Rightarrow> ret ()) ?s = (Ok (), ?s\<lparr>p_fs := p_fs s\<rparr>)"
      by (simp add: ret_def)
    with assms(2) that show ?thesis by blast
  next
    case (Some f)
    with assms(2) that fdatasync_succeeds [of ?s "fst f"] show ?thesis by (cases f) auto
  qed
  let ?u = "?s\<lparr>p_fs := t\<rparr>"
  have seg: "wal_seg_size s = 16777216" using assms(1) by (simp add: phys_inv_def)
  have pos: "unwrap (\<lambda>s. segment_offset p (wal_seg_size s)) ?u = (Ok (p mod 16777216), ?u)"
      "unwrap (\<lambda>s. segment_number p (wal_seg_size s)) ?u = (Ok (p div 16777216), ?u)"
    using seg by (simp_all add: unwrap_def segment_offset_def segment_number_def)
  have guard: "\<not> (write_lsn s \<noteq> 0 \<and> p > write_lsn s)" using assms(3) by auto
  have taken: "take_file s = (Ok (p_file s), ?s)" by (simp add: take_file_def andthen_def read_def update_def ret_def)
  let ?g = "\<lambda>s. s\<lparr>write_lsn := p, write_record_lsn := p, flush_record_lsn := p, is_truncated_after_restart := True\<rparr>"
  define m where "m = andthen (phys_io (remove_segments_from_disk 16777216 (\<lambda>x. p div 16777216 < x))) (\<lambda>_.
        andthen (open_or_create (p div 16777216)) (\<lambda>(file, is_partial).
        andthen (phys_io (may_fail (ret ()))) (\<lambda>_.
        andthen (phys_io (write_zeroes file (unat (p mod 16777216)) (unat (16777216 :: usize) - unat (p mod 16777216)))) (\<lambda>_.
        andthen (fdatasync_file file) (\<lambda>_.
        andthen (if is_partial then ret ()
           else andthen (file_paths (p div 16777216)) (\<lambda>(full, part). phys_io (fs_rename full part))) (\<lambda>_.
        update ?g))))))"
  obtain v where v: "m ?u = (Ok (), ?g (?u\<lparr>p_fs := v\<rparr>))" "tidy v"
    unfolding m_def using truncate_files_succeeds [of ?u "\<lambda>x. p div 16777216 < x" "p div 16777216"] t(2) seg by force
  have "truncate_wal p s = (Ok (), ?g (?u\<lparr>p_fs := v\<rparr>))"
    unfolding truncate_wal_def
    by (rule trans [OF andthen_ok [where x = "()" and t = s]], use guard in \<open>simp add: require_def\<close>,
      rule trans [OF branch_no], use False in simp, rule trans [OF andthen_ok], rule taken,
      rule trans [OF andthen_ok], rule t(1), rule trans [OF andthen_ok], rule pos(1), rule trans [OF andthen_ok], rule pos(2),
      rule trans [OF andthen_ok [where x = 16777216 and t = ?u]], use seg in \<open>simp add: read_def\<close>,
      rule v(1) [unfolded m_def])
  with v(2) show ?thesis by simp
qed

text \<open>
  C17. Progress of truncation: without I/O errors, and in a directory whose file names are
  distinct, \<open>truncate_wal\<close> to a position that is not beyond the written WAL returns, with its
  write and its flush position there. It does not depend on which segment files exist.
\<close>

theorem truncate_wal_completes:
  assumes "phys_inv B s" and "tidy (p_fs s)" and "write_lsn s = 0 \<or> p \<le> write_lsn s"
  shows "\<exists>t. truncate_wal p s = (Ok (), t) \<and> flush_record_lsn t = p \<and> write_lsn t = p \<and> tidy (p_fs t)"
  using truncate_wal_succeeds [OF assms] by blast

text \<open>An empty directory, and a storage that was never written.\<close>

definition example_fs :: fs where
  "example_fs = \<lparr>dir = [], older_dirs = [], data = (\<lambda>_. []), disk_data = (\<lambda>_. []), next_inode = 0, faults = []\<rparr>"

definition example_phys0 :: phys where
  "example_phys0 = \<lparr>p_fs = example_fs, p_no_sync = False, wal_seg_size = 16777216, write_lsn = 0, write_record_lsn = 0,
     flush_record_lsn = 0, p_decoder = decoder_new 0 15, p_file = None, is_truncated_after_restart = False\<rparr>"

theorem truncate_wal_completes_witness:
  "\<exists>t. truncate_wal 64 example_phys0 = (Ok (), t) \<and> flush_record_lsn t = 64"
  using truncate_wal_completes [of example_bindings example_phys0 64]
  by (auto simp: phys_inv_def hungry_def example_phys0_def example_fs_def tidy_def)

end
