(* ===== verification/Safekeeper_Properties.thy ===== *)
theory Safekeeper_Properties
  imports Safekeeper_Runs Wal_Progress
begin

text \<open>
  What the safekeeper promises to proposers, as theorems on its runs: votes, commit position,
  elections and appends.
\<close>

section \<open>Handlers\<close>

lemma adopt_elected_history [simp]:
  "as_term_history (ps_acceptor_state (adopt_elected msg p)) = pe_term_history msg"
  by (simp add: adopt_elected_def Let_def)

lemma wp_keeps_then:
  assumes "keeps I (\<lambda>_ _. True) (\<lambda>_. True) m" and "I s"
    and "\<And>x t. I t \<Longrightarrow> wp (f x) Q (\<lambda>_ _. True) (\<lambda>_. True) t"
  shows "wp (andthen m f) Q (\<lambda>_ _. True) (\<lambda>_. True) s"
  unfolding wp_andthen by (rule wp_mono [OF keepsD [OF assms(1,2)]]) (use assms(3) in auto)

text \<open>Whatever is in the WAL storage is flushed.\<close>

definition all_flushed :: "file_safekeeper \<Rightarrow> bool" where
  "all_flushed s \<longleftrightarrow> flush_record_lsn (wal_store s) = write_record_lsn (wal_store s)"

context sk_formats
begin

lemma set_term_safe:
  assumes "sk.sk_inv s"
  shows "wp (change_state (file_ctrl K) (set_term x))
    (\<lambda>_ s'. sk.sk_inv s' \<and> get_term (file_ctrl K) s' = x \<and> m_commit_lsn (sk_mem s') = m_commit_lsn (sk_mem s) \<and>
       file_on_disk K (pers (sk_state s')) = {sk_pers (file_ctrl K) s'} \<and> wal_store s' = wal_store s)
    (\<lambda>_ _. True) (\<lambda>_. True) s"
  by (rule file_ctl.change_state_wp [OF _ refl])
    (use assms in \<open>auto simp: sk.sk_inv_def flush_lsn_def get_term_of term_of_def set_term_def mem_of_def\<close>)

lemma adopt_elected_wp:
  assumes "file_inv (pers (sk_state s))"
  shows "wp (change_state (file_ctrl K) (adopt_elected msg))
    (\<lambda>_ s'. get_term (file_ctrl K) s' = get_term (file_ctrl K) s \<and> wal_store s' = wal_store s \<and>
       as_term_history (ps_acceptor_state (sk_pers (file_ctrl K) s')) = pe_term_history msg \<and>
       file_on_disk K (pers (sk_state s')) = {sk_pers (file_ctrl K) s'})
    (\<lambda>_ _. True) (\<lambda>_. True) s"
  by (rule file_ctl.change_state_wp [OF assms refl])
    (auto simp: get_term_of)

lemma elected_wp:
  assumes "sk.sk_inv s" and "get_term (file_ctrl K) s \<le> pe_term msg"
  shows "wp (handle_elected (file_ctrl K) (phys_ops B) msg)
    (\<lambda>_ s'. get_term (file_ctrl K) s' = pe_term msg \<and> pe_term_history msg \<noteq> [] \<and>
       as_term_history (ps_acceptor_state (sk_pers (file_ctrl K) s')) = pe_term_history msg \<and>
       file_on_disk K (pers (sk_state s')) = {sk_pers (file_ctrl K) s'} \<and>
       flush_record_lsn (wal_store s') = pe_start_streaming_at msg \<and>
       m_commit_lsn (sk_mem s) \<le> pe_start_streaming_at msg \<and>
       epoch_start_lsn s' = tl_lsn (last (pe_term_history msg)))
    (\<lambda>_ _. True) (\<lambda>_. True) s"
proof -
  let ?C = "file_ctrl K" and ?W = "phys_ops B"
  have first: "wp (run_if (\<lambda>s. get_term ?C s < pe_term msg) (change_state ?C (set_term (pe_term msg))))
      (\<lambda>_ s'. sk.sk_inv s' \<and> get_term ?C s' = pe_term msg \<and> m_commit_lsn (sk_mem s') = m_commit_lsn (sk_mem s))
      (\<lambda>_ _. True) (\<lambda>_. True) s"
    using assms by (auto simp: wp intro!: wp_mono [OF set_term_safe])
  have trunc: "wp (on_wal (w_truncate_wal ?W (pe_start_streaming_at msg)))
      (\<lambda>_ t'. file_inv (pers (sk_state t')) \<and> get_term ?C t' = pe_term msg \<and>
         flush_record_lsn (wal_store t') = pe_start_streaming_at msg) (\<lambda>_ _. True) (\<lambda>_. True) t"
    if "sk.sk_inv t" "get_term ?C t = pe_term msg" "m_commit_lsn (sk_mem t) \<le> pe_start_streaming_at msg"
    for t :: file_safekeeper
    by (rule wp_mono [OF sk.truncate_wal_wp [OF that(1,3)]])
      (use that(2) in \<open>auto simp: sk.sk_inv_def get_term_def\<close>)
  let ?Q = "\<lambda>s'. get_term ?C s' = pe_term msg \<and> pe_term_history msg \<noteq> [] \<and>
       as_term_history (ps_acceptor_state (sk_pers ?C s')) = pe_term_history msg \<and>
       file_on_disk K (pers (sk_state s')) = {sk_pers ?C s'} \<and>
       flush_record_lsn (wal_store s') = pe_start_streaming_at msg \<and>
       m_commit_lsn (sk_mem s) \<le> pe_start_streaming_at msg \<and>
       epoch_start_lsn s' = tl_lsn (last (pe_term_history msg))"
  define fin :: "(file_storage, phys, acceptor_proposer_message option) sk_method" where
    "fin = andthen (change_state ?C (adopt_elected msg)) (\<lambda>_.
        if pe_term_history msg = [] then bail EmptyTermHistory
        else andthen (update (\<lambda>s. s\<lparr>epoch_start_lsn := tl_lsn (last (pe_term_history msg))\<rparr>)) (\<lambda>_. ret None))"
  have last: "wp fin (\<lambda>_. ?Q) (\<lambda>_ _. True) (\<lambda>_. True) t"
    if "file_inv (pers (sk_state t)) \<and> get_term ?C t = pe_term msg \<and>
         flush_record_lsn (wal_store t) = pe_start_streaming_at msg"
      and "m_commit_lsn (sk_mem s) \<le> pe_start_streaming_at msg" for t :: file_safekeeper
    unfolding fin_def wp_andthen
    by (rule wp_mono [OF adopt_elected_wp]) (use that in \<open>auto simp: wp get_term_def\<close>)
  have rest: "wp (andthen (on_wal (w_truncate_wal ?W (pe_start_streaming_at msg))) (\<lambda>_. fin))
      (\<lambda>_. ?Q) (\<lambda>_ _. True) (\<lambda>_. True) t"
    if "sk.sk_inv t" "get_term ?C t = pe_term msg" "m_commit_lsn (sk_mem t) = m_commit_lsn (sk_mem s)"
      "m_commit_lsn (sk_mem t) \<le> pe_start_streaming_at msg" for t :: file_safekeeper
    unfolding wp_andthen by (rule wp_mono [OF trunc [OF that(1,2,4)]]) (use last that(3,4) in simp_all)
  show ?thesis
    unfolding handle_elected_def fin_def [symmetric] wp_andthen [of "run_if _ _"]
  proof (rule wp_mono [OF first])
    fix t :: file_safekeeper
    assume "sk.sk_inv t \<and> get_term ?C t = pe_term msg \<and> m_commit_lsn (sk_mem t) = m_commit_lsn (sk_mem s)"
    with rest [of t] show "wp (branch (\<lambda>s. pe_term msg < get_term ?C s) (ret None)
        (andthen (require (\<lambda>s. \<not> (pe_term msg = get_epoch ?C ?W s \<and>
            pe_start_streaming_at msg < flush_lsn ?C ?W s)) RefusingElected) (\<lambda>_.
         andthen (assert_that (\<lambda>s. m_commit_lsn (sk_mem s) \<le> pe_start_streaming_at msg)) (\<lambda>_.
         andthen (on_wal (w_truncate_wal ?W (pe_start_streaming_at msg))) (\<lambda>_. fin)))))
        (\<lambda>_. ?Q) (\<lambda>_ _. True) (\<lambda>_. True) t"
      unfolding wp_branch wp_andthen [of "require _ _"] wp_andthen [of "assert_that _"] wp_require wp_assert_that
      by simp
  qed simp_all
qed

lemma flush_all:
  assumes "sk.sk_inv s"
  shows "wp (on_wal (w_flush_wal (phys_ops B)))
    (\<lambda>_ s'. sk.sk_inv s' \<and> all_flushed s' \<and> sk_state s' = sk_state s) (\<lambda>_ _. True) (\<lambda>_. True) s"
proof -
  have inv: "phys_inv B (wal_store s)" using assms by (simp add: sk.sk_inv_def)
  have "wp (on_wal flush_wal) (\<lambda>_. all_flushed) (\<lambda>_ _. True) (\<lambda>_. True) s"
    unfolding on_wal_def wp
    by (rule wp_mono [OF flush_wal_positions [OF inv]]) (simp_all add: all_flushed_def)
  then have "wp (on_wal (w_flush_wal (phys_ops B))) (\<lambda>_. all_flushed) (\<lambda>_ _. True) (\<lambda>_. True) s"
    by (simp add: phys_ops_def)
  from wp_conj [OF this sk.flush_wal_wp [OF assms]] show ?thesis by (rule wp_mono) auto
qed

lemma vote_wp:
  assumes "sk.sk_inv s"
  shows "wp (handle_vote_request (file_ctrl K) (phys_ops B) msg)
    (\<lambda>r s'. \<exists>v. r = Some (AVoteResponse v) \<and> all_flushed s' \<and>
       vr_flush_lsn v = flush_lsn (file_ctrl K) (phys_ops B) s' \<and> vr_term v = get_term (file_ctrl K) s' \<and>
       (if get_term (file_ctrl K) s < vreq_term msg
        then vr_vote_given v = 1 \<and> vr_term v = vreq_term msg \<and>
          file_on_disk K (pers (sk_state s')) = {sk_pers (file_ctrl K) s'}
        else vr_vote_given v = 0 \<and> vr_term v = get_term (file_ctrl K) s))
    (\<lambda>_ _. True) (\<lambda>_. True) s"
proof -
  have raise: "wp (change_state (file_ctrl K) (set_term x))
      (\<lambda>_ s'. all_flushed s' \<and> get_term (file_ctrl K) s' = x \<and>
         flush_lsn (file_ctrl K) (phys_ops B) s' = flush_lsn (file_ctrl K) (phys_ops B) t \<and>
         file_on_disk K (pers (sk_state s')) = {sk_pers (file_ctrl K) s'})
      (\<lambda>_ _. True) (\<lambda>_. True) t" if "sk.sk_inv t" "all_flushed t" for x and t :: file_safekeeper
    by (rule file_ctl.change_state_wp [OF _ refl])
      (use that in \<open>auto simp: sk.sk_inv_def all_flushed_def flush_lsn_def get_term_of term_of_def set_term_def\<close>)
  show ?thesis
    unfolding handle_vote_request_def wp_andthen [of "on_wal _"]
  proof (rule wp_mono [OF flush_all [OF assms]])
    fix t :: file_safekeeper
    assume t: "sk.sk_inv t \<and> all_flushed t \<and> sk_state t = sk_state s"
    then have same: "get_term (file_ctrl K) t = get_term (file_ctrl K) s" by (simp add: get_term_def)
    show "wp (andthen (read (vote_refusal (file_ctrl K) (phys_ops B))) (\<lambda>resp.
       branch (\<lambda>s. get_term (file_ctrl K) s < vreq_term msg)
         (andthen (change_state (file_ctrl K) (set_term (vreq_term msg))) (\<lambda>_.
          read (\<lambda>s. Some (AVoteResponse (resp\<lparr>vr_term := get_term (file_ctrl K) s, vr_vote_given := 1\<rparr>)))))
         (ret (Some (AVoteResponse resp)))))
      (\<lambda>r s'. \<exists>v. r = Some (AVoteResponse v) \<and> all_flushed s' \<and>
         vr_flush_lsn v = flush_lsn (file_ctrl K) (phys_ops B) s' \<and> vr_term v = get_term (file_ctrl K) s' \<and>
         (if get_term (file_ctrl K) s < vreq_term msg
          then vr_vote_given v = 1 \<and> vr_term v = vreq_term msg \<and>
            file_on_disk K (pers (sk_state s')) = {sk_pers (file_ctrl K) s'}
          else vr_vote_given v = 0 \<and> vr_term v = get_term (file_ctrl K) s))
      (\<lambda>_ _. True) (\<lambda>_. True) t"
    proof (cases "get_term (file_ctrl K) s < vreq_term msg")
      case True
      show ?thesis
        unfolding wp if_P [OF True] same
        by (rule wp_mono [OF raise]) (use t in \<open>auto simp: vote_refusal_def\<close>)
    qed (use t same in \<open>auto simp: wp vote_refusal_def\<close>)
  qed simp_all
qed

lemma update_commit_flushed:
  "keeps (\<lambda>s. sk.sk_inv s \<and> all_flushed s) (\<lambda>_ _. True) (\<lambda>_. True) (update_commit_lsn (file_ctrl K) (phys_ops B) x)"
  by (rule keepsI, rule wp_mono [OF sk.update_commit_lsn_safe]) (auto simp: all_flushed_def)

lemma flush_state_flushed:
  "keeps (\<lambda>s. sk.sk_inv s \<and> all_flushed s) (\<lambda>_ _. True) (\<lambda>_. True) (on_state (flush_state (file_ctrl K)))"
  by (rule keepsI, rule wp_mono [OF sk.flush_state_safe]) (auto simp: all_flushed_def)

lemma flushed_set_mem:
  "keeps (\<lambda>s. sk.sk_inv s \<and> all_flushed s) (\<lambda>_ _. True) (\<lambda>_. True)
     (set_mem (\<lambda>m. m\<lparr>m_peer_horizon_lsn := max (m_peer_horizon_lsn m) x\<rparr>))"
  unfolding set_mem_def
  by (rule keeps_update) (auto simp: sk.sk_inv_def flush_lsn_def all_flushed_def le_max_iff_disj)

text \<open>The part of \<open>handle_append_request\<close> after the flush.\<close>

lemma append_tail:
  assumes "sk.sk_inv s \<and> all_flushed s"
  shows "wp (andthen (run_if (\<lambda>_. h_commit_lsn h \<noteq> 0) (update_commit_lsn (file_ctrl K) (phys_ops B) (h_commit_lsn h))) (\<lambda>_.
        andthen (set_mem (\<lambda>m. m\<lparr>m_peer_horizon_lsn := max (m_peer_horizon_lsn m) (h_truncate_lsn h)\<rparr>)) (\<lambda>_.
        andthen (unwrap (\<lambda>s. lsn_add (ps_commit_lsn (sk_pers (file_ctrl K) s)) (seg_size_of (file_ctrl K) s))) (\<lambda>limit.
        andthen (run_if (\<lambda>s. limit < m_commit_lsn (sk_mem s)) (on_state (flush_state (file_ctrl K)))) (\<lambda>_.
        read (\<lambda>s. Some (AAppendResponse (make_append_response (file_ctrl K) (phys_ops B) s))))))))
    (\<lambda>r s'. (sk.sk_inv s' \<and> all_flushed s') \<and>
       r = Some (AAppendResponse (make_append_response (file_ctrl K) (phys_ops B) s')))
    (\<lambda>_ _. True) (\<lambda>_. True) s"
  by (rule wp_keeps_then [where I = "\<lambda>s. sk.sk_inv s \<and> all_flushed s"] keeps_run_if update_commit_flushed flushed_set_mem keeps_unwrap flush_state_flushed assms
      | assumption | simp add: wp; fail)+

lemma append_wp:
  assumes "sk.sk_inv s" and "get_term (file_ctrl K) s = h_term (ar_h msg)"
  shows "wp (handle_append_request (file_ctrl K) (phys_ops B) msg True)
    (\<lambda>r s'. (sk.sk_inv s' \<and> all_flushed s') \<and>
       r = Some (AAppendResponse (make_append_response (file_ctrl K) (phys_ops B) s')))
    (\<lambda>_ _. True) (\<lambda>_. True) s"
proof -
  have weaken: "keeps sk.sk_inv (\<lambda>_ _. True) (\<lambda>_. True) m" if "sk.safe m" for m :: "(file_storage, phys, unit) sk_method"
    using that by (auto simp: keeps_def intro: wp_mono)
  have flush: "wp (andthen (run_if (\<lambda>_. True) (on_wal (w_flush_wal (phys_ops B)))) (\<lambda>_. m)) Q (\<lambda>_ _. True) (\<lambda>_. True) t"
    if "sk.sk_inv t" and "\<And>t. sk.sk_inv t \<and> all_flushed t \<Longrightarrow> wp m Q (\<lambda>_ _. True) (\<lambda>_. True) t"
    for m :: "(file_storage, phys, acceptor_proposer_message option) sk_method" and Q t
    unfolding wp_andthen wp_run_if if_True by (rule wp_mono [OF flush_all [OF that(1)]]) (use that(2) in auto)
  have same: "(\<not> get_term (file_ctrl K) s < h_term (ar_h msg)) = True" "(get_term (file_ctrl K) s > h_term (ar_h msg)) = False"
    using assms(2) by simp_all
  show ?thesis
    unfolding handle_append_request_def wp_andthen [of "require _ _"] wp_require wp_branch same if_True if_False not_True_eq_False
    by (rule wp_keeps_then [where I = "sk.sk_inv", OF weaken [OF sk.safe_set_mem]]
        wp_keeps_then [where I = "sk.sk_inv", OF weaken [OF keeps_run_if [OF sk.safe_write_wal]]]
        assms(1) flush append_tail | assumption | simp; fail)+
qed

end

lemmas sk_formatsI = sk_formats.intro [OF _ wal_format.intro]

section \<open>Runs\<close>

context sk_formats
begin

lemma run_votes_increase:
  assumes "sk_run K B vs doubt s"
  shows "sorted_wrt (\<lambda>newer older. older < newer) vs \<and> (\<forall>v \<in> set vs. v \<le> get_term (file_ctrl K) s) \<and>
    (\<forall>p \<in> file_on_disk K (pers (sk_state s)). get_term (file_ctrl K) s \<le> term_of p)"
proof -
  have "v \<le> get_term (file_ctrl K) s" if "v \<in> set vs" for v
    using that run_votes [OF assms] by (cases vs) (auto simp: file_ctl.at_least_def intro: order_trans less_imp_le)
  with run_votes [OF assms] show ?thesis by (simp add: file_ctl.term_durable_def)
qed

lemma run_committed_flushed:
  assumes "sk_run K B vs False s"
  shows "m_commit_lsn (sk_mem s) \<le> flush_lsn (file_ctrl K) (phys_ops B) s \<and>
    ps_commit_lsn (sk_pers (file_ctrl K) s) \<le> m_commit_lsn (sk_mem s) \<and>
    ps_backup_lsn (sk_pers (file_ctrl K) s) \<le> m_backup_lsn (sk_mem s) \<and>
    ps_peer_horizon_lsn (sk_pers (file_ctrl K) s) \<le> m_peer_horizon_lsn (sk_mem s) \<and>
    ps_remote_lsn (sk_pers (file_ctrl K) s) \<le> m_remote_lsn (sk_mem s)"
  using run_safe [OF assms] by (simp add: sk.sk_inv_def)

lemma run_update_commit:
  assumes "sk_run K B vs False s" and "update_commit_lsn (file_ctrl K) (phys_ops B) candidate s = (r, s')"
  shows "r \<noteq> Panic \<and> m_commit_lsn (sk_mem s) \<le> m_commit_lsn (sk_mem s') \<and>
    m_commit_lsn (sk_mem s') = min (max candidate (m_commit_lsn (sk_mem s))) (flush_lsn (file_ctrl K) (phys_ops B) s)"
proof -
  have inv: "sk.sk_inv s" using run_safe [OF assms(1)] by simp
  have "m_commit_lsn (sk_mem s) \<le> flush_lsn (file_ctrl K) (phys_ops B) s" using inv by (simp add: sk.sk_inv_def)
  with sk.update_commit_lsn_safe [OF inv, of candidate] assms(2) show ?thesis
    by (cases r) (auto simp: wp_def)
qed

lemma run_monotone:
  assumes "sk_run K B vs doubt s" and "handle_event K B ev s = (r, s')"
  shows "get_term (file_ctrl K) s \<le> get_term (file_ctrl K) s' \<and> m_commit_lsn (sk_mem s) \<le> m_commit_lsn (sk_mem s')"
proof -
  have "file_ctl.at_least (get_term (file_ctrl K) s) (m_commit_lsn (sk_mem s)) s"
    using run_votes [OF assms(1)] by (simp add: file_ctl.at_least_def file_ctl.term_durable_def)
  from event_votes [OF this, of ev] assms(2) show ?thesis
    by (cases r) (simp_all add: wp_def file_ctl.at_least_def)
qed

lemma run_elected:
  assumes "sk_run K B vs False s" and "get_term (file_ctrl K) s \<le> pe_term msg"
    and "handle_elected (file_ctrl K) (phys_ops B) msg s = (Ok r, s')"
  shows "get_term (file_ctrl K) s' = pe_term msg \<and> pe_term_history msg \<noteq> [] \<and>
    as_term_history (ps_acceptor_state (sk_pers (file_ctrl K) s')) = pe_term_history msg \<and>
    file_on_disk K (pers (sk_state s')) = {sk_pers (file_ctrl K) s'} \<and>
    flush_record_lsn (wal_store s') = pe_start_streaming_at msg \<and>
    m_commit_lsn (sk_mem s) \<le> pe_start_streaming_at msg \<and>
    epoch_start_lsn s' = tl_lsn (last (pe_term_history msg))"
  using wp_Ok [OF elected_wp assms(3)] run_safe [OF assms(1)] assms(2) by simp

lemma run_vote:
  assumes "sk_run K B vs False s" and "handle_vote_request (file_ctrl K) (phys_ops B) msg s = (Ok r, s')"
  shows "\<exists>v. r = Some (AVoteResponse v) \<and> all_flushed s' \<and>
    vr_flush_lsn v = flush_lsn (file_ctrl K) (phys_ops B) s' \<and> vr_term v = get_term (file_ctrl K) s' \<and>
    (if get_term (file_ctrl K) s < vreq_term msg
     then vr_vote_given v = 1 \<and> vr_term v = vreq_term msg \<and>
       file_on_disk K (pers (sk_state s')) = {sk_pers (file_ctrl K) s'}
     else vr_vote_given v = 0 \<and> vr_term v = get_term (file_ctrl K) s)"
  using wp_Ok [OF vote_wp assms(2)] run_safe [OF assms(1)] by blast

lemma run_append:
  assumes "sk_run K B vs False s" and "get_term (file_ctrl K) s = h_term (ar_h msg)"
    and "handle_append_request (file_ctrl K) (phys_ops B) msg True s = (Ok r, s')"
  shows "\<exists>a. r = Some (AAppendResponse a) \<and> all_flushed s' \<and>
    rsp_flush_lsn a = flush_lsn (file_ctrl K) (phys_ops B) s' \<and> rsp_commit_lsn a \<le> rsp_flush_lsn a"
  using wp_Ok [OF append_wp assms(3)] run_safe [OF assms(1)] assms(2)
  by (auto simp: make_append_response_def sk.sk_inv_def)

end

section \<open>A run\<close>

text \<open>
  A new timeline grants a vote for term 1, restarts after a power failure, and refuses a
  second vote for the term.
\<close>

definition example_phys :: phys where
  "example_phys = \<lparr>p_fs = empty_fs, p_no_sync = False, wal_seg_size = 16777216, write_lsn = 0, write_record_lsn = 0,
     flush_record_lsn = 0, p_decoder = decoder_new 0 15, p_file = None, is_truncated_after_restart = False\<rparr>"

definition example_start :: file_safekeeper where
  "example_start = \<lparr>epoch_start_lsn = 0, sk_state = timeline_state_new (file_ctrl example_ctl_codec) example_file_storage,
     wal_store = example_phys, node_id = 1\<rparr>"

definition example_voted :: pstate where
  "example_voted = set_term 1 example_pstate"

definition example_persisted :: file_storage where
  "example_persisted = \<lparr>ctl_fs = \<lparr>dir = [(CONTROL_FILE_NAME, 0)], older_dirs = [],
       data = (\<lambda>_. [])(0 := control_bytes example_ctl_codec example_voted),
       disk_data = (\<lambda>_. [])(0 := control_bytes example_ctl_codec example_voted), next_inode = 1, faults = []\<rparr>,
     ctl_no_sync = False, ctl_state = example_voted, ctl_last_persist_at = 0\<rparr>"

definition example_after_vote :: file_safekeeper where
  "example_after_vote = example_start\<lparr>sk_state := timeline_state_new (file_ctrl example_ctl_codec) example_persisted\<rparr>"

lemma example_persist: "file_persist example_ctl_codec example_voted example_file_storage = (Ok (), example_persisted)"
  by (simp add: example_persisted_def example_file_storage_def file_storage_create_new_def empty_fs_def
      file_persist_def ctl_io_def on_field_def map_err_def andthen_def fs_create_def may_fail_def next_fault_def
      read_def ret_def fs_lookup_def add_file_def set_data_def set_dir_def fs_write_def update_def durable_rename_def
      fsync_async_opt_def fsync_async_def fs_open_def fs_sync_def sync_inode_def fs_rename_def fs_sync_dir_def
      CONTROL_FILE_NAME_def CONTROL_FILE_NAME_PARTIAL_def)

lemma flush_nothing: "all_flushed s \<Longrightarrow> on_wal (w_flush_wal (phys_ops B)) s = (Ok (), s)"
  by (simp add: all_flushed_def on_wal_def on_field_def phys_ops_def flush_wal_def branch_def ret_def)

lemma change_state_ok:
  assumes "file_persist K (f (start_change (file_ctrl K) (sk_state s))) (pers (sk_state s)) = (Ok (), c)"
  shows "change_state (file_ctrl K) f s =
    (Ok (), s\<lparr>sk_state := \<lparr>inmem = mem_of (f (start_change (file_ctrl K) (sk_state s))), pers = c\<rparr>\<rparr>)"
proof -
  have "c_persist (file_ctrl K) = file_persist K" by (simp add: file_ctrl_def)
  moreover have "(sk_state s)\<lparr>pers := c, inmem := x\<rparr> = \<lparr>inmem = x, pers = c\<rparr>" for x by (cases "sk_state s") simp
  ultimately show ?thesis
    using assms by (simp add: change_state_def on_state_def finish_change_def on_field_def andthen_def read_def update_def)
qed

lemma example_vote:
  "handle_event example_ctl_codec example_bindings (ProposerMessage (VoteRequest \<lparr>vreq_term = 1\<rparr>)) example_start =
     (Ok (Some (AVoteResponse \<lparr>vr_term = 1, vr_vote_given = 1, vr_flush_lsn = 0, vr_truncate_lsn = 0,
        vr_term_history = [], vr_timeline_start_lsn = 0\<rparr>)), example_after_vote)"
proof -
  let ?C = "file_ctrl example_ctl_codec" and ?W = "phys_ops example_bindings"
  have start: "start_change ?C (sk_state example_start) = example_pstate"
    by (simp add: example_start_def timeline_state_new_def start_change_def mem_of_def example_file_storage_def
        file_storage_create_new_def)
  have pers: "pers (sk_state example_start) = example_file_storage"
    by (simp add: example_start_def timeline_state_new_def)
  have voted: "ctl_state example_persisted = example_voted" by (simp add: example_persisted_def)
  have flushed: "all_flushed example_start" by (simp add: all_flushed_def example_start_def example_phys_def)
  have refusal: "vote_refusal ?C ?W example_start =
      \<lparr>vr_term = 0, vr_vote_given = 0, vr_flush_lsn = 0, vr_truncate_lsn = 0, vr_term_history = [],
       vr_timeline_start_lsn = 0\<rparr>"
    by (simp add: vote_refusal_def get_term_def flush_lsn_def get_term_history_def example_start_def
        timeline_state_new_def example_file_storage_def file_storage_create_new_def example_pstate_def pstate_new_def
        mem_of_def example_phys_def)
  then have "get_term ?C example_start = 0" by (simp add: vote_refusal_def)
  moreover have "get_term ?C example_after_vote = 1"
    by (simp add: example_after_vote_def get_term_def timeline_state_new_def example_persisted_def example_voted_def set_term_def)
  moreover have "change_state ?C (set_term 1) example_start = (Ok (), example_after_vote)"
    using change_state_ok [of example_ctl_codec "set_term 1" example_start example_persisted] example_persist
    by (simp add: start example_voted_def [symmetric] example_after_vote_def timeline_state_new_def pers voted)
  ultimately show ?thesis
    by (simp add: handle_event_def process_msg_def handle_vote_request_def andthen_def flush_nothing [OF flushed]
        read_def branch_def refusal)
qed

definition example_conf :: sk_conf where
  "example_conf = \<lparr>my_id = 1, conf_no_sync = False, advertise_pg_addr = None, listen_pg_addr = [], listen_http_addr = [],
     conf_availability_zone = None, conf_walsenders_keep_horizon = False\<rparr>"

definition example_shared :: "file_safekeeper \<Rightarrow> shared_state" where
  "example_shared sk = \<lparr>ss_sk = sk, peers_info = [], wal_backup_active = False, ss_active = False, last_removed_segno = 0\<rparr>"

lemma example_ids: "(replicate 16 1 :: byte list) \<noteq> replicate 16 0" "(replicate 16 2 :: byte list) \<noteq> replicate 16 0"
  by (simp_all add: replicate_eq_replicate)

lemma example_create_new:
  "shared_create_new example_ctl_codec example_bindings example_conf 0 empty_fs empty_fs example_pstate =
     Ok (example_shared example_start)"
proof -
  have "phys_new example_bindings False example_pstate empty_fs = (Ok example_phys, empty_fs)"
    by (simp add: phys_new_def andthen_def ret_def read_def example_pstate_def pstate_new_def example_phys_def)
  moreover have "safekeeper_new (file_ctrl example_ctl_codec) example_file_storage example_phys 1 = Ok example_start"
    by (simp add: safekeeper_new_def example_start_def example_file_storage_def file_storage_create_new_def
        example_pstate_def pstate_new_def example_ids)
  moreover have "si_wal_seg_size (ps_server example_pstate) = 16777216" "si_pg_version (ps_server example_pstate) = 150000"
      "ps_commit_lsn example_pstate = 0" "ps_local_start_lsn example_pstate = 0"
    by (simp_all add: example_pstate_def pstate_new_def)
  ultimately show ?thesis
    by (simp add: shared_create_new_def UNKNOWN_SERVER_VERSION_def example_conf_def sk_with_def example_shared_def
        example_file_storage_def [symmetric] Let_def, simp add: sk_with_def example_file_storage_def file_storage_create_new_def)
qed

lemma example_create: "sk_run example_ctl_codec example_bindings [] False example_start"
  using sk_run.create [OF example_create_new] example_file_inv
  by (simp add: example_conf_def example_shared_def file_inv_def example_file_storage_def file_storage_create_new_def
      refs_def dir_versions_def empty_fs_def example_pstate_def pstate_new_def)

lemma example_restart:
  "shared_restore example_ctl_codec example_bindings example_conf 0 (ctl_fs example_persisted) empty_fs =
     Ok (example_shared example_after_vote)"
proof -
  have "restore_new example_ctl_codec False 0 (ctl_fs example_persisted) = Ok example_persisted"
    by (simp add: restore_new_def load_control_file_def fs_read_def fs_open_def may_fail_def next_fault_def map_err_def
        andthen_def read_def ret_def fs_lookup_def example_persisted_def
        example_ctl.check_control_bytes_control_bytes)
  moreover have "phys_new example_bindings False (ctl_state example_persisted) empty_fs = (Ok example_phys, empty_fs)"
    by (simp add: phys_new_def andthen_def ret_def read_def example_persisted_def example_voted_def set_term_def
        example_pstate_def pstate_new_def example_phys_def)
  moreover have "safekeeper_new (file_ctrl example_ctl_codec) example_persisted example_phys 1 = Ok example_after_vote"
    by (simp add: safekeeper_new_def example_after_vote_def example_start_def example_persisted_def example_voted_def
        set_term_def example_pstate_def pstate_new_def example_ids)
  moreover have "si_wal_seg_size (ps_server (ctl_state example_persisted)) = 16777216"
    by (simp add: example_persisted_def example_voted_def set_term_def example_pstate_def pstate_new_def)
  ultimately show ?thesis
    by (simp add: shared_restore_def sk_with_def example_conf_def example_shared_def)
qed

lemma example_after_vote_pers [simp]: "pers (sk_state example_after_vote) = example_persisted"
  by (simp add: example_after_vote_def timeline_state_new_def)

lemma example_run: "sk_run example_ctl_codec example_bindings [1] False example_after_vote"
proof -
  have "sk_run example_ctl_codec example_bindings [1] False example_after_vote"
    using sk_run.event [OF example_create example_vote] by (simp add: votes_of_def granted_def in_doubt_def)
  from sk_run.restart [OF this _ example_restart] show ?thesis
    by (simp add: after_crash_def dir_versions_def example_persisted_def example_conf_def example_shared_def
        example_voted_def set_term_def example_pstate_def pstate_new_def)
qed

text \<open>Without I/O errors a persist succeeds; so do an election and an append of the example.\<close>

lemma persist_succeeds:
  assumes "tidy (ctl_fs f)"
  shows "\<exists>c. file_persist K p f = (Ok (), c) \<and> tidy (ctl_fs c) \<and> ctl_state c = p"
proof -
  let ?P = CONTROL_FILE_NAME_PARTIAL and ?f = "ctl_fs f"
  have faults: "faults ?f = []" using assms by (simp add: tidy_def)
  obtain i g where g: "fs_create ?P ?f = (Ok i, g)" "tidy g" "fs_lookup g ?P = Some i"
    using assms faults
    by (cases "fs_lookup ?f ?P")
      (auto simp: fs_create_def calls_succeed andthen_def read_def ret_def update_def add_file_def tidy_def
        distinct_update update_conv')
  let ?g = "set_data i (write_bytes 0 (control_bytes K p) (data g i)) g"
  have "tidy ?g" "fs_lookup ?g ?P = Some i" using g by (simp_all add: tidy_def)
  then obtain h where "durable_rename ?P CONTROL_FILE_NAME (\<not> ctl_no_sync f) ?g = (Ok (), h)" "tidy h"
    using durable_rename_succeeds by blast
  with g show ?thesis
    by (simp add: file_persist_def ctl_io_def on_field_def map_err_def andthen_def calls_succeed tidy_def ret_def
        read_def update_def)
qed

lemma change_state_succeeds:
  assumes "tidy (ctl_fs (pers (sk_state s)))"
  shows "\<exists>c. change_state (file_ctrl K) f s =
      (Ok (), s\<lparr>sk_state := \<lparr>inmem = mem_of (f (start_change (file_ctrl K) (sk_state s))), pers = c\<rparr>\<rparr>) \<and>
    tidy (ctl_fs c) \<and> ctl_state c = f (start_change (file_ctrl K) (sk_state s))"
  using persist_succeeds [OF assms] change_state_ok by blast

text \<open>A safekeeper whose directory has no pending faults, and whose WAL is flushed.\<close>

definition ready :: "wal_bindings \<Rightarrow> file_safekeeper \<Rightarrow> bool" where
  "ready B s \<longleftrightarrow> phys_inv B (wal_store s) \<and> tidy (p_fs (wal_store s)) \<and> tidy (ctl_fs (pers (sk_state s))) \<and> all_flushed s"

lemma vote_succeeds:
  assumes "ready B s" and "get_term (file_ctrl K) s < x"
  shows "\<exists>c. handle_vote_request (file_ctrl K) (phys_ops B) \<lparr>vreq_term = x\<rparr> s =
      (Ok (Some (AVoteResponse ((vote_refusal (file_ctrl K) (phys_ops B) s)\<lparr>vr_term := x, vr_vote_given := 1\<rparr>))),
       s\<lparr>sk_state := \<lparr>inmem = mem_of (ctl_state c), pers = c\<rparr>\<rparr>) \<and>
    tidy (ctl_fs c) \<and> ctl_state c = set_term x (start_change (file_ctrl K) (sk_state s))"
proof -
  obtain c where c: "change_state (file_ctrl K) (set_term x) s = (Ok (), s\<lparr>sk_state := \<lparr>inmem = mem_of (ctl_state c), pers = c\<rparr>\<rparr>)"
      "tidy (ctl_fs c)" "ctl_state c = set_term x (start_change (file_ctrl K) (sk_state s))"
    using change_state_succeeds [of s K "set_term x"] assms(1) by (auto simp: ready_def)
  moreover have "all_flushed s" using assms(1) by (simp add: ready_def)
  moreover have "get_term (file_ctrl K) (s\<lparr>sk_state := \<lparr>inmem = m, pers = c\<rparr>\<rparr>) = x" for m
    using c(3) by (simp add: get_term_def set_term_def file_ctrl_def)
  ultimately have "handle_vote_request (file_ctrl K) (phys_ops B) \<lparr>vreq_term = x\<rparr> s =
      (Ok (Some (AVoteResponse ((vote_refusal (file_ctrl K) (phys_ops B) s)\<lparr>vr_term := x, vr_vote_given := 1\<rparr>))),
       s\<lparr>sk_state := \<lparr>inmem = mem_of (ctl_state c), pers = c\<rparr>\<rparr>)"
    using assms(2) by (simp add: handle_vote_request_def andthen_def flush_nothing read_def branch_def)
  with c(2,3) show ?thesis by blast
qed

lemma elected_succeeds:
  assumes r: "ready B s" and t: "get_term (file_ctrl K) s = pe_term msg" and h: "pe_term_history msg \<noteq> []"
    and e: "\<not> (pe_term msg = get_epoch (file_ctrl K) (phys_ops B) s \<and>
      flush_lsn (file_ctrl K) (phys_ops B) s > pe_start_streaming_at msg)"
    and c: "m_commit_lsn (sk_mem s) \<le> pe_start_streaming_at msg"
    and w: "write_lsn (wal_store s) = 0 \<or> pe_start_streaming_at msg \<le> write_lsn (wal_store s)"
  shows "\<exists>w c. handle_elected (file_ctrl K) (phys_ops B) msg s =
      (Ok None, s\<lparr>epoch_start_lsn := tl_lsn (last (pe_term_history msg)), wal_store := w,
         sk_state := \<lparr>inmem = mem_of (ctl_state c), pers = c\<rparr>\<rparr>) \<and>
    phys_inv B w \<and> tidy (p_fs w) \<and> tidy (ctl_fs c) \<and> write_lsn w = pe_start_streaming_at msg \<and>
    flush_record_lsn w = pe_start_streaming_at msg \<and>
    (is_truncated_after_restart (wal_store s) \<or> write_record_lsn w = pe_start_streaming_at msg) \<and>
    ctl_state c = adopt_elected msg (start_change (file_ctrl K) (sk_state s))"
proof -
  let ?C = "file_ctrl K" and ?W = "phys_ops B" and ?p = "pe_start_streaming_at msg"
  obtain w where tr: "truncate_wal ?p (wal_store s) = (Ok (), w)" and w: "flush_record_lsn w = ?p" "write_lsn w = ?p"
      "tidy (p_fs w)" "is_truncated_after_restart (wal_store s) \<or> write_record_lsn w = ?p"
    using truncate_wal_succeeds [OF _ _ w] r unfolding ready_def by blast
  have inv: "phys_inv B w" using wp_Ok [OF truncate_wal_positions tr] r by (simp add: ready_def)
  have wal: "on_wal (w_truncate_wal ?W ?p) s = (Ok (), s\<lparr>wal_store := w\<rparr>)"
    using tr by (simp add: on_wal_def on_field_def phys_ops_def)
  have "tidy (ctl_fs (pers (sk_state (s\<lparr>wal_store := w\<rparr>))))" using r by (simp add: ready_def)
  from change_state_succeeds [OF this, of K "adopt_elected msg"]
  obtain c where ch: "change_state ?C (adopt_elected msg) (s\<lparr>wal_store := w\<rparr>) =
      (Ok (), s\<lparr>wal_store := w, sk_state := \<lparr>inmem = mem_of (ctl_state c), pers = c\<rparr>\<rparr>)" and "tidy (ctl_fs c)"
      "ctl_state c = adopt_elected msg (start_change ?C (sk_state s))" by auto
  moreover have "handle_elected ?C ?W msg s =
      (Ok None, s\<lparr>epoch_start_lsn := tl_lsn (last (pe_term_history msg)), wal_store := w,
         sk_state := \<lparr>inmem = mem_of (ctl_state c), pers = c\<rparr>\<rparr>)"
    using wal ch t h e c
    by (auto simp: handle_elected_def andthen_def run_if_def branch_def require_def assert_that_def ret_def update_def)
  ultimately show ?thesis using inv w by blast
qed

definition example_election :: proposer_elected where
  "example_election = \<lparr>pe_term = 1, pe_start_streaming_at = 64, pe_term_history = [\<lparr>tl_term = 1, tl_lsn = 64\<rparr>],
     pe_timeline_start_lsn = 64\<rparr>"

lemma example_after_vote_simps:
  "get_term (file_ctrl example_ctl_codec) example_after_vote = 1"
  "get_epoch (file_ctrl example_ctl_codec) (phys_ops example_bindings) example_after_vote = 0"
  "m_commit_lsn (sk_mem example_after_vote) = 0" "wal_store example_after_vote = example_phys"
  by (simp_all add: get_term_def get_epoch_def th_get_epoch_def example_after_vote_def timeline_state_new_def mem_of_def
      example_persisted_def example_voted_def set_term_def example_pstate_def pstate_new_def example_start_def)

lemma example_ready: "ready example_bindings example_after_vote" "\<not> is_truncated_after_restart (wal_store example_after_vote)"
  by (simp_all add: ready_def all_flushed_def example_after_vote_simps phys_inv_def hungry_def example_phys_def tidy_def empty_fs_def
      example_persisted_def)

lemma example_elected:
  "\<exists>w c. handle_elected (file_ctrl example_ctl_codec) (phys_ops example_bindings) example_election example_after_vote =
      (Ok None, example_after_vote\<lparr>epoch_start_lsn := 64, wal_store := w,
         sk_state := \<lparr>inmem = mem_of (ctl_state c), pers = c\<rparr>\<rparr>) \<and>
    phys_inv example_bindings w \<and> tidy (p_fs w) \<and> tidy (ctl_fs c) \<and> write_lsn w = 64 \<and>
    flush_record_lsn w = 64 \<and> write_record_lsn w = 64 \<and>
    ctl_state c = adopt_elected example_election (start_change (file_ctrl example_ctl_codec) (sk_state example_after_vote))"
  using elected_succeeds [OF example_ready(1), of example_ctl_codec example_election] example_ready(2)
  by (simp add: example_after_vote_simps example_election_def example_phys_def)

definition example_heartbeat :: append_request where
  "example_heartbeat = \<lparr>ar_h = \<lparr>h_term = 1, h_epoch_start_lsn = 0, h_begin_lsn = 0, h_end_lsn = 0, h_commit_lsn = 0,
     h_truncate_lsn = 0, h_proposer_uuid = []\<rparr>, ar_wal_data = []\<rparr>"

lemma example_append:
  "\<exists>r s'. handle_append_request (file_ctrl example_ctl_codec) (phys_ops example_bindings) example_heartbeat True
     example_after_vote = (Ok r, s')"
proof -
  have "all_flushed (example_after_vote\<lparr>sk_state := x\<rparr>)" for x
    by (simp add: all_flushed_def example_after_vote_simps example_phys_def)
  then show ?thesis
    by (simp add: handle_append_request_def andthen_def run_if_def branch_def require_def set_mem_def update_def unwrap_def
        example_heartbeat_def example_after_vote_simps flush_nothing read_def ret_def get_term_def seg_size_of_def
        example_persisted_def example_voted_def set_term_def example_pstate_def pstate_new_def lsn_add_def checked_add_def)
qed

lemma example_bindings_ok: "bindings_ok example_bindings"
  by (rule example_wal.bindings)

section \<open>Properties\<close>

text \<open>
  C1. A safekeeper votes at most once in a term, across restarts. In every run, of messages
  in any order, of I/O errors at any place and of power failures at any point, the granted
  votes are for strictly increasing terms, and the state that the next restart loads has at
  least the current term, which is at least that of every vote.
\<close>

theorem votes_never_repeat:
  assumes "ctl_format K" and "bindings_ok B" and "sk_run K B vs doubt s"
  shows "sorted_wrt (\<lambda>newer older. older < newer) vs \<and> (\<forall>v \<in> set vs. v \<le> get_term (file_ctrl K) s) \<and>
    (\<forall>p \<in> file_on_disk K (pers (sk_state s)). get_term (file_ctrl K) s \<le> term_of p)"
  by (rule sk_formats.run_votes_increase [OF sk_formatsI [OF assms(1,2)] assms(3)])

theorem votes_never_repeat_witness:
  "sk_run example_ctl_codec example_bindings [1] False example_after_vote \<and>
     1 \<le> get_term (file_ctrl example_ctl_codec) example_after_vote"
  using votes_never_repeat [OF example_ctl.ctl_format_axioms example_bindings_ok example_run] example_run by simp

text \<open>
  C3. Committed WAL is flushed WAL: in every run in which, since the last restart, the WAL
  decoder accepted what it was given and no handler panicked, the commit position is not
  beyond the flush position, and the control file lags behind the positions in memory. After a
  restart this holds anew, whatever the WAL files contain.
\<close>

theorem committed_is_flushed:
  assumes "ctl_format K" and "bindings_ok B" and "sk_run K B vs False s"
  shows "m_commit_lsn (sk_mem s) \<le> flush_lsn (file_ctrl K) (phys_ops B) s \<and>
    ps_commit_lsn (sk_pers (file_ctrl K) s) \<le> m_commit_lsn (sk_mem s) \<and>
    ps_backup_lsn (sk_pers (file_ctrl K) s) \<le> m_backup_lsn (sk_mem s) \<and>
    ps_peer_horizon_lsn (sk_pers (file_ctrl K) s) \<le> m_peer_horizon_lsn (sk_mem s) \<and>
    ps_remote_lsn (sk_pers (file_ctrl K) s) \<le> m_remote_lsn (sk_mem s)"
  by (rule sk_formats.run_committed_flushed [OF sk_formatsI [OF assms(1,2)] assms(3)])

theorem committed_is_flushed_witness:
  "sk_run example_ctl_codec example_bindings [1] False example_after_vote \<and>
     m_commit_lsn (sk_mem example_after_vote) \<le>
       flush_lsn (file_ctrl example_ctl_codec) (phys_ops example_bindings) example_after_vote"
  using committed_is_flushed [OF example_ctl.ctl_format_axioms example_bindings_ok example_run] example_run by simp

text \<open>
  C14. The assertion in \<open>update_commit_lsn\<close> never fails: the commit position becomes the given
  one, bounded by the flush position, and never moves back, also when writing the control
  file fails.
\<close>

theorem update_commit_lsn_never_panics:
  assumes "ctl_format K" and "bindings_ok B" and "sk_run K B vs False s"
    and "update_commit_lsn (file_ctrl K) (phys_ops B) candidate s = (r, s')"
  shows "r \<noteq> Panic \<and> m_commit_lsn (sk_mem s) \<le> m_commit_lsn (sk_mem s') \<and>
    m_commit_lsn (sk_mem s') = min (max candidate (m_commit_lsn (sk_mem s))) (flush_lsn (file_ctrl K) (phys_ops B) s)"
  by (rule sk_formats.run_update_commit [OF sk_formatsI [OF assms(1,2)] assms(3,4)])

theorem update_commit_lsn_never_panics_witness:
  "fst (update_commit_lsn (file_ctrl example_ctl_codec) (phys_ops example_bindings) 64 example_after_vote) \<noteq> Panic"
  using update_commit_lsn_never_panics [OF example_ctl.ctl_format_axioms example_bindings_ok example_run
      prod.collapse [symmetric], of 64] by simp

text \<open>
  C15. Nothing that a safekeeper handles, whatever the outcome, moves its term or its commit
  position back.
\<close>

theorem positions_never_move_back:
  assumes "ctl_format K" and "bindings_ok B" and "sk_run K B vs doubt s" and "handle_event K B ev s = (r, s')"
  shows "get_term (file_ctrl K) s \<le> get_term (file_ctrl K) s' \<and> m_commit_lsn (sk_mem s) \<le> m_commit_lsn (sk_mem s')"
  by (rule sk_formats.run_monotone [OF sk_formatsI [OF assms(1,2)] assms(3,4)])

theorem positions_never_move_back_witness:
  "get_term (file_ctrl example_ctl_codec) example_start \<le> get_term (file_ctrl example_ctl_codec) example_after_vote"
  using positions_never_move_back [OF example_ctl.ctl_format_axioms example_bindings_ok example_create example_vote]
  by simp

text \<open>
  C6. When a \<open>ProposerElected\<close> message of the current or a later term is accepted, the
  safekeeper is in the proposer's term with the proposer's history, both on the disk; its WAL
  ends where the proposer starts to stream, and nothing committed was cut off.
\<close>

theorem elected_adopts_history:
  assumes "ctl_format K" and "bindings_ok B" and "sk_run K B vs False s"
    and "get_term (file_ctrl K) s \<le> pe_term msg"
    and "handle_elected (file_ctrl K) (phys_ops B) msg s = (Ok r, s')"
  shows "get_term (file_ctrl K) s' = pe_term msg \<and> pe_term_history msg \<noteq> [] \<and>
    as_term_history (ps_acceptor_state (sk_pers (file_ctrl K) s')) = pe_term_history msg \<and>
    file_on_disk K (pers (sk_state s')) = {sk_pers (file_ctrl K) s'} \<and>
    flush_record_lsn (wal_store s') = pe_start_streaming_at msg \<and>
    m_commit_lsn (sk_mem s) \<le> pe_start_streaming_at msg \<and>
    epoch_start_lsn s' = tl_lsn (last (pe_term_history msg))"
  by (rule sk_formats.run_elected [OF sk_formatsI [OF assms(1,2)] assms(3-5)])

theorem elected_adopts_history_witness:
  "\<exists>s'. handle_elected (file_ctrl example_ctl_codec) (phys_ops example_bindings) example_election example_after_vote =
     (Ok None, s') \<and> flush_record_lsn (wal_store s') = 64 \<and> epoch_start_lsn s' = 64"
proof -
  obtain s' where s': "handle_elected (file_ctrl example_ctl_codec) (phys_ops example_bindings) example_election
      example_after_vote = (Ok None, s')" using example_elected by blast
  from elected_adopts_history [OF example_ctl.ctl_format_axioms example_bindings_ok example_run _ s'] s' show ?thesis
    by (auto simp: example_after_vote_simps example_election_def)
qed

text \<open>
  C7. An election completes: without I/O errors, a safekeeper whose WAL is flushed accepts the
  \<open>ProposerElected\<close> message of its term with a nonempty history, unless it would cut off WAL of
  its last epoch, cut below the commit position, or leave a gap. It then has its WAL end where the
  message says, and the message's history in its state.
\<close>

theorem election_completes:
  assumes "ready B s" and "get_term (file_ctrl K) s = pe_term msg" and "pe_term_history msg \<noteq> []"
    and "pe_term msg = get_epoch (file_ctrl K) (phys_ops B) s \<Longrightarrow>
      flush_lsn (file_ctrl K) (phys_ops B) s \<le> pe_start_streaming_at msg"
    and "m_commit_lsn (sk_mem s) \<le> pe_start_streaming_at msg"
    and "write_lsn (wal_store s) = 0 \<or> pe_start_streaming_at msg \<le> write_lsn (wal_store s)"
  shows "\<exists>s'. handle_elected (file_ctrl K) (phys_ops B) msg s = (Ok None, s') \<and>
    flush_record_lsn (wal_store s') = pe_start_streaming_at msg \<and>
    as_term_history (ps_acceptor_state (sk_pers (file_ctrl K) s')) = pe_term_history msg"
proof -
  from assms(4) have "\<not> (pe_term msg = get_epoch (file_ctrl K) (phys_ops B) s \<and>
      flush_lsn (file_ctrl K) (phys_ops B) s > pe_start_streaming_at msg)" by auto
  from elected_succeeds [OF assms(1-3) this assms(5,6)] show ?thesis by (auto simp: file_ctrl_def)
qed

theorem election_completes_witness:
  "\<exists>s'. handle_elected (file_ctrl example_ctl_codec) (phys_ops example_bindings) example_election example_after_vote =
     (Ok None, s') \<and> flush_record_lsn (wal_store s') = 64"
  using election_completes [OF example_ready(1), of example_ctl_codec example_election]
  by (auto simp: example_after_vote_simps example_election_def example_phys_def)





end
