(* ===== verification/Timeline_Properties.thy ===== *)
theory Timeline_Properties
  imports Safekeeper_Properties
begin

text \<open>
  Properties of the timeline layer: what its methods do to the safekeeper are steps of the
  safekeeper's runs, what it broadcasts is never ahead of the state, old WAL is removed only
  when nobody needs it, and recovery takes WAL only from peers that are ahead.
\<close>

section \<open>Calls\<close>

datatype tl_call =
    CProcess proposer_acceptor_message
  | CPeer nat sk_timeline_info
  | CPersist nat
  | CStatus
  | CBackup lsn
  | CRemote lsn
  | CRemove bool
  | CAttend
  | CFeedback nat "byte list"
  | CCancel

definition quiet :: "'a tl_method \<Rightarrow> acceptor_proposer_message option tl_method" where
  "quiet m = andthen m (\<lambda>_. ret None)"

definition handle_call ::
    "ctl_codec \<Rightarrow> wal_bindings \<Rightarrow> feedback_codec \<Rightarrow> tl_call \<Rightarrow> acceptor_proposer_message option tl_method" where
  "handle_call K B F c = (case c of
       CProcess m \<Rightarrow> tl_process_msg K B m
     | CPeer now i \<Rightarrow> quiet (tl_record_safekeeper_info K B now i)
     | CPersist now \<Rightarrow> quiet (maybe_persist_control_file K now)
     | CStatus \<Rightarrow> quiet (update_status_notify K)
     | CBackup l \<Rightarrow> quiet (set_wal_backup_lsn l)
     | CRemote l \<Rightarrow> quiet (update_remote_consistent_lsn l)
     | CRemove b \<Rightarrow> quiet (remove_old_wal b)
     | CAttend \<Rightarrow> quiet tl_wal_backup_attend
     | CFeedback i msg \<Rightarrow> quiet (handle_feedback F i msg)
     | CCancel \<Rightarrow> quiet cancel)"

text \<open>The life of a timeline, as \<open>sk_run\<close> is that of a safekeeper.\<close>

inductive tl_run :: "ctl_codec \<Rightarrow> wal_bindings \<Rightarrow> feedback_codec \<Rightarrow> consensus_term list \<Rightarrow> bool \<Rightarrow> timeline \<Rightarrow> bool"
  for K :: ctl_codec and B :: wal_bindings and F :: feedback_codec where
  create: "tl_run K B F [] False t"
    if "create_empty K B conf now f g tt server commit local_start = Ok t" and "\<not> conf_no_sync conf"
      and "replaceable CONTROL_FILE_NAME_PARTIAL CONTROL_FILE_NAME f" and "refs CONTROL_FILE_NAME f = {None}"
      and "si_wal_seg_size server = 16777216"
| call: "tl_run K B F (votes_of r @ vs) (doubt \<or> in_doubt r) t'"
    if "tl_run K B F vs doubt t" and "handle_call K B F c t = (r, t')"
| restart: "tl_run K B F vs False t'"
    if "tl_run K B F vs doubt t" and "after_crash (ctl_fs (pers (sk_state (tl_sk t)))) f"
      and "load_timeline K B conf now f g tt = Ok t'" and "\<not> conf_no_sync conf"
      and "si_wal_seg_size (ps_server (ss_pers (tl_shared t'))) = 16777216"

section \<open>Refinement\<close>

text \<open>The safekeeper of the timeline is in a run with these votes, in doubt at most as given.\<close>

definition runs :: "ctl_codec \<Rightarrow> wal_bindings \<Rightarrow> consensus_term list \<Rightarrow> bool \<Rightarrow> file_safekeeper \<Rightarrow> bool" where
  "runs K B vs doubt s = (\<exists>d. (d \<longrightarrow> doubt) \<and> sk_run K B vs d s)"

abbreviation refines :: "ctl_codec \<Rightarrow> wal_bindings \<Rightarrow> consensus_term list \<Rightarrow> bool \<Rightarrow> ('s \<Rightarrow> file_safekeeper) \<Rightarrow> ('s, sk_error, 'a) rust \<Rightarrow> bool" where
  "refines K B vs doubt g m \<equiv> keeps (\<lambda>t. runs K B vs doubt (g t))
     (\<lambda>e t. runs K B vs (doubt \<or> e = WalDecode) (g t)) (\<lambda>t. runs K B vs True (g t)) m"

lemma runs_mono: "runs K B vs doubt s \<Longrightarrow> (doubt \<longrightarrow> doubt') \<Longrightarrow> runs K B vs doubt' s"
  by (auto simp: runs_def)

lemma runs_event:
  assumes "runs K B vs doubt s" and "handle_event K B ev s = (r, s')"
  shows "runs K B (votes_of r @ vs) (doubt \<or> in_doubt r) s'"
  using assms sk_run.event unfolding runs_def by metis

lemma refines_silent:
  assumes "\<forall>m. ev \<noteq> ProposerMessage m"
  shows "refines K B vs doubt id (silent_event K B ev)"
proof (rule keepsI)
  fix s :: file_safekeeper
  assume I: "runs K B vs doubt (id s)"
  have "handle_event K B ev = andthen (silent_event K B ev) (\<lambda>_. ret None)"
    using assms by (cases ev) (simp_all add: handle_event_def)
  with runs_event [OF I [simplified], of ev]
  show "wp (silent_event K B ev) (\<lambda>_ t. runs K B vs doubt (id t)) (\<lambda>e t. runs K B vs (doubt \<or> e = WalDecode) (id t))
      (\<lambda>t. runs K B vs True (id t)) s"
    by (auto simp: wp_def andthen_def ret_def votes_of_def granted_def in_doubt_def split: prod.splits outcome.splits)
qed

lemma refines_on_field:
  assumes "refines K B vs doubt g m" and "\<And>x t. h (put x t) = g x" and "\<And>t. h t = g (get t)"
  shows "refines K B vs doubt h (on_field get put m)"
  using assms by (auto simp: keeps_def wp intro!: wp_mono [of m])

lemma refines_on_sk: "refines K B vs doubt id m \<Longrightarrow> refines K B vs doubt ss_sk (on_sk m)"
  unfolding on_sk_def by (rule refines_on_field [where g = id]) simp_all

lemma refines_on_shared: "refines K B vs doubt ss_sk m \<Longrightarrow> refines K B vs doubt tl_sk (on_shared m)"
  unfolding on_shared_def by (rule refines_on_field [where g = ss_sk]) simp_all

lemmas refines_sk = refines_on_shared [OF refines_on_sk]

lemma refines_walsenders: "refines K B vs doubt tl_sk (on_walsenders m)"
  unfolding on_walsenders_def keeps_def wp
  by (auto intro!: wp_mono [OF wp_True] elim: runs_mono)

lemma refines_basic:
  "refines K B vs doubt g (bail e)" "refines K B vs doubt g (require b e)" "refines K B vs doubt g (unwrap f)"
  "refines K B vs doubt g panic" "refines K B vs doubt g (assert_that b)"
  by (auto simp: keeps_def wp elim: runs_mono split: option.splits)

lemma refines_events:
  "refines K B vs doubt id (record_safekeeper_info (file_ctrl K) (phys_ops B) i)"
  "refines K B vs doubt id (maybe_persist_inmem_control_file (file_ctrl K) now)"
  "refines K B vs doubt id (on_state (flush_state (file_ctrl K)))"
  "refines K B vs doubt id (set_mem (\<lambda>m. m\<lparr>m_backup_lsn := max (m_backup_lsn m) l\<rparr>))"
  "refines K B vs doubt id (set_mem (\<lambda>m. m\<lparr>m_remote_lsn := max (m_remote_lsn m) l\<rparr>))"
  "refines K B vs doubt id (on_wal (remove_up_to segno))"
  "refines K B vs doubt id (on_wal phys_close)"
  using refines_silent [of "PeerPositions i"] refines_silent [of "PersistTick now"] refines_silent [of FlushControl]
    refines_silent [of "BackedUp l"] refines_silent [of "RemotelyConsistent l"] refines_silent [of "RemoveWal segno"]
    refines_silent [of CloseWal]
  by (simp_all add: silent_event_def)

text \<open>Writing the control file fails with I/O errors only, so a failure that is swallowed leaves no doubt.\<close>

definition io_only :: "('s, sk_error, 'a) rust \<Rightarrow> bool" where
  "io_only m = keeps (\<lambda>_. True) (\<lambda>e _. e \<noteq> WalDecode) (\<lambda>_. True) m"

lemma io_only_on_field: "io_only m \<Longrightarrow> io_only (on_field get put m)"
  unfolding io_only_def keeps_def wp by (auto intro: wp_mono)

lemma io_only_ctl_io: "io_only (ctl_io m)"
  unfolding ctl_io_def by (rule io_only_on_field) (auto simp: io_only_def keeps_def wp intro: wp_mono [OF wp_True])

lemma io_only_andthen: "io_only m \<Longrightarrow> (\<And>x. io_only (f x)) \<Longrightarrow> io_only (andthen m f)"
  unfolding io_only_def by (rule keeps_andthen)

lemma io_only_basic: "io_only (read f)" "io_only (update g)"
  by (simp_all add: io_only_def keeps_def wp)

lemma io_only_flush: "io_only (on_state (flush_state (file_ctrl K)))"
  unfolding on_state_def flush_state_def finish_change_def file_ctrl_def ctrl_ops.select_convs file_persist_def
  by (intro io_only_on_field io_only_andthen io_only_ctl_io io_only_basic)

lemma refines_flush_logged:
  "refines K B vs doubt ss_sk (catch (on_sk (on_state (flush_state (file_ctrl K)))) (\<lambda>_. ret ()))"
proof (rule keepsI)
  fix s :: shared_state
  assume I: "runs K B vs doubt (ss_sk s)"
  have "io_only (on_sk (on_state (flush_state (file_ctrl K))))"
    unfolding on_sk_def by (rule io_only_on_field [OF io_only_flush])
  then have "wp (on_sk (on_state (flush_state (file_ctrl K)))) (\<lambda>_ _. True) (\<lambda>e _. e \<noteq> WalDecode) (\<lambda>_. True) s"
    by (simp add: io_only_def keeps_def)
  from wp_conj [OF this keepsD [OF refines_on_sk [OF refines_events(3)] I]]
  show "wp (catch (on_sk (on_state (flush_state (file_ctrl K)))) (\<lambda>_. ret ())) (\<lambda>_ t. runs K B vs doubt (ss_sk t))
      (\<lambda>e t. runs K B vs (doubt \<or> e = WalDecode) (ss_sk t)) (\<lambda>t. runs K B vs True (ss_sk t)) s"
    unfolding wp_catch by (rule wp_mono) (auto simp: wp)
qed

lemmas refines_rules = keeps_andthen keeps_ret keeps_read keeps_run_if keeps_branch keeps_if refines_basic
  refines_on_sk [OF refines_events(1)] refines_on_sk [OF refines_events(2)] refines_on_sk [OF refines_events(4)]
  refines_on_sk [OF refines_events(5)] refines_on_sk [OF refines_events(6)] refines_on_sk [OF refines_events(7)]
  refines_flush_logged refines_on_shared refines_walsenders

lemma refines_update: "(\<And>t. g (f t) = g t) \<Longrightarrow> refines K B vs doubt g (update f)"
  by (simp add: keeps_def wp)

lemma refines_update_status: "refines K B vs doubt tl_sk (tl_update_status K)"
  unfolding tl_update_status_def ss_update_status_def ss_is_active_def is_wal_backup_action_pending_def
    is_wal_backup_required_def
  by (intro refines_rules refines_update) simp_all

lemma refines_quiet:
  "refines K B vs doubt tl_sk (tl_record_safekeeper_info K B now i)"
  "refines K B vs doubt tl_sk (maybe_persist_control_file K now)"
  "refines K B vs doubt tl_sk (update_status_notify K)"
  "refines K B vs doubt tl_sk (set_wal_backup_lsn l)"
  "refines K B vs doubt tl_sk (update_remote_consistent_lsn l)"
  "refines K B vs doubt tl_sk (remove_old_wal b)"
  "refines K B vs doubt tl_sk tl_wal_backup_attend"
  "refines K B vs doubt tl_sk cancel"
  unfolding tl_record_safekeeper_info_def maybe_persist_control_file_def update_status_notify_def set_wal_backup_lsn_def
    update_remote_consistent_lsn_def remove_old_wal_def tl_wal_backup_attend_def cancel_def not_cancelled_def
    notify_launcher_def get_horizon_segno_def ss_wal_backup_attend_def is_wal_backup_required_def
  by ((intro refines_rules refines_update refines_update_status; simp)+)

lemma refines_feedback: "refines K B vs doubt tl_sk (handle_feedback F i msg)"
proof (cases msg)
  case (Cons tag body)
  have opt: "refines K B vs doubt tl_sk (case x of None \<Rightarrow> bail e | Some y \<Rightarrow> on_walsenders (f y))" for x e f
    by (cases x) (auto intro: refines_rules)
  show ?thesis
    unfolding handle_feedback_def Cons list.case
    by (intro refines_rules opt refines_quiet)
qed (simp add: handle_feedback_def keeps_ret)

lemma granted_fill_feedback [simp]: "granted (fill_feedback ws r) = granted r"
  by (auto simp: fill_feedback_def granted_def split: option.splits acceptor_proposer_message.splits prod.splits)

lemma process_refines:
  assumes I: "runs K B vs doubt (tl_sk t)" and "tl_process_msg K B m t = (r, t')"
  shows "runs K B (votes_of r @ vs) (doubt \<or> in_doubt r) (tl_sk t')"
proof (cases "cancelled t")
  case True
  with assms show ?thesis
    by (auto simp: tl_process_msg_def not_cancelled_def andthen_def require_def votes_of_def in_doubt_def)
next
  case False
  obtain r0 s' where p: "process_msg (file_ctrl K) (phys_ops B) m (tl_sk t) = (r0, s')" by fastforce
  from runs_event [OF I, of "ProposerMessage m"] p
  have "runs K B (votes_of r0 @ vs) (doubt \<or> in_doubt r0) s'" by (simp add: handle_event_def)
  with p False assms(2) show ?thesis
    by (auto simp: tl_process_msg_def not_cancelled_def andthen_def require_def on_shared_def on_sk_def on_field_def
        read_def update_def ret_def votes_of_def in_doubt_def split: outcome.splits)
qed

lemma quiet_refines:
  assumes "refines K B vs doubt tl_sk m" and I: "runs K B vs doubt (tl_sk t)" and "quiet m t = (r, t')"
  shows "runs K B (votes_of r @ vs) (doubt \<or> in_doubt r) (tl_sk t')"
  using keepsD [OF assms(1) I] assms(3)
  by (auto simp: quiet_def wp_def andthen_def ret_def votes_of_def granted_def in_doubt_def split: prod.splits outcome.splits)

lemma call_refines:
  assumes "runs K B vs doubt (tl_sk t)" and "handle_call K B F c t = (r, t')"
  shows "runs K B (votes_of r @ vs) (doubt \<or> in_doubt r) (tl_sk t')"
  using assms(2)
  by (cases c) (auto simp: handle_call_def intro: process_refines [OF assms(1)] quiet_refines [OF _ assms(1)]
      refines_quiet refines_feedback)

lemma load_timelineE:
  "load_timeline K B conf now f g tt = Ok t \<Longrightarrow> shared_restore K B conf now f g = Ok (tl_shared t) \<and>
     commit_lsn_watch t = ps_commit_lsn (ss_pers (tl_shared t))"
  by (auto simp: load_timeline_def split: outcome.splits)

lemma create_emptyE:
  "create_empty K B conf now f g tt server commit local_start = Ok t \<Longrightarrow> commit_lsn_watch t = 0 \<and>
     shared_create_new K B conf now f g (pstate_new (fst tt) (snd tt) server [] commit local_start) = Ok (tl_shared t)"
  by (auto simp: create_empty_def Lsn_INVALID_def split: outcome.splits)

lemma tl_run_runs: "tl_run K B F vs doubt t \<Longrightarrow> runs K B vs doubt (tl_sk t)"
proof (induction rule: tl_run.induct)
  case (create conf now f g tt server commit local_start t)
  then show ?case
    using sk_run.create [OF conjunct2 [OF create_emptyE [OF create.hyps(1)]] create.hyps(2-4)]
    by (auto simp: runs_def pstate_new_def)
next
  case (call vs doubt t c r t')
  then show ?case by (blast intro: call_refines)
next
  case (restart vs doubt t f conf now g tt t')
  from restart.IH obtain d where "sk_run K B vs d (tl_sk t)" by (auto simp: runs_def)
  from sk_run.restart [OF this restart.hyps(2) conjunct1 [OF load_timelineE [OF restart.hyps(3)]] restart.hyps(4)] restart.hyps(5)
  show ?case by (auto simp: runs_def ss_pers_def)
qed

section \<open>The watch channel\<close>

context sk_formats
begin

text \<open>The broadcast commit position is not beyond the one in memory.\<close>

definition watched :: "timeline \<Rightarrow> bool" where
  "watched t = file_ctl.at_least 0 (commit_lsn_watch t) (tl_sk t)"

abbreviation watches :: "'a tl_method \<Rightarrow> bool" where
  "watches m \<equiv> keeps watched (\<lambda>_. watched) watched m"

abbreviation shared_kept :: "lsn \<Rightarrow> 'a ss_method \<Rightarrow> bool" where
  "shared_kept k m \<equiv> keeps (\<lambda>s. file_ctl.at_least 0 k (ss_sk s)) (\<lambda>_ s. file_ctl.at_least 0 k (ss_sk s))
     (\<lambda>s. file_ctl.at_least 0 k (ss_sk s)) m"

lemma shared_kept_sk: "file_ctl.kept 0 k m \<Longrightarrow> shared_kept k (on_sk m)"
  unfolding on_sk_def keeps_def wp by auto

lemma watches_shared: "(\<And>k. shared_kept k m) \<Longrightarrow> watches (on_shared m)"
  unfolding on_shared_def keeps_def wp watched_def by auto

lemma watches_update:
  assumes "\<And>t. tl_sk (g t) = tl_sk t"
    and "\<And>t. commit_lsn_watch (g t) = commit_lsn_watch t \<or> commit_lsn_watch (g t) = m_commit_lsn (ss_mem (tl_shared t))"
  shows "watches (update g)"
proof (rule keeps_update)
  fix t
  assume "watched t"
  then show "watched (g t)"
    using assms(2) [of t] by (auto simp: watched_def file_ctl.at_least_def assms(1) ss_mem_def)
qed

lemma watches_walsenders: "watches (on_walsenders m)"
  unfolding on_walsenders_def keeps_def wp watched_def by (auto intro!: wp_mono [OF wp_True])

lemma kept_process_msg: "file_ctl.kept 0 k (process_msg (file_ctrl K) (phys_ops B) m)"
  by (rule keepsI, rule wp_mono [OF event_votes [of 0 k _ "ProposerMessage m", unfolded handle_event_def sk_event.case]]) auto

lemma kept_events:
  "file_ctl.kept 0 k (record_safekeeper_info (file_ctrl K) (phys_ops B) i)"
  "file_ctl.kept 0 k (maybe_persist_inmem_control_file (file_ctrl K) now)"
  "file_ctl.kept 0 k (on_state (flush_state (file_ctrl K)))"
  "file_ctl.kept 0 k (set_mem (\<lambda>m. m\<lparr>m_backup_lsn := max (m_backup_lsn m) l\<rparr>))"
  "file_ctl.kept 0 k (set_mem (\<lambda>m. m\<lparr>m_remote_lsn := max (m_remote_lsn m) l\<rparr>))"
  "file_ctl.kept 0 k (on_wal w)"
  by (auto intro: file_ctl.kept_record_info file_ctl.kept_maybe_persist file_ctl.kept_flush_state file_ctl.kept_set_mem
      file_ctl.kept_on_wal)

lemmas watch_rules = keeps_andthen keeps_ret keeps_read keeps_bail keeps_require keeps_unwrap keeps_run_if keeps_branch
  keeps_if keeps_catch kept_process_msg kept_events shared_kept_sk watches_shared watches_walsenders

lemma shared_kept_update: "(\<And>s. ss_sk (g s) = ss_sk s) \<Longrightarrow> shared_kept k (update g)"
  by (rule keeps_update) simp

lemma watches_update_status: "watches (tl_update_status K)"
  unfolding tl_update_status_def ss_update_status_def ss_is_active_def is_wal_backup_action_pending_def
    is_wal_backup_required_def
  by (intro watch_rules shared_kept_update) simp_all

lemma watches_quiet:
  "watches (tl_record_safekeeper_info K B now i)"
  "watches (maybe_persist_control_file K now)"
  "watches (update_status_notify K)"
  "watches (set_wal_backup_lsn l)"
  "watches (update_remote_consistent_lsn l)"
  "watches (remove_old_wal b)"
  "watches tl_wal_backup_attend"
  "watches cancel"
  "watches (tl_process_msg K B m)"
  unfolding tl_record_safekeeper_info_def maybe_persist_control_file_def update_status_notify_def set_wal_backup_lsn_def
    update_remote_consistent_lsn_def remove_old_wal_def tl_wal_backup_attend_def cancel_def not_cancelled_def
    notify_launcher_def get_horizon_segno_def ss_wal_backup_attend_def is_wal_backup_required_def tl_process_msg_def
  by ((intro watch_rules watches_update shared_kept_update watches_update_status; simp)+)

lemma watches_feedback: "watches (handle_feedback F i msg)"
proof (cases msg)
  case (Cons tag body)
  have opt: "watches (case x of None \<Rightarrow> bail e | Some y \<Rightarrow> on_walsenders (f y))" for x e f
    by (cases x) (auto intro: watch_rules)
  have "watches panic" by (simp add: keeps_def wp)
  then show ?thesis
    unfolding handle_feedback_def Cons list.case
    by (intro watch_rules opt watches_quiet)
qed (simp add: handle_feedback_def keeps_ret)

lemma watches_call: "watches (handle_call K B F c)"
  by (cases c) (auto simp: handle_call_def quiet_def intro: watch_rules watches_quiet watches_feedback)

lemma run_file_inv: "runs K B vs doubt s \<Longrightarrow> file_inv (pers (sk_state s))"
  using run_safe by (auto simp: runs_def)

lemma run_watched: "tl_run K B F vs doubt t \<Longrightarrow> watched t"
proof (induction rule: tl_run.induct)
  case (create conf now f g tt server commit local_start t)
  from run_file_inv [OF tl_run_runs [OF tl_run.create [OF create.hyps]]] create_emptyE [OF create.hyps(1)] show ?case
    by (simp add: watched_def file_ctl.at_least_def)
next
  case (call vs doubt t c r t')
  with keepsD [OF watches_call, of t F c] show ?case by (cases r) (auto simp: wp_def)
next
  case (restart vs doubt t f conf now g tt t')
  obtain c w where "safekeeper_new (file_ctrl K) c w (my_id conf) = Ok (tl_sk t')"
    by (rule shared_restoreE [OF conjunct1 [OF load_timelineE [OF restart.hyps(3)]] restart.hyps(4)])
  from safekeeper_new_state [OF this] load_timelineE [OF restart.hyps(3)]
    run_file_inv [OF tl_run_runs [OF tl_run.restart [OF restart.hyps]]]
  show ?case by (simp add: watched_def file_ctl.at_least_def ss_pers_def mem_of_def)
qed

lemma run_watch:
  assumes "tl_run K B F vs doubt t"
  shows "commit_lsn_watch t \<le> m_commit_lsn (ss_mem (tl_shared t)) \<and>
    (\<not> doubt \<longrightarrow> commit_lsn_watch t \<le> flush_lsn (file_ctrl K) (phys_ops B) (tl_sk t))"
proof -
  have w: "commit_lsn_watch t \<le> m_commit_lsn (ss_mem (tl_shared t))"
    using run_watched [OF assms] by (simp add: watched_def file_ctl.at_least_def ss_mem_def)
  moreover have "m_commit_lsn (ss_mem (tl_shared t)) \<le> flush_lsn (file_ctrl K) (phys_ops B) (tl_sk t)" if "\<not> doubt"
  proof -
    obtain d where "d \<longrightarrow> doubt" "sk_run K B vs d (tl_sk t)" using tl_run_runs [OF assms] by (auto simp: runs_def)
    then have "sk_run K B vs False (tl_sk t)" using that by auto
    from run_committed_flushed [OF this] show ?thesis by (simp add: ss_mem_def)
  qed
  ultimately show ?thesis by (blast intro: order_trans)
qed

end

section \<open>Removal of old WAL\<close>

lemma keeps_contents_remove:
  assumes "\<And>segno tli. XLogFromFileName name seg_size = Some (segno, tli) \<Longrightarrow> \<not> p segno"
  shows "keeps (\<lambda>f. fs_contents f name = x) (\<lambda>_ f. fs_contents f name = x) (\<lambda>f. fs_contents f name = x)
    (remove_matching seg_size p names)"
proof (induction names)
  case Nil
  show ?case by (auto simp: keeps_def fs_contents_def wp intro!: wp_may_fail)
next
  case (Cons n names)
  have call: "keeps (\<lambda>f. fs_contents f name = x) (\<lambda>_ f. fs_contents f name = x) (\<lambda>f. fs_contents f name = x) (may_fail (ret ()))"
    by (auto simp: keeps_def fs_contents_def wp intro!: wp_may_fail)
  have remove: "keeps (\<lambda>f. fs_contents f name = x) (\<lambda>_ f. fs_contents f name = x) (\<lambda>f. fs_contents f name = x) (fs_remove n)"
    if "n \<noteq> name"
    using that by (auto simp: keeps_def fs_contents_def fs_remove_def wp fs_lookup_def intro!: wp_may_fail split: option.splits)
  have step: "keeps (\<lambda>f. fs_contents f name = x) (\<lambda>_ f. fs_contents f name = x) (\<lambda>f. fs_contents f name = x)
      (andthen (unwrap (\<lambda>_. XLogFromFileName n seg_size)) (\<lambda>(segno, _). if p segno then fs_remove n else ret ()))"
  proof (cases "XLogFromFileName n seg_size")
    case (Some a)
    obtain segno tli where a: "a = (segno, tli)" by fastforce
    show ?thesis
    proof (cases "n = name")
      case True
      with assms Some a show ?thesis by (auto simp: keeps_def wp)
    next
      case False
      with remove Some a show ?thesis by (auto simp: keeps_def wp)
    qed
  qed (auto simp: keeps_def wp)
  show ?case
    unfolding remove_matching.simps
    by (intro keeps_andthen keeps_if keeps_ret call step Cons.IH)
qed

lemma wp_contents_remove_segments:
  assumes "\<And>segno tli. XLogFromFileName name seg_size = Some (segno, tli) \<Longrightarrow> \<not> p segno"
    and "fs_contents f name = x"
  shows "wp (remove_segments_from_disk seg_size p) (\<lambda>_ f. fs_contents f name = x) (\<lambda>_ f. fs_contents f name = x)
    (\<lambda>f. fs_contents f name = x) f"
  unfolding remove_segments_from_disk_def fs_names_def wp_andthen
  by (rule wp_may_fail)
    (use assms(2) in \<open>auto simp: wp fs_contents_def intro!: keepsD [OF keeps_contents_remove, unfolded fs_contents_def] assms(1)\<close>)

definition wal_files :: "timeline \<Rightarrow> fs" where
  "wal_files t = p_fs (wal_store (tl_sk t))"

definition removal_horizon :: "bool \<Rightarrow> timeline \<Rightarrow> lsn" where
  "removal_horizon wal_backup_enabled t =
     horizon_lsn wal_backup_enabled (if walsenders_keep_horizon t then laggard_lsn (tl_walsenders t) else None) (tl_shared t)"

lemma remove_old_wal_contents:
  assumes seg: "get_wal_seg_size (tl_shared t) = 16777216" "wal_seg_size (wal_store (tl_sk t)) = 16777216"
    and name: "XLogFromFileName name 16777216 = Some (segno, tli)"
    and needed: "removal_horizon b t div 16777216 \<le> segno"
    and call: "remove_old_wal b t = (r, t')"
  shows "fs_contents (wal_files t') name = fs_contents (wal_files t) name"
proof -
  let ?h = "removal_horizon b t div 16777216"
  have h: "segment_number (removal_horizon b t) (get_wal_seg_size (tl_shared t)) = Some ?h"
    using seg(1) by (simp add: segment_number_def)
  show ?thesis
  proof (cases "cancelled t \<or> ?h \<le> 1 \<or> ?h \<le> last_removed_segno (tl_shared t)")
    case True
    with call h have "t' = t"
      by (auto simp: remove_old_wal_def not_cancelled_def require_def andthen_def read_def on_shared_def on_field_def
          get_horizon_segno_def unwrap_def branch_def ret_def removal_horizon_def split: if_splits)
    then show ?thesis by simp
  next
    case False
    then have "?h \<noteq> 0" by auto
    then have "\<not> segno \<le> ?h - 1"
      using needed unat_gt_0 [of ?h] by (auto simp: word_le_nat_alt unat_minus_one)
    then have "wp (remove_segments_from_disk 16777216 (\<lambda>x. x \<le> ?h - 1)) (\<lambda>_ f. fs_contents f name = fs_contents (wal_files t) name)
        (\<lambda>_ f. fs_contents f name = fs_contents (wal_files t) name) (\<lambda>f. fs_contents f name = fs_contents (wal_files t) name) (wal_files t)"
      by (intro wp_contents_remove_segments) (use name in auto)
    with False call h seg(2) show ?thesis
      by (auto simp: remove_old_wal_def not_cancelled_def require_def andthen_def read_def on_shared_def on_sk_def on_wal_def
          on_field_def get_horizon_segno_def unwrap_def branch_def ret_def removal_horizon_def remove_up_to_def phys_io_def
          map_err_def update_def wp_def wal_files_def split: if_splits prod.splits outcome.splits)
  qed
qed

lemma removal_horizon_le:
  assumes "p = ps_remote_lsn (ss_pers (tl_shared t)) \<or> p = ps_peer_horizon_lsn (ss_pers (tl_shared t)) \<or>
    b \<and> p = ps_backup_lsn (ss_pers (tl_shared t)) \<or>
    walsenders_keep_horizon t \<and> laggard_lsn (tl_walsenders t) = Some p"
  shows "removal_horizon b t div 16777216 \<le> p div 16777216"
proof -
  have "removal_horizon b t \<le> p"
    using assms by (auto simp: removal_horizon_def horizon_lsn_def Let_def min.coboundedI1 min.coboundedI2 split: option.splits)
  then show ?thesis by (simp add: word_le_nat_alt unat_div div_le_mono)
qed

lemma keeps_missing: "keeps (\<lambda>f. fs_lookup f name = None) (\<lambda>_ _. True) (\<lambda>_. True) (remove_matching sz p names)"
proof (induction names)
  case Nil
  show ?case by (auto simp: keeps_def fs_lookup_def wp intro!: wp_may_fail)
next
  case (Cons n names)
  have call: "keeps (\<lambda>f. fs_lookup f name = None) (\<lambda>_ _. True) (\<lambda>_. True) (may_fail (ret ()))"
    by (auto simp: keeps_def fs_lookup_def wp intro!: wp_may_fail)
  have step: "keeps (\<lambda>f. fs_lookup f name = None) (\<lambda>_ _. True) (\<lambda>_. True)
      (andthen (unwrap (\<lambda>_. XLogFromFileName n sz)) (\<lambda>(segno, _). if p segno then fs_remove n else ret ()))"
    by (auto simp: keeps_def fs_remove_def wp fs_lookup_def delete_conv' intro!: wp_may_fail split: option.splits)
  show ?case
    unfolding remove_matching.simps
    by (rule keeps_andthen [OF call], rule keeps_andthen [OF keeps_if [OF keeps_ret step]], rule Cons.IH)
qed

lemma wp_remove_matching:
  assumes "name \<in> set names" and "IsXLogFileName name \<or> IsPartialXLogFileName name"
    and "XLogFromFileName name sz = Some (segno, tli)" and "p segno"
  shows "wp (remove_matching sz p names) (\<lambda>_ f. fs_lookup f name = None) (\<lambda>_ _. True) (\<lambda>_. True) f"
  using assms(1)
proof (induction names arbitrary: f)
  case (Cons n names)
  show ?case
  proof (cases "n = name")
    case True
    show ?thesis
      unfolding remove_matching.simps wp_andthen
      by (rule wp_may_fail)
        (use True assms(2-4) in \<open>auto simp: wp fs_remove_def fs_lookup_def delete_conv' intro!: wp_may_fail keepsD [OF keeps_missing, unfolded fs_lookup_def]
           split: option.splits\<close>)
  next
    case False
    with Cons.prems have IH: "wp (remove_matching sz p names) (\<lambda>_ f. fs_lookup f name = None) (\<lambda>_ _. True) (\<lambda>_. True) f" for f
      by (intro Cons.IH) simp
    show ?thesis
      unfolding remove_matching.simps wp_andthen
      by (rule wp_may_fail) (auto simp: wp intro!: IH wp_mono [OF wp_True] split: option.splits prod.splits)
  qed
qed simp

lemma wp_remove_segments:
  assumes "IsXLogFileName name \<or> IsPartialXLogFileName name"
    and "XLogFromFileName name sz = Some (segno, tli)" and "p segno"
  shows "wp (remove_segments_from_disk sz p) (\<lambda>_ f. fs_lookup f name = None) (\<lambda>_ _. True) (\<lambda>_. True) f"
proof (cases "name \<in> fst ` set (dir f)")
  case True
  then have "name \<in> set (map fst (dir f))" by simp
  from wp_remove_matching [where p = p, OF this assms] show ?thesis
    unfolding remove_segments_from_disk_def fs_names_def wp_andthen
    by (intro wp_may_fail) (simp_all add: wp)
next
  case False
  then have "fs_lookup (f\<lparr>faults := x\<rparr>) name = None" for x by (simp add: fs_lookup_def map_of_eq_None_iff)
  then show ?thesis
    unfolding remove_segments_from_disk_def fs_names_def wp_andthen
    by (intro wp_may_fail) (auto simp: wp intro!: keepsD [OF keeps_missing])
qed

lemma remove_old_wal_removed:
  assumes seg: "get_wal_seg_size (tl_shared t) = 16777216" "wal_seg_size (wal_store (tl_sk t)) = 16777216"
    and name: "IsXLogFileName name \<or> IsPartialXLogFileName name" "XLogFromFileName name 16777216 = Some (segno, tli)"
    and old: "segno < removal_horizon b t div 16777216"
    and new: "1 < removal_horizon b t div 16777216" "last_removed_segno (tl_shared t) < removal_horizon b t div 16777216"
    and call: "remove_old_wal b t = (Ok (), t')"
  shows "fs_lookup (wal_files t') name = None"
proof -
  let ?h = "removal_horizon b t div 16777216"
  have h: "segment_number (removal_horizon b t) (get_wal_seg_size (tl_shared t)) = Some ?h"
    using seg(1) by (simp add: segment_number_def)
  have "?h \<noteq> 0" using old by auto
  then have "segno \<le> ?h - 1"
    using old unat_gt_0 [of ?h] by (auto simp: word_le_nat_alt word_less_nat_alt unat_minus_one)
  then have "wp (remove_segments_from_disk 16777216 (\<lambda>x. x \<le> ?h - 1)) (\<lambda>_ f. fs_lookup f name = None) (\<lambda>_ _. True) (\<lambda>_. True)
      (wal_files t)"
    by (rule wp_remove_segments [where p = "\<lambda>x. x \<le> ?h - 1", OF name])
  with new call h seg(2) show ?thesis
    by (auto simp: remove_old_wal_def not_cancelled_def require_def andthen_def read_def on_shared_def on_sk_def on_wal_def
        on_field_def get_horizon_segno_def unwrap_def branch_def ret_def removal_horizon_def remove_up_to_def phys_io_def
        map_err_def update_def wp_def wal_files_def split: if_splits prod.splits outcome.splits)
qed

section \<open>Recovery\<close>

text \<open>A peer that WAL may be fetched from without an election.\<close>

definition good_donor :: "ctl_codec \<Rightarrow> wal_bindings \<Rightarrow> timeline \<Rightarrow> peer_info \<Rightarrow> bool" where
  "good_donor K B t p \<longleftrightarrow>
     (get_epoch (file_ctrl K) (phys_ops B) (tl_sk t), flush_lsn (file_ctrl K) (phys_ops B) (tl_sk t)) < log_end p \<and>
     pi_term p = pi_last_log_term p \<and> get_term (file_ctrl K) (tl_sk t) \<le> pi_term p"

lemma map_filter_if: "List.map_filter (\<lambda>x. if P x then if Q x then Some (f x) else None else None) xs =
    map f (filter (\<lambda>x. P x \<and> Q x) xs)"
  by (induction xs) (simp_all add: List.map_filter_def)

lemma recovery_donors:
  "rn_donors (recovery_needed K B now hb t) =
     (if get_num_streaming (tl_walreceivers t) > 0 then []
      else map donor_from (filter (good_donor K B t) (sort_peers (ss_get_peers now hb (tl_shared t)))))"
  by (simp add: recovery_needed_def Let_def map_filter_if good_donor_def [abs_def] get_term_def ss_pers_def)

lemma set_sort_peers [simp]: "set (sort_peers ps) = set ps"
  by (simp add: sort_peers_def)

lemma sorted_sort_peers: "sorted_wrt (\<lambda>p q. log_end q \<le> log_end p) (sort_peers ps)"
  using sorted_sort_key [of log_end "rev ps"]
  by (simp add: sort_peers_def sorted_wrt_rev sorted_map)

lemma donors_sorted:
  "sorted_wrt (\<lambda>d e. (dn_term e, dn_flush_lsn e) \<le> (dn_term d, dn_flush_lsn d)) (rn_donors (recovery_needed K B now hb t))"
proof -
  have "sorted_wrt (\<lambda>p q. (pi_term q, pi_flush_lsn q) \<le> (pi_term p, pi_flush_lsn p))
      (filter (good_donor K B t) (sort_peers ps))" for ps
  proof (rule sorted_wrt_mono_rel [where P = "\<lambda>p q. log_end q \<le> log_end p"])
    show "sorted_wrt (\<lambda>p q. log_end q \<le> log_end p) (filter (good_donor K B t) (sort_peers ps))"
      by (rule sorted_wrt_filter [OF sorted_sort_peers])
    fix p q
    assume "p \<in> set (filter (good_donor K B t) (sort_peers ps))" "q \<in> set (filter (good_donor K B t) (sort_peers ps))"
    then have "pi_term p = pi_last_log_term p" "pi_term q = pi_last_log_term q" by (simp_all add: good_donor_def)
    moreover assume "log_end q \<le> log_end p"
    ultimately show "(pi_term q, pi_flush_lsn q) \<le> (pi_term p, pi_flush_lsn p)" by (simp add: log_end_def)
  qed
  then show ?thesis by (simp add: recovery_donors sorted_wrt_map donor_from_def)
qed

context sk_formats
begin

lemma process_msg_ok:
  assumes "tl_process_msg K B m t = (Ok r, t')"
  shows "\<exists>r0 s'. process_msg (file_ctrl K) (phys_ops B) m (tl_sk t) = (Ok r0, s') \<and> tl_sk t' = s' \<and>
    r = fill_feedback (tl_walsenders t) r0"
  using assms
  by (cases "process_msg (file_ctrl K) (phys_ops B) m (tl_sk t)")
    (auto simp: tl_process_msg_def not_cancelled_def require_def andthen_def on_shared_def on_sk_def on_field_def read_def
      update_def ret_def split: if_splits outcome.splits)

lemma recovery_adopts:
  assumes run: "runs K B vs False (tl_sk t)" and ok: "recover_start K B d x donor_th t = (Ok l, t')"
  shows "get_term (file_ctrl K) (tl_sk t') = dn_term d \<and>
    as_term_history (ps_acceptor_state (ss_pers (tl_shared t'))) = donor_th \<and>
    flush_record_lsn (wal_store (tl_sk t')) = l \<and> m_commit_lsn (ss_mem (tl_shared t)) \<le> l"
proof -
  obtain vr t1 where v: "tl_process_msg K B (VoteRequest \<lparr>vreq_term = dn_term d\<rparr>) t = (Ok (Some (AVoteResponse vr)), t1)"
      "vr_term vr = dn_term d"
    and e: "\<exists>r. tl_process_msg K B (Elected \<lparr>pe_term = dn_term d, pe_start_streaming_at = l, pe_term_history = donor_th,
        pe_timeline_start_lsn = Lsn_INVALID\<rparr>) t1 = (Ok r, t')"
    using ok
    by (auto simp: recover_start_def andthen_def require_def bail_def ret_def
        split: if_splits prod.splits outcome.splits option.splits acceptor_proposer_message.splits)
  from process_refines [OF run v(1)] have run1: "runs K B (votes_of (Ok (Some (AVoteResponse vr)) :: (sk_error, _) outcome) @ vs) False (tl_sk t1)"
    by (simp add: in_doubt_def)
  then obtain vs1 where run1': "sk_run K B vs1 False (tl_sk t1)" by (auto simp: runs_def)
  obtain d0 where "sk_run K B vs d0 (tl_sk t)" "d0 \<longrightarrow> False" using run by (auto simp: runs_def)
  then have run0: "sk_run K B vs False (tl_sk t)" by simp
  obtain r0 where "process_msg (file_ctrl K) (phys_ops B) (VoteRequest \<lparr>vreq_term = dn_term d\<rparr>) (tl_sk t) = (Ok r0, tl_sk t1)"
      "Some (AVoteResponse vr) = fill_feedback (tl_walsenders t) r0"
    using process_msg_ok [OF v(1)] by blast
  then have h: "handle_vote_request (file_ctrl K) (phys_ops B) \<lparr>vreq_term = dn_term d\<rparr> (tl_sk t) = (Ok (Some (AVoteResponse vr)), tl_sk t1)"
    by (auto simp: process_msg_def fill_feedback_def split: option.splits acceptor_proposer_message.splits prod.splits)
  from run_vote [OF run0 h] v(2) have t1: "get_term (file_ctrl K) (tl_sk t1) = dn_term d" by auto
  obtain r1 where "process_msg (file_ctrl K) (phys_ops B) (Elected \<lparr>pe_term = dn_term d, pe_start_streaming_at = l,
      pe_term_history = donor_th, pe_timeline_start_lsn = Lsn_INVALID\<rparr>) (tl_sk t1) = (Ok r1, tl_sk t')"
    using e process_msg_ok by blast
  then have el: "handle_elected (file_ctrl K) (phys_ops B) \<lparr>pe_term = dn_term d, pe_start_streaming_at = l,
      pe_term_history = donor_th, pe_timeline_start_lsn = Lsn_INVALID\<rparr> (tl_sk t1) = (Ok r1, tl_sk t')"
    by (simp add: process_msg_def)
  have "m_commit_lsn (sk_mem (tl_sk t)) \<le> m_commit_lsn (sk_mem (tl_sk t1))"
    using run_monotone [OF run0, of "ProposerMessage (VoteRequest \<lparr>vreq_term = dn_term d\<rparr>)"] h
    by (simp add: handle_event_def process_msg_def)
  moreover have "m_commit_lsn (sk_mem (tl_sk t1)) \<le> l" using run_elected [OF run1' _ el] t1 by simp
  ultimately have "m_commit_lsn (sk_mem (tl_sk t)) \<le> l" by (rule order_trans)
  then show ?thesis using run_elected [OF run1' _ el] t1 by (simp add: ss_pers_def ss_mem_def)
qed

end

section \<open>An example timeline\<close>

definition example_timeline :: "file_safekeeper \<Rightarrow> lsn \<Rightarrow> term_lsn \<Rightarrow> timeline" where
  "example_timeline sk c tf = \<lparr>ttid = (replicate 16 1, replicate 16 2), tl_shared = example_shared sk,
     commit_lsn_watch = c, term_flush_lsn_watch = tf, tl_walsenders = walsenders_new, tl_walreceivers = [],
     cancelled = False, walsenders_keep_horizon = False, launcher_notifications = 0\<rparr>"

definition example_feedback_codec :: feedback_codec where
  "example_feedback_codec = \<lparr>des_hs_feedback = (\<lambda>_. None), des_standby_reply = (\<lambda>_. None), feedback_wire = std_wire\<rparr>"

lemma example_timeline_sk [simp]: "tl_sk (example_timeline sk c tf) = sk" "tl_shared (example_timeline sk c tf) = example_shared sk"
  "ss_sk (example_shared sk) = sk" "tl_walsenders (example_timeline sk c tf) = walsenders_new"
  "commit_lsn_watch (example_timeline sk c tf) = c"
  by (simp_all add: example_timeline_def example_shared_def)

lemma example_tl_process:
  assumes "process_msg (file_ctrl K) (phys_ops B) m sk = (Ok r, sk')"
  shows "tl_process_msg K B m (example_timeline sk c tf) = (Ok (fill_feedback walsenders_new r),
    example_timeline sk' (m_commit_lsn (sk_mem sk')) (term_flush_of K B (example_shared sk')))"
  using assms
  by (simp add: tl_process_msg_def not_cancelled_def require_def andthen_def on_shared_def on_sk_def on_field_def read_def
      update_def ret_def example_timeline_def example_shared_def ss_mem_def)

lemma example_tl_created:
  "tl_run example_ctl_codec example_bindings F [] False
     (example_timeline example_start Lsn_INVALID \<lparr>tl_term = INVALID_TERM, tl_lsn = Lsn_INVALID\<rparr>)"
proof (rule tl_run.create)
  show "create_empty example_ctl_codec example_bindings example_conf 0 empty_fs empty_fs (replicate 16 1, replicate 16 2)
      \<lparr>si_pg_version = 150000, si_system_id = 0, si_wal_seg_size = 16777216\<rparr> 0 0 =
    Ok (example_timeline example_start Lsn_INVALID \<lparr>tl_term = INVALID_TERM, tl_lsn = Lsn_INVALID\<rparr>)"
    unfolding create_empty_def fst_conv snd_conv example_pstate_def [symmetric] example_create_new
    by (simp add: example_timeline_def example_conf_def)
qed (use example_file_inv in \<open>simp_all add: example_conf_def file_inv_def example_file_storage_def file_storage_create_new_def
       refs_def dir_versions_def empty_fs_def\<close>)

definition example_tl :: timeline where
  "example_tl = example_timeline example_after_vote 0 \<lparr>tl_term = 1, tl_lsn = 0\<rparr>"

lemma example_tl_run: "tl_run example_ctl_codec example_bindings F [1] False example_tl"
proof -
  let ?t = "example_timeline example_start Lsn_INVALID \<lparr>tl_term = INVALID_TERM, tl_lsn = Lsn_INVALID\<rparr>"
    and ?m = "VoteRequest \<lparr>vreq_term = 1\<rparr>"
  have "process_msg (file_ctrl example_ctl_codec) (phys_ops example_bindings) ?m example_start =
      (Ok (Some (AVoteResponse \<lparr>vr_term = 1, vr_vote_given = 1, vr_flush_lsn = 0, vr_truncate_lsn = 0,
        vr_term_history = [], vr_timeline_start_lsn = 0\<rparr>)), example_after_vote)"
    using example_vote by (simp add: handle_event_def)
  from example_tl_process [OF this]
  have "handle_call example_ctl_codec example_bindings F (CProcess ?m) ?t =
      (Ok (Some (AVoteResponse \<lparr>vr_term = 1, vr_vote_given = 1, vr_flush_lsn = 0, vr_truncate_lsn = 0,
        vr_term_history = [], vr_timeline_start_lsn = 0\<rparr>)), example_tl)"
    by (simp add: handle_call_def fill_feedback_def example_tl_def example_after_vote_simps term_flush_of_def flush_lsn_def
        example_phys_def example_persisted_def example_voted_def set_term_def example_pstate_def pstate_new_def)
  from tl_run.call [OF example_tl_created this] show ?thesis by (simp add: votes_of_def granted_def in_doubt_def)
qed

section \<open>Properties\<close>



text \<open>
  C12. What the commit watch channel tells the WAL senders is never beyond the commit position,
  and, while the run is not in doubt, never beyond the flushed WAL.
\<close>

theorem watch_never_ahead:
  assumes "ctl_format K" and "bindings_ok B" and "tl_run K B F vs doubt t"
  shows "commit_lsn_watch t \<le> m_commit_lsn (ss_mem (tl_shared t)) \<and>
    (\<not> doubt \<longrightarrow> commit_lsn_watch t \<le> flush_lsn (file_ctrl K) (phys_ops B) (tl_sk t))"
  by (rule sk_formats.run_watch [OF sk_formatsI [OF assms(1,2)] assms(3)])

theorem watch_never_ahead_witness: "commit_lsn_watch example_tl \<le> m_commit_lsn (ss_mem (tl_shared example_tl))"
  using watch_never_ahead [OF example_ctl.ctl_format_axioms example_bindings_ok example_tl_run] by blast





text \<open>A donor in term 2 whose history extends that of the example's election.\<close>

definition example_donor :: donor where
  "example_donor = \<lparr>dn_sk_id = 2, dn_term = 2, dn_flush_lsn = 128, dn_pg_connstr = [], dn_http_connstr = []\<rparr>"

definition example_donor_history :: term_history where
  "example_donor_history = [\<lparr>tl_term = 1, tl_lsn = 64\<rparr>, \<lparr>tl_term = 2, tl_lsn = 64\<rparr>]"

lemma example_tl_elected:
  "\<exists>w c tf. tl_run example_ctl_codec example_bindings F [1] False
     (example_timeline (example_after_vote\<lparr>epoch_start_lsn := 64, wal_store := w,
         sk_state := \<lparr>inmem = mem_of (ctl_state c), pers = c\<rparr>\<rparr>) 64 tf) \<and>
    phys_inv example_bindings w \<and> tidy (p_fs w) \<and> tidy (ctl_fs c) \<and> write_lsn w = 64 \<and>
    flush_record_lsn w = 64 \<and> write_record_lsn w = 64 \<and>
    ctl_state c = adopt_elected example_election example_voted"
proof -
  let ?K = example_ctl_codec and ?B = example_bindings
  obtain w c where e: "handle_elected (file_ctrl ?K) (phys_ops ?B) example_election example_after_vote =
      (Ok None, example_after_vote\<lparr>epoch_start_lsn := 64, wal_store := w,
         sk_state := \<lparr>inmem = mem_of (ctl_state c), pers = c\<rparr>\<rparr>)" (is "_ = (_, ?s)")
    and w: "phys_inv ?B w" "tidy (p_fs w)" "tidy (ctl_fs c)" "write_lsn w = 64" "flush_record_lsn w = 64"
      "write_record_lsn w = 64"
    and c: "ctl_state c = adopt_elected example_election (start_change (file_ctrl ?K) (sk_state example_after_vote))"
    using example_elected by blast
  have voted: "start_change (file_ctrl ?K) (sk_state example_after_vote) = example_voted"
    by (simp add: start_change_def example_after_vote_def timeline_state_new_def mem_of_def example_persisted_def file_ctrl_def)
  have "m_commit_lsn (sk_mem ?s) = 64"
    by (simp add: mem_of_def c voted adopt_elected_def example_voted_def set_term_def example_pstate_def pstate_new_def
        example_election_def)
  moreover from e have "process_msg (file_ctrl ?K) (phys_ops ?B) (Elected example_election) example_after_vote = (Ok None, ?s)"
    by (simp add: process_msg_def)
  ultimately have "handle_call ?K ?B F (CProcess (Elected example_election)) example_tl =
      (Ok None, example_timeline ?s 64 (term_flush_of ?K ?B (example_shared ?s)))"
    using example_tl_process [of ?K ?B "Elected example_election" example_after_vote None ?s 0 "\<lparr>tl_term = 1, tl_lsn = 0\<rparr>"]
    by (simp add: handle_call_def fill_feedback_def example_tl_def)
  from tl_run.call [OF example_tl_run this]
  have "tl_run ?K ?B F [1] False (example_timeline ?s 64 (term_flush_of ?K ?B (example_shared ?s)))"
    by (simp add: votes_of_def granted_def in_doubt_def)
  with w c voted show ?thesis by metis
qed

lemma example_recovery:
  "\<exists>t t'. tl_run example_ctl_codec example_bindings F [1] False t \<and>
     recover_start example_ctl_codec example_bindings example_donor 2 example_donor_history t = (Ok 64, t')"
proof -
  let ?K = example_ctl_codec and ?B = example_bindings
  let ?C = "file_ctrl ?K" and ?W = "phys_ops ?B"
  obtain w c tf where run: "tl_run ?K ?B F [1] False
     (example_timeline (example_after_vote\<lparr>epoch_start_lsn := 64, wal_store := w,
         sk_state := \<lparr>inmem = mem_of (ctl_state c), pers = c\<rparr>\<rparr>) 64 tf)"
    and w: "phys_inv ?B w" "tidy (p_fs w)" "tidy (ctl_fs c)" "write_lsn w = 64" "flush_record_lsn w = 64"
      "write_record_lsn w = 64"
    and c: "ctl_state c = adopt_elected example_election example_voted"
    using example_tl_elected by blast
  define s where "s = example_after_vote\<lparr>epoch_start_lsn := 64, wal_store := w,
         sk_state := \<lparr>inmem = mem_of (ctl_state c), pers = c\<rparr>\<rparr>"
  note st = c adopt_elected_def example_voted_def set_term_def example_pstate_def pstate_new_def example_election_def
  have rd: "ready ?B s" using w by (simp add: ready_def all_flushed_def s_def)
  have tm: "get_term ?C s = 1" by (simp add: get_term_def s_def st)
  have refusal: "vr_term_history (vote_refusal ?C ?W s) = [\<lparr>tl_term = 1, tl_lsn = 64\<rparr>]" "vr_flush_lsn (vote_refusal ?C ?W s) = 64"
    using w by (simp_all add: vote_refusal_def get_term_history_def flush_lsn_def s_def st)
  have pers: "start_change ?C (sk_state s) = ctl_state c" by (simp add: s_def start_change_def mem_of_def file_ctrl_def)
  obtain c1 where v: "handle_vote_request ?C ?W \<lparr>vreq_term = 2\<rparr> s =
      (Ok (Some (AVoteResponse ((vote_refusal ?C ?W s)\<lparr>vr_term := 2, vr_vote_given := 1\<rparr>))),
       s\<lparr>sk_state := \<lparr>inmem = mem_of (ctl_state c1), pers = c1\<rparr>\<rparr>)" (is "_ = (_, ?s1)")
    and c1: "tidy (ctl_fs c1)" "ctl_state c1 = set_term 2 (ctl_state c)"
    using vote_succeeds [OF rd, of ?K 2] tm pers by auto
  let ?m = "\<lparr>pe_term = 2, pe_start_streaming_at = 64, pe_term_history = example_donor_history, pe_timeline_start_lsn = Lsn_INVALID\<rparr>"
  have "ready ?B ?s1" using w c1 by (simp add: ready_def all_flushed_def s_def)
  moreover have "get_term ?C ?s1 = 2" "get_epoch ?C ?W ?s1 = 1" "m_commit_lsn (sk_mem ?s1) = 64" "write_lsn (wal_store ?s1) = 64"
    using w by (simp_all add: get_term_def get_epoch_def th_get_epoch_def flush_lsn_def s_def mem_of_def c1 st)
  ultimately obtain s2 where e: "handle_elected ?C ?W ?m ?s1 = (Ok None, s2)"
    using elected_succeeds [of ?B ?s1 ?K ?m] by (auto simp: example_donor_history_def)
  have "find_highest_common_point example_donor_history [\<lparr>tl_term = 1, tl_lsn = 64\<rparr>] 64 = (Ok (Some \<lparr>tl_term = 1, tl_lsn = 64\<rparr>) :: (sk_error, _) outcome)"
    by (simp add: find_highest_common_point_def example_donor_history_def Let_def)
  with example_tl_process [of ?K ?B "VoteRequest \<lparr>vreq_term = 2\<rparr>" s, unfolded process_msg_def, simplified, OF v]
    example_tl_process [of ?K ?B "Elected ?m" ?s1, unfolded process_msg_def, simplified, OF e]
  have "\<exists>t'. recover_start ?K ?B example_donor 2 example_donor_history (example_timeline s 64 tf) = (Ok 64, t')"
    by (simp add: recover_start_def andthen_def require_def ret_def fill_feedback_def example_donor_def refusal)
  with run show ?thesis unfolding s_def by blast
qed


end
