(* ===== verification/Key.thy ===== *)
theory Key
  imports Rust_Std "HOL-Library.Product_Lexorder" "HOL-Library.List_Lexorder"
begin

unbundle bit_operations_syntax

text \<open>
  \<open>libs/pageserver_api/src/key.rs\<close> and \<open>reltag.rs\<close>: the keys of the pageserver's key-value store, their
  order, arithmetic and encodings, and the layout of relations, SLRUs and other data in the
  key space. Plain arithmetic on integers wraps around, as in a release build.
\<close>

section \<open>Keys\<close>

datatype key = Key (field1: u8) (field2: u32) (field3: u32) (field4: u32) (field5: u8) (field6: u32)

text \<open>The derived order compares field by field.\<close>

instantiation key :: linorder
begin

definition less_eq_key :: "key \<Rightarrow> key \<Rightarrow> bool" where
  "less_eq_key a b \<longleftrightarrow> (field1 a, field2 a, field3 a, field4 a, field5 a, field6 a)
     \<le> (field1 b, field2 b, field3 b, field4 b, field5 b, field6 b)"

definition less_key :: "key \<Rightarrow> key \<Rightarrow> bool" where
  "less_key a b \<longleftrightarrow> (field1 a, field2 a, field3 a, field4 a, field5 a, field6 a)
     < (field1 b, field2 b, field3 b, field4 b, field5 b, field6 b)"

instance
  by intro_classes (auto simp: less_eq_key_def less_key_def key.expand)

end

definition KEY_SIZE :: nat where
  "KEY_SIZE = 18"

definition to_i128 :: "key \<Rightarrow> 128 word option" where
  "to_i128 k =
     (if field2 k < 0xFFFF \<or> field2 k = 0xFFFFFFFF \<or> field2 k = 0x22222222
      then Some (push_bit 120 (ucast (field1 k AND 0xf)) OR push_bit 104 (ucast (field2 k AND 0xFFFF)) OR
        push_bit 72 (ucast (field3 k)) OR push_bit 40 (ucast (field4 k)) OR push_bit 32 (ucast (field5 k)) OR
        ucast (field6 k))
      else None)"

definition from_i128 :: "128 word \<Rightarrow> key" where
  "from_i128 x = Key (ucast (drop_bit 120 x AND 0xf)) (ucast (drop_bit 104 x AND 0xFFFF)) (ucast (drop_bit 72 x))
     (ucast (drop_bit 40 x)) (ucast (drop_bit 32 x)) (ucast x)"

definition overflowing_add :: "'a::len word \<Rightarrow> 'a word \<Rightarrow> 'a word \<times> bool" where
  "overflowing_add a b = (a + b, \<not> unat a + unat b < 2 ^ LENGTH('a))"

text \<open>\<open>None\<close> is the failed assertion at the end of the key space.\<close>

definition key_add :: "key \<Rightarrow> u32 \<Rightarrow> key option" where
  "key_add k x =
     (case overflowing_add (field6 k) x of (f6, o6) \<Rightarrow>
      if \<not> o6 then Some (Key (field1 k) (field2 k) (field3 k) (field4 k) (field5 k) f6)
      else case overflowing_add (field5 k) 1 of (f5, o5) \<Rightarrow>
      if \<not> o5 then Some (Key (field1 k) (field2 k) (field3 k) (field4 k) f5 f6)
      else case overflowing_add (field4 k) 1 of (f4, o4) \<Rightarrow>
      if \<not> o4 then Some (Key (field1 k) (field2 k) (field3 k) f4 f5 f6)
      else case overflowing_add (field3 k) 1 of (f3, o3) \<Rightarrow>
      if \<not> o3 then Some (Key (field1 k) (field2 k) f3 f4 f5 f6)
      else case overflowing_add (field2 k) 1 of (f2, o2) \<Rightarrow>
      if \<not> o2 then Some (Key (field1 k) f2 f3 f4 f5 f6)
      else case overflowing_add (field1 k) 1 of (f1, o1) \<Rightarrow>
      if \<not> o1 then Some (Key f1 f2 f3 f4 f5 f6) else None)"

definition key_next :: "key \<Rightarrow> key option" where
  "key_next k = key_add k 1"

text \<open>Slices of a buffer that is too short panic.\<close>

definition from_slice :: "byte list \<Rightarrow> key option" where
  "from_slice b =
     (if length b < 18 then None
      else Some (Key (b ! 0) (from_be_bytes (take 4 (drop 1 b))) (from_be_bytes (take 4 (drop 5 b)))
        (from_be_bytes (take 4 (drop 9 b))) (b ! 13) (from_be_bytes (take 4 (drop 14 b)))))"

definition key_bytes :: "key \<Rightarrow> byte list" where
  "key_bytes k = field1 k # to_be_bytes (field2 k) @ to_be_bytes (field3 k) @ to_be_bytes (field4 k)
     @ field5 k # to_be_bytes (field6 k)"

definition write_to_byte_slice :: "key \<Rightarrow> byte list \<Rightarrow> byte list option" where
  "write_to_byte_slice k buf = (if length buf < 18 then None else Some (key_bytes k @ drop 18 buf))"

definition key_fmt :: "key \<Rightarrow> string" where
  "key_fmt k = fmt_hex True 2 (field1 k) @ fmt_hex True 8 (field2 k) @ fmt_hex True 8 (field3 k)
     @ fmt_hex True 8 (field4 k) @ fmt_hex True 2 (field5 k) @ fmt_hex True 8 (field6 k)"

definition KEY_MIN :: key where
  "KEY_MIN = Key 0 0 0 0 0 0"

definition KEY_MAX :: key where
  "KEY_MAX = Key 0xff 0xffffffff 0xffffffff 0xffffffff 0xff 0xffffffff"

text \<open>A string slice panics when it cuts a character, that is, at a continuation byte of UTF-8.\<close>

definition char_boundary :: "string \<Rightarrow> nat \<Rightarrow> bool" where
  "char_boundary s i = (i = length s \<or> (i < length s \<and> \<not> (0x80 \<le> (of_char (s ! i) :: nat) \<and> (of_char (s ! i) :: nat) < 0xC0)))"

datatype key_error = ParseError

definition key_from_hex :: "string \<Rightarrow> (key_error, key) outcome" where
  "key_from_hex s =
     (if length s \<noteq> 36 then Err ParseError
      else if \<not> list_all (char_boundary s) [2, 10, 18, 26, 28] then Panic
      else case (from_str_radix16 (take 2 s), from_str_radix16 (take 8 (drop 2 s)), from_str_radix16 (take 8 (drop 10 s)),
          from_str_radix16 (take 8 (drop 18 s)), from_str_radix16 (take 2 (drop 26 s)), from_str_radix16 (take 8 (drop 28 s))) of
        (Some f1, Some f2, Some f3, Some f4, Some f5, Some f6) \<Rightarrow> Ok (Key f1 f2 f3 f4 f5 f6)
      | _ \<Rightarrow> Err ParseError)"

section \<open>Relations and SLRUs\<close>

record reltag =
  forknum :: u8
  spcnode :: u32
  dbnode :: u32
  relnode :: u32

definition reltag_less :: "reltag \<Rightarrow> reltag \<Rightarrow> bool" where
  "reltag_less a b = ((spcnode a, dbnode a, relnode a, forknum a) < (spcnode b, dbnode b, relnode b, forknum b))"

definition with_forknum :: "reltag \<Rightarrow> u8 \<Rightarrow> reltag" where
  "with_forknum rel fork = \<lparr>forknum = fork, spcnode = spcnode rel, dbnode = dbnode rel, relnode = relnode rel\<rparr>"

datatype slru_kind = Clog | MultiXactMembers | MultiXactOffsets

definition slru_to_str :: "slru_kind \<Rightarrow> string" where
  "slru_to_str kind = (case kind of Clog \<Rightarrow> ''pg_xact'' | MultiXactMembers \<Rightarrow> ''pg_multixact/members''
     | MultiXactOffsets \<Rightarrow> ''pg_multixact/offsets'')"

definition MAIN_FORKNUM :: u8 where "MAIN_FORKNUM = 0"
definition FSM_FORKNUM :: u8 where "FSM_FORKNUM = 1"
definition VISIBILITYMAP_FORKNUM :: u8 where "VISIBILITYMAP_FORKNUM = 2"
definition INIT_FORKNUM :: u8 where "INIT_FORKNUM = 3"

definition forkname_to_number :: "string option \<Rightarrow> u8 option" where
  "forkname_to_number forkname = (case forkname of
       None \<Rightarrow> Some MAIN_FORKNUM
     | Some s \<Rightarrow> if s = ''fsm'' then Some FSM_FORKNUM else if s = ''vm'' then Some VISIBILITYMAP_FORKNUM
         else if s = ''init'' then Some INIT_FORKNUM else None)"

definition forknumber_to_name :: "u8 \<Rightarrow> string option" where
  "forknumber_to_name n =
     (if n = MAIN_FORKNUM then None else if n = FSM_FORKNUM then Some ''fsm''
      else if n = VISIBILITYMAP_FORKNUM then Some ''vm'' else if n = INIT_FORKNUM then Some ''init''
      else Some ''UNKNOWN FORKNUM'')"

section \<open>Layout of the key space\<close>

type_synonym key_range = "key \<times> key"

definition DBDIR_KEY :: key where
  "DBDIR_KEY = Key 0 0 0 0 0 0"

definition dbdir_key_range :: "u32 \<Rightarrow> u32 \<Rightarrow> key_range" where
  "dbdir_key_range spc db = (Key 0 spc db 0 0 0, Key 0 spc db 0xffffffff 0xff 0xffffffff)"

definition relmap_file_key :: "u32 \<Rightarrow> u32 \<Rightarrow> key" where
  "relmap_file_key spc db = Key 0 spc db 0 0 0"

definition rel_dir_to_key :: "u32 \<Rightarrow> u32 \<Rightarrow> key" where
  "rel_dir_to_key spc db = Key 0 spc db 0 0 1"

definition rel_block_to_key :: "reltag \<Rightarrow> u32 \<Rightarrow> key" where
  "rel_block_to_key rel blknum = Key 0 (spcnode rel) (dbnode rel) (relnode rel) (forknum rel) blknum"

definition rel_size_to_key :: "reltag \<Rightarrow> key" where
  "rel_size_to_key rel = Key 0 (spcnode rel) (dbnode rel) (relnode rel) (forknum rel) 0xffffffff"

definition rel_key_range :: "reltag \<Rightarrow> key_range" where
  "rel_key_range rel = (Key 0 (spcnode rel) (dbnode rel) (relnode rel) (forknum rel) 0,
     Key 0 (spcnode rel) (dbnode rel) (relnode rel) (forknum rel + 1) 0)"

definition slru_kind_code :: "slru_kind \<Rightarrow> u32" where
  "slru_kind_code kind = (case kind of Clog \<Rightarrow> 0 | MultiXactMembers \<Rightarrow> 1 | MultiXactOffsets \<Rightarrow> 2)"

definition slru_dir_to_key :: "slru_kind \<Rightarrow> key" where
  "slru_dir_to_key kind = Key 1 (slru_kind_code kind) 0 0 0 0"

definition slru_block_to_key :: "slru_kind \<Rightarrow> u32 \<Rightarrow> u32 \<Rightarrow> key" where
  "slru_block_to_key kind segno blknum = Key 1 (slru_kind_code kind) 1 segno 0 blknum"

definition slru_segment_size_to_key :: "slru_kind \<Rightarrow> u32 \<Rightarrow> key" where
  "slru_segment_size_to_key kind segno = Key 1 (slru_kind_code kind) 1 segno 0 0xffffffff"

definition slru_segment_key_range :: "slru_kind \<Rightarrow> u32 \<Rightarrow> key_range" where
  "slru_segment_key_range kind segno =
     (Key 1 (slru_kind_code kind) 1 segno 0 0, Key 1 (slru_kind_code kind) 1 segno 1 0)"

definition TWOPHASEDIR_KEY :: key where
  "TWOPHASEDIR_KEY = Key 2 0 0 0 0 0"

definition twophase_file_key :: "u32 \<Rightarrow> key" where
  "twophase_file_key xid = Key 2 0 0 0 0 xid"

definition twophase_key_range :: "u32 \<Rightarrow> key_range" where
  "twophase_key_range xid = (case overflowing_add xid 1 of (next_xid, overflowed) \<Rightarrow>
     (Key 2 0 0 0 0 xid, Key 2 0 0 0 (if overflowed then 1 else 0) next_xid))"

definition CONTROLFILE_KEY :: key where
  "CONTROLFILE_KEY = Key 3 0 0 0 0 0"

definition CHECKPOINT_KEY :: key where
  "CHECKPOINT_KEY = Key 3 0 0 0 0 1"

definition AUX_FILES_KEY :: key where
  "AUX_FILES_KEY = Key 3 0 0 0 0 2"

definition is_inherited_key :: "key \<Rightarrow> bool" where
  "is_inherited_key k = (k \<noteq> AUX_FILES_KEY)"

definition is_rel_fsm_block_key :: "key \<Rightarrow> bool" where
  "is_rel_fsm_block_key k = (field1 k = 0 \<and> field4 k \<noteq> 0 \<and> field5 k = FSM_FORKNUM \<and> field6 k \<noteq> 0xffffffff)"

definition is_rel_vm_block_key :: "key \<Rightarrow> bool" where
  "is_rel_vm_block_key k = (field1 k = 0 \<and> field4 k \<noteq> 0 \<and> field5 k = VISIBILITYMAP_FORKNUM \<and> field6 k \<noteq> 0xffffffff)"

datatype key_kind_error = UnrecognizedSlruKind | UnexpectedValueKind

definition key_to_slru_block :: "key \<Rightarrow> (key_kind_error, slru_kind \<times> u32 \<times> u32) outcome" where
  "key_to_slru_block k =
     (if field1 k \<noteq> 1 then Err UnexpectedValueKind
      else if field2 k = 0 then Ok (Clog, field4 k, field6 k)
      else if field2 k = 1 then Ok (MultiXactMembers, field4 k, field6 k)
      else if field2 k = 2 then Ok (MultiXactOffsets, field4 k, field6 k)
      else Err UnrecognizedSlruKind)"

definition is_slru_block_key :: "key \<Rightarrow> bool" where
  "is_slru_block_key k = (field1 k = 1 \<and> field3 k = 1 \<and> field6 k \<noteq> 0xffffffff)"

definition is_rel_block_key :: "key \<Rightarrow> bool" where
  "is_rel_block_key k = (field1 k = 0 \<and> field4 k \<noteq> 0 \<and> field6 k \<noteq> 0xffffffff)"

definition key_to_rel_block :: "key \<Rightarrow> (key_kind_error, reltag \<times> u32) outcome" where
  "key_to_rel_block k =
     (if field1 k = 0
      then Ok (\<lparr>forknum = field5 k, spcnode = field2 k, dbnode = field3 k, relnode = field4 k\<rparr>, field6 k)
      else Err UnexpectedValueKind)"

section \<open>Keys as numbers\<close>

text \<open>The position of a key in the key space.\<close>

definition key_num :: "key \<Rightarrow> nat" where
  "key_num k = ((((unat (field1 k) * 2 ^ 32 + unat (field2 k)) * 2 ^ 32 + unat (field3 k)) * 2 ^ 32
     + unat (field4 k)) * 2 ^ 8 + unat (field5 k)) * 2 ^ 32 + unat (field6 k)"

lemma lex_num: "x' < M \<Longrightarrow> y' < M \<Longrightarrow> (x * M + x' < y * M + y') \<longleftrightarrow> (x < y \<or> x = y \<and> x' < (y' :: nat))"
proof (cases x y rule: linorder_cases)
  case less
  assume "x' < M" "y' < M"
  from less have "(Suc x) * M \<le> y * M" by (intro mult_le_mono1) simp
  with \<open>x' < M\<close> less show ?thesis by simp
next
  case greater
  assume "x' < M" "y' < M"
  from greater have "(Suc y) * M \<le> x * M" by (intro mult_le_mono1) simp
  with \<open>y' < M\<close> greater show ?thesis by simp
qed simp

lemma unat_u32_less: "unat (x :: u32) < 2 ^ 32"
  using unsigned_less [of x] by simp

lemma unat_u8_less: "unat (x :: u8) < 2 ^ 8"
  using unsigned_less [of x] by simp

lemma lex_num_eq: "x' < M \<Longrightarrow> y' < M \<Longrightarrow> (x * M + x' = y * M + y') \<longleftrightarrow> (x = y \<and> x' = (y' :: nat))"
  using lex_num [of x' M y' x y] lex_num [of y' M x' y x] by (metis linorder_neqE_nat nat_neq_iff)

lemma key_num_less: "key_num a < key_num b \<longleftrightarrow> a < b"
  unfolding key_num_def less_key_def less_prod_simp lex_num [OF unat_u32_less unat_u32_less] lex_num [OF unat_u8_less unat_u8_less]
    lex_num_eq [OF unat_u32_less unat_u32_less] lex_num_eq [OF unat_u8_less unat_u8_less] word_less_nat_alt word_le_nat_alt
  by (simp only: le_less) blast

lemma key_num_eq [simp]: "key_num a = key_num b \<longleftrightarrow> a = b"
  using key_num_less [of a b] key_num_less [of b a] by (cases a b rule: linorder_cases) auto

lemma key_num_le: "key_num a \<le> key_num b \<longleftrightarrow> a \<le> b"
  using key_num_less [of b a] by (simp add: linorder_not_less [symmetric])

lemma overflowing_unat:
  "unat (a + b :: 'a::len word) + (if unat a + unat b < 2 ^ LENGTH('a) then 0 else 2 ^ LENGTH('a)) = unat a + unat b"
proof (cases "unat a + unat b < 2 ^ LENGTH('a)")
  case False
  moreover have "unat a + unat b - 2 ^ LENGTH('a) < 2 ^ LENGTH('a)"
    using unsigned_less [of a, where 'a = nat] unsigned_less [of b, where 'a = nat] by linarith
  ultimately have "(unat a + unat b) mod 2 ^ LENGTH('a) = unat a + unat b - 2 ^ LENGTH('a)"
    by (simp add: le_mod_geq mod_less)
  with False show ?thesis by (simp add: unat_word_ariths)
qed (simp add: unat_word_ariths)

lemma key_add_num:
  "(case key_add k x of Some k' \<Rightarrow> key_num k' = key_num k + unat x | None \<Rightarrow> 2 ^ 144 \<le> key_num k + unat x)"
  using overflowing_unat [of "field6 k" x] overflowing_unat [of "field5 k" 1] overflowing_unat [of "field4 k" 1]
    overflowing_unat [of "field3 k" 1] overflowing_unat [of "field2 k" 1] overflowing_unat [of "field1 k" 1]
  by (simp add: key_add_def overflowing_add_def key_num_def split: if_splits)

lemma key_num_bound: "key_num k < 2 ^ 144"
  using unat_u8_less [of "field1 k"] unat_u32_less [of "field2 k"] unat_u32_less [of "field3 k"] unat_u32_less [of "field4 k"]
    unat_u8_less [of "field5 k"] unat_u32_less [of "field6 k"]
  by (simp add: key_num_def)

section \<open>Keys as bytes\<close>

lemma le_to_nat_append: "le_to_nat (xs @ ys) = le_to_nat xs + 256 ^ length xs * le_to_nat ys"
  by (induction xs) (simp_all add: algebra_simps)

lemma le_to_nat_to_le_bytes:
  fixes x :: "'a::len word"
  assumes "8 dvd LENGTH('a)"
  shows "le_to_nat (to_le_bytes x) = unat x"
proof -
  have "(256 :: nat) ^ (LENGTH('a) div 8) = 2 ^ (8 * (LENGTH('a) div 8))" by (simp add: power_mult)
  also have "8 * (LENGTH('a) div 8) = LENGTH('a)" using assms by simp
  finally show ?thesis
    using unsigned_less [of x, where 'a = nat] by (simp add: to_le_bytes_def le_to_nat_of_nat_to_le)
qed

definition be_to_nat :: "byte list \<Rightarrow> nat" where
  "be_to_nat bs = le_to_nat (rev bs)"

lemma be_to_nat_simps [simp]:
  "be_to_nat [] = 0" "be_to_nat (b # bs) = unat b * 256 ^ length bs + be_to_nat bs"
  "be_to_nat (xs @ ys) = be_to_nat xs * 256 ^ length ys + be_to_nat ys"
  by (simp_all add: be_to_nat_def le_to_nat_append)

lemma be_to_nat_u32 [simp]: "be_to_nat (to_be_bytes (x :: u32)) = unat x"
  by (simp add: be_to_nat_def to_be_bytes_def le_to_nat_to_le_bytes)

lemma bytes_less_num: "length xs = length ys \<Longrightarrow> xs < ys \<longleftrightarrow> be_to_nat xs < be_to_nat ys"
proof (induction xs ys rule: list_induct2)
  case (Cons x xs y ys)
  have "be_to_nat zs < 256 ^ length zs" for zs
    using le_to_nat_bound [of "rev zs"] by (simp add: be_to_nat_def)
  from this [of xs] this [of ys] Cons show ?case
    by (auto simp: lex_num word_less_nat_alt word_unat_eq_iff)
qed simp

lemma key_bytes_length [simp]: "length (key_bytes k) = 18"
  by (simp add: key_bytes_def)

lemma key_bytes_num: "be_to_nat (key_bytes k) = key_num k"
  by (simp add: key_bytes_def key_num_def)

lemma from_slice_key_bytes: "from_slice (key_bytes k @ rest) = Some k"
  by (cases k) (simp add: from_slice_def key_bytes_def nth_append from_to_be_bytes)

section \<open>Keys as text\<close>

lemma fmt_hex_ascii: "i < length (fmt_hex up w x) \<Longrightarrow> of_char (fmt_hex up w x ! i) < (0x80 :: nat)"
  using fmt_hex_valid [OF nth_mem, of i up w x] by (auto simp: hex_val_def Let_def split: if_splits)

lemma key_from_hex_fmt: "key_from_hex (key_fmt k) = Ok k"
proof -
  have "\<forall>c \<in> set (key_fmt k). of_char c < (0x80 :: nat)"
    unfolding key_fmt_def by (auto simp: in_set_conv_nth fmt_hex_ascii simp del: fmt_hex_length_u8 fmt_hex_length_u32)
  moreover have "length (key_fmt k) = 36" by (simp add: key_fmt_def)
  ultimately have "char_boundary (key_fmt k) i" if "i \<le> 36" for i
    using that nth_mem [of i "key_fmt k"] by (fastforce simp: char_boundary_def)
  then show ?thesis by (cases k) (simp add: key_from_hex_def, simp add: key_fmt_def)
qed

section \<open>Layout\<close>

definition in_range :: "key \<Rightarrow> key_range \<Rightarrow> bool" where
  "in_range k r \<longleftrightarrow> fst r \<le> k \<and> k < snd r"

lemma in_one_fork:
  assumes "f \<noteq> 0xff"
  shows "in_range k (Key a b c d f 0, Key a b c d (f + 1) 0) \<longleftrightarrow> (\<exists>x. k = Key a b c d f x)"
proof -
  have f: "unat (f + 1) = unat f + 1"
    using assms overflowing_unat [of f 1] unat_u8_less [of f] by (auto simp: word_unat_eq_iff split: if_splits)
  show ?thesis
    by (cases k) (auto simp: in_range_def less_eq_key_def less_key_def word_le_nat_alt word_less_nat_alt f word_unat_eq_iff)
qed

lemma in_twophase_range: "in_range k (twophase_key_range xid) \<longleftrightarrow> k = twophase_file_key xid"
proof -
  have "key_num (snd (twophase_key_range xid)) = key_num (twophase_file_key xid) + 1"
    using overflowing_unat [of xid 1] by (simp add: twophase_key_range_def twophase_file_key_def overflowing_add_def key_num_def split: if_splits)
  moreover have "fst (twophase_key_range xid) = twophase_file_key xid"
    by (simp add: twophase_key_range_def twophase_file_key_def overflowing_add_def)
  ultimately show ?thesis
    by (simp add: in_range_def key_num_less [symmetric] key_num_le [symmetric] key_num_eq [symmetric] del: key_num_eq) linarith
qed

lemma slru_kind_code_inj [simp]: "slru_kind_code a = slru_kind_code b \<longleftrightarrow> a = b"
  by (cases a; cases b) (simp_all add: slru_kind_code_def)

section \<open>Properties\<close>

text \<open>
  C35. The encodings of a key are faithful. The 18 bytes that layer files store are read back, and
  comparing them as byte strings is comparing the keys; the text form is read back as well.
\<close>

theorem key_encoding_faithful:
  "from_slice (key_bytes a @ rest) = Some a \<and> (key_bytes a < key_bytes b) = (a < b) \<and> key_from_hex (key_fmt a) = Ok a"
  by (simp add: from_slice_key_bytes bytes_less_num key_bytes_num key_num_less key_from_hex_fmt)

text \<open>
  C36. Adding to a key moves it forward by that many positions in the key order: the carries
  through the fields are right, and the assertion fails exactly at the end of the key space.
\<close>

theorem key_add_advances:
  "(case key_add k x of Some k' \<Rightarrow> key_num k' = key_num k + unat x | None \<Rightarrow> 2 ^ 144 \<le> key_num k + unat x) \<and>
   (key_num a < key_num b) = (a < b)"
  by (simp add: key_add_num key_num_less)

text \<open>
  C34. The ranges that are dropped with a relation, an SLRU segment or a prepared transaction
  contain exactly its keys: the blocks and the size of the relation fork, the blocks and the
  size of the segment, the state file of the transaction. Blocks are mapped back from their
  keys.
\<close>

theorem key_ranges_exact:
  assumes "forknum rel \<noteq> 0xff"
  shows "in_range k (rel_key_range rel) = (k \<in> range (rel_block_to_key rel)) \<and>
    in_range k (slru_segment_key_range kind segno) = (k \<in> range (slru_block_to_key kind segno)) \<and>
    in_range k (twophase_key_range xid) = (k = twophase_file_key xid) \<and>
    rel_size_to_key rel \<in> range (rel_block_to_key rel) \<and>
    slru_segment_size_to_key kind segno \<in> range (slru_block_to_key kind segno) \<and>
    key_to_rel_block (rel_block_to_key rel blknum) = Ok (rel, blknum) \<and>
    key_to_slru_block (slru_block_to_key kind segno blknum) = Ok (kind, segno, blknum)"
proof (intro conjI)
  show "in_range k (rel_key_range rel) = (k \<in> range (rel_block_to_key rel))"
    using in_one_fork [OF assms] by (auto simp: rel_key_range_def rel_block_to_key_def)
  show "in_range k (slru_segment_key_range kind segno) = (k \<in> range (slru_block_to_key kind segno))"
    using in_one_fork [of 0 k 1 "slru_kind_code kind" 1 segno]
    by (auto simp: slru_segment_key_range_def slru_block_to_key_def)
  show "key_to_slru_block (slru_block_to_key kind segno blknum) = Ok (kind, segno, blknum)"
    by (cases kind) (simp_all add: key_to_slru_block_def slru_block_to_key_def slru_kind_code_def)
qed (auto simp: in_twophase_range rel_size_to_key_def rel_block_to_key_def slru_segment_size_to_key_def
    slru_block_to_key_def key_to_rel_block_def)

theorem key_ranges_exact_witness:
  "in_range (Key 0 1663 5 16384 0 7) (rel_key_range \<lparr>forknum = 0, spcnode = 1663, dbnode = 5, relnode = 16384\<rparr>)"
  using key_ranges_exact [of "\<lparr>forknum = 0, spcnode = 1663, dbnode = 5, relnode = 16384\<rparr>" "Key 0 1663 5 16384 0 7"]
  by (auto simp: rel_block_to_key_def)

end
