(* ===== verification/Rust_Collections.thy ===== *)
theory Rust_Collections
  imports Neon_Prelude
begin

text \<open>
  The ordered collections of Rust's standard library that the modelled code uses: the bounds of
  a range of keys, \<open>BTreeMap\<close> as the list of its entries in key order, and binary search in a
  sorted slice.
\<close>

section \<open>Bounds\<close>

datatype 'k bound = Unbounded | Included 'k | Excluded 'k

definition within :: "'k::linorder bound \<times> 'k bound \<Rightarrow> 'k \<Rightarrow> bool" where
  "within b k =
     ((case fst b of Unbounded \<Rightarrow> True | Included a \<Rightarrow> a \<le> k | Excluded a \<Rightarrow> a < k) \<and>
      (case snd b of Unbounded \<Rightarrow> True | Included a \<Rightarrow> k \<le> a | Excluded a \<Rightarrow> k < a))"

section \<open>Ordered maps\<close>

type_synonym ('k, 'v) btree_map = "('k \<times> 'v) list"

fun bt_insert :: "'k::linorder \<Rightarrow> 'v \<Rightarrow> ('k, 'v) btree_map \<Rightarrow> ('k, 'v) btree_map" where
  "bt_insert k v [] = [(k, v)]"
| "bt_insert k v (e # m) =
     (if k < fst e then (k, v) # e # m else if k = fst e then (k, v) # m else e # bt_insert k v m)"

definition bt_remove :: "'k \<Rightarrow> ('k, 'v) btree_map \<Rightarrow> ('k, 'v) btree_map" where
  "bt_remove k m = filter (\<lambda>e. fst e \<noteq> k) m"

definition bt_range :: "'k::linorder bound \<times> 'k bound \<Rightarrow> ('k, 'v) btree_map \<Rightarrow> ('k, 'v) btree_map" where
  "bt_range b m = filter (\<lambda>e. within b (fst e)) m"

text \<open>What stays in the map at \<open>split_off\<close>.\<close>

definition bt_before :: "'k::linorder \<Rightarrow> ('k, 'v) btree_map \<Rightarrow> ('k, 'v) btree_map" where
  "bt_before k m = filter (\<lambda>e. fst e < k) m"

definition next_back :: "'a list \<Rightarrow> 'a option" where
  "next_back xs = (if xs = [] then None else Some (last xs))"

definition ordered :: "('k::linorder, 'v) btree_map \<Rightarrow> bool" where
  "ordered m \<longleftrightarrow> sorted_wrt (\<lambda>a b. fst a < fst b) m"

section \<open>Binary search\<close>

text \<open>\<open>slice::binary_search_by_key\<close>: \<open>Inl\<close> of a match, or \<open>Inr\<close> of the insertion point.\<close>

function search_between :: "('a \<Rightarrow> 'k::linorder) \<Rightarrow> 'k \<Rightarrow> 'a list \<Rightarrow> nat \<Rightarrow> nat \<Rightarrow> nat + nat" where
  "search_between f k xs left right =
     (if left < right then
        (let mid = left + (right - left) div 2 in
         if f (xs ! mid) = k then Inl mid
         else if f (xs ! mid) < k then search_between f k xs (mid + 1) right
         else search_between f k xs left mid)
      else Inr left)"
  by auto
termination
  by (relation "measure (\<lambda>(f, k, xs, left, right). right - left)") auto

declare search_between.simps [simp del]

definition binary_search_by_key :: "'k::linorder \<Rightarrow> ('a \<Rightarrow> 'k) \<Rightarrow> 'a list \<Rightarrow> nat + nat" where
  "binary_search_by_key k f xs = search_between f k xs 0 (length xs)"

section \<open>Lemmas on ordered maps\<close>

lemma next_back_simps [simp]: "next_back [] = None" "next_back (xs @ [x]) = Some x"
  by (simp_all add: next_back_def)

lemma ordered_simps [simp]: "ordered []" "ordered (e # m) \<longleftrightarrow> (\<forall>x \<in> set m. fst e < fst x) \<and> ordered m"
  by (auto simp: ordered_def)

lemma ordered_append: "ordered (xs @ ys) \<longleftrightarrow> ordered xs \<and> ordered ys \<and> (\<forall>x \<in> set xs. \<forall>y \<in> set ys. fst x < fst y)"
  by (auto simp: ordered_def sorted_wrt_append)

lemma ordered_filter [simp]: "ordered m \<Longrightarrow> ordered (filter P m)"
  by (simp add: ordered_def sorted_wrt_filter)

lemma ordered_remove [simp]: "ordered m \<Longrightarrow> ordered (bt_remove k m)"
  by (simp add: bt_remove_def)

lemma set_bt_insert: "ordered m \<Longrightarrow> set (bt_insert k v m) = insert (k, v) {e \<in> set m. fst e \<noteq> k}"
  by (induction m) (auto dest: less_imp_neq)

lemma ordered_insert [simp]: "ordered m \<Longrightarrow> ordered (bt_insert k v m)"
  by (induction m) (auto simp: set_bt_insert)

lemma ordered_inj: "ordered m \<Longrightarrow> (k, v) \<in> set m \<Longrightarrow> (k, v') \<in> set m \<Longrightarrow> v = v'"
  by (induction m) auto

text \<open>An ordered map is determined by the set of its entries.\<close>

lemma ordered_unique: "ordered xs \<Longrightarrow> ordered ys \<Longrightarrow> set xs = set ys \<Longrightarrow> xs = ys"
proof (induction xs arbitrary: ys)
  case (Cons x xs)
  then obtain y ys' where ys: "ys = y # ys'" by (cases ys) auto
  have "x = y"
  proof (rule ccontr)
    assume ne: "x \<noteq> y"
    have "x \<in> set (y # ys')" "y \<in> set (x # xs)" using Cons.prems(3) ys by auto
    with ne Cons.prems(1,2) ys show False by (auto dest: less_asym)
  qed
  moreover have "set xs = set ys'"
    using Cons.prems ys \<open>x = y\<close> by (auto simp: set_eq_iff) (metis less_irrefl)+
  ultimately show ?case using Cons ys by simp
qed simp

lemma bt_insert_append:
  "ordered (xs @ ys) \<Longrightarrow> (\<And>x. x \<in> set xs \<Longrightarrow> fst x < k) \<Longrightarrow> bt_insert k v (xs @ ys) = xs @ bt_insert k v ys"
  by (induction xs) (auto dest: less_asym)

lemma bt_insert_end: "(\<And>x. x \<in> set xs \<Longrightarrow> fst x < k) \<Longrightarrow> bt_insert k v xs = xs @ [(k, v)]"
  by (induction xs) (auto dest: less_asym)

section \<open>Lemmas on binary search\<close>

lemma search_between_index:
  assumes "sorted_wrt (\<lambda>a b. f a < f b) xs" and "left \<le> right" and "right \<le> length xs"
    and "\<forall>j < left. f (xs ! j) < k" and "\<forall>j. right \<le> j \<and> j < length xs \<longrightarrow> k \<le> f (xs ! j)"
  shows "\<exists>i \<le> length xs. (search_between f k xs left right = Inl i \<or> search_between f k xs left right = Inr i) \<and>
    (\<forall>j < i. f (xs ! j) < k) \<and> (\<forall>j. i \<le> j \<and> j < length xs \<longrightarrow> k \<le> f (xs ! j))"
  using assms(2-)
proof (induction "right - left" arbitrary: left right rule: less_induct)
  case less
  define mid where "mid = left + (right - left) div 2"
  have lt: "f (xs ! a) < f (xs ! b)" if "a < b" "b < length xs" for a b
    using assms(1) that by (simp add: sorted_wrt_iff_nth_less)
  show ?case
  proof (cases "left < right")
    case True
    then have mid: "left \<le> mid" "mid < right" by (auto simp: mid_def)
    consider "f (xs ! mid) = k" | "f (xs ! mid) < k" | "k < f (xs ! mid)" by (meson linorder_cases)
    then show ?thesis
    proof cases
      case 1
      then have "search_between f k xs left right = Inl mid"
        using True by (subst search_between.simps) (simp add: mid_def [symmetric] Let_def)
      moreover have "\<forall>j < mid. f (xs ! j) < k" "\<forall>j. mid \<le> j \<and> j < length xs \<longrightarrow> k \<le> f (xs ! j)"
        using 1 lt mid less.prems(2) by (auto simp: le_less)
      ultimately show ?thesis using mid less.prems(2) by (intro exI [of _ mid]) auto
    next
      case 2
      then have "search_between f k xs left right = search_between f k xs (mid + 1) right"
        using True by (subst search_between.simps) (auto simp: mid_def [symmetric] Let_def)
      moreover have "\<forall>j < mid + 1. f (xs ! j) < k"
        using 2 lt [of _ mid] mid less.prems(2) by (auto simp: less_Suc_eq intro: less_trans)
      ultimately show ?thesis using less.hyps [of right "mid + 1"] mid less.prems by simp
    next
      case 3
      then have "search_between f k xs left right = search_between f k xs left mid"
        using True by (subst search_between.simps) (auto simp: mid_def [symmetric] Let_def)
      moreover have "\<forall>j. mid \<le> j \<and> j < length xs \<longrightarrow> k \<le> f (xs ! j)"
        using 3 lt [of mid] by (auto simp: le_less intro: less_trans)
      ultimately show ?thesis using less.hyps [of mid left] mid less.prems by simp
    qed
  next
    case False
    then have "search_between f k xs left right = Inr left" by (subst search_between.simps) simp
    with False less.prems show ?thesis by (intro exI [of _ left]) auto
  qed
qed

lemma binary_search_index:
  assumes "sorted_wrt (\<lambda>a b. f a < f b) xs"
  shows "\<exists>i \<le> length xs. (binary_search_by_key k f xs = Inl i \<or> binary_search_by_key k f xs = Inr i) \<and>
    (\<forall>j < i. f (xs ! j) < k) \<and> (\<forall>j. i \<le> j \<and> j < length xs \<longrightarrow> k \<le> f (xs ! j))"
  unfolding binary_search_by_key_def by (rule search_between_index [OF assms]) auto

end
