(* ===== verification/Keyspace.thy ===== *)
theory Keyspace
  imports Key Rust_Collections
begin

unbundle bit_operations_syntax

text \<open>
  \<open>libs/pageserver_api/src/keyspace.rs\<close>: sets of keys as sorted lists of ranges, with the
  accumulators that build them, their partitioning, and their union and difference. Arithmetic
  on sizes wraps around, as in a release build. A loop that may not end is a partial function:
  the result \<open>None\<close> is a loop that does not return.
\<close>

section \<open>Sizes\<close>

definition key_low :: "key \<Rightarrow> u64" where
  "key_low k = push_bit 32 (ucast (field5 k)) OR ucast (field6 k)"

definition key_range_size :: "key_range \<Rightarrow> u32" where
  "key_range_size r =
     (if field1 (snd r) \<noteq> field1 (fst r) \<or> field2 (snd r) \<noteq> field2 (fst r) \<or> field3 (snd r) \<noteq> field3 (fst r)
         \<or> field4 (snd r) \<noteq> field4 (fst r) then 0xffffffff
      else let diff = key_low (snd r) - key_low (fst r) in if diff > 0xffffffff then 0xffffffff else ucast diff)"

definition singleton_range :: "key \<Rightarrow> key_range option" where
  "singleton_range k = map_option (Pair k) (key_next k)"

section \<open>Key spaces\<close>

record key_space =
  ks_ranges :: "key_range list"

definition ks_start :: "key_space \<Rightarrow> key option" where
  "ks_start ks = (case ks_ranges ks of [] \<Rightarrow> None | r # _ \<Rightarrow> Some (fst r))"

definition ks_end :: "key_space \<Rightarrow> key option" where
  "ks_end ks = (if ks_ranges ks = [] then None else Some (snd (last (ks_ranges ks))))"

definition total_size :: "key_space \<Rightarrow> usize" where
  "total_size ks = sum_list (map (\<lambda>r. ucast (key_range_size r)) (ks_ranges ks))"

definition overlaps_at :: "key_range list \<Rightarrow> key_range \<Rightarrow> nat option" where
  "overlaps_at ranges rng = (case binary_search_by_key (snd rng) fst ranges of
       Inl index \<Rightarrow> if index \<noteq> 0 \<and> snd (ranges ! (index - 1)) > fst rng then Some (index - 1) else None
     | Inr index \<Rightarrow> if index \<noteq> 0 \<and> snd (ranges ! (index - 1)) > fst rng then Some (index - 1) else None)"

definition overlaps :: "key_space \<Rightarrow> key_range \<Rightarrow> bool" where
  "overlaps ks rng = (overlaps_at (ks_ranges ks) rng \<noteq> None)"

section \<open>Removing ranges\<close>

text \<open>One round of the loop: the range at \<open>i\<close> is cut down, cut in two, or removed.\<close>

definition cut_at :: "key_range \<Rightarrow> nat \<Rightarrow> key_range list \<Rightarrow> key_range list" where
  "cut_at rng i rs0 =
     (let overlapped = rs0 ! i;
          rs1 = (if fst overlapped < fst rng \<and> snd overlapped \<le> snd rng
            then rs0[i := (fst (rs0 ! i), fst rng)] else rs0);
          rs2 = (if fst overlapped \<ge> fst rng \<and> snd overlapped > snd rng
            then rs1[i := (snd rng, snd (rs1 ! i))] else rs1);
          rs3 = (if fst overlapped < fst rng \<and> snd overlapped > snd rng
            then (let rs = rs2[i := (fst (rs2 ! i), fst rng)]
                  in take (i + 1) rs @ (snd rng, snd overlapped) # drop (i + 1) rs) else rs2)
      in if fst overlapped \<ge> fst rng \<and> snd overlapped \<le> snd rng
         then take i rs3 @ drop (i + 1) rs3 else rs3)"

partial_function (option) remove_range :: "key_range \<Rightarrow> key_range list \<Rightarrow> key_range list option" where
  "remove_range rng ranges = (case overlaps_at ranges rng of
       None \<Rightarrow> Some ranges
     | Some overlap_at \<Rightarrow> remove_range rng (cut_at rng overlap_at ranges))"

fun remove_ranges :: "key_range list \<Rightarrow> key_range list \<Rightarrow> key_range list option" where
  "remove_ranges [] ranges = Some ranges"
| "remove_ranges (r # rs) ranges = (case remove_range r ranges of
       None \<Rightarrow> None | Some ranges' \<Rightarrow> remove_ranges rs ranges')"

definition remove_overlapping_with :: "key_space \<Rightarrow> key_space \<Rightarrow> key_space option" where
  "remove_overlapping_with self other = (case (ks_start self, ks_end self) of
       (Some self_start, Some self_end) \<Rightarrow>
         map_option (\<lambda>rs. self\<lparr>ks_ranges := rs\<rparr>)
           (remove_ranges (takeWhile (\<lambda>r. self_end > fst r) (dropWhile (\<lambda>r. self_start \<ge> snd r) (ks_ranges other)))
              (ks_ranges self))
     | _ \<Rightarrow> Some self)"

section \<open>Partitioning\<close>

partial_function (option) split_range ::
    "u64 \<Rightarrow> u64 \<Rightarrow> key \<Rightarrow> key_space list \<Rightarrow> (unit, key_space list \<times> key \<times> u64) outcome option" where
  "split_range target_nblocks remain_size start parts =
     (if remain_size > target_nblocks then
        (case key_add start (ucast target_nblocks) of
           None \<Rightarrow> Some Panic
         | Some nxt \<Rightarrow> split_range target_nblocks (remain_size - target_nblocks) nxt
             (parts @ [\<lparr>ks_ranges = [(start, nxt)]\<rparr>]))
      else Some (Ok (parts, start, remain_size)))"

fun partition_ranges ::
    "u64 \<Rightarrow> key_range list \<Rightarrow> key_space list \<Rightarrow> key_range list \<Rightarrow> u64 \<Rightarrow>
      (unit, key_space list \<times> key_range list) outcome option" where
  "partition_ranges target_nblocks [] parts current_part current_part_size = Some (Ok (parts, current_part))"
| "partition_ranges target_nblocks (rng # ranges) parts current_part current_part_size =
     (let this_size = ucast (key_range_size rng);
          full = (current_part_size + this_size > target_nblocks \<and> current_part \<noteq> []);
          parts' = (if full then parts @ [\<lparr>ks_ranges = current_part\<rparr>] else parts);
          current_part' = (if full then [] else current_part);
          current_part_size' = (if full then 0 else current_part_size)
      in case split_range target_nblocks this_size (fst rng) parts' of
           None \<Rightarrow> None
         | Some Panic \<Rightarrow> Some Panic
         | Some (Err e) \<Rightarrow> Some (Err e)
         | Some (Ok (parts'', start, remain_size)) \<Rightarrow>
             partition_ranges target_nblocks ranges parts'' (current_part' @ [(start, snd rng)])
               (current_part_size' + remain_size))"

definition ks_partition :: "key_space \<Rightarrow> u64 \<Rightarrow> (unit, key_space list) outcome option" where
  "ks_partition ks target_bytes = (case partition_ranges (target_bytes div 8192) (ks_ranges ks) [] [] 0 of
       None \<Rightarrow> None
     | Some Panic \<Rightarrow> Some Panic
     | Some (Err e) \<Rightarrow> Some (Err e)
     | Some (Ok (parts, current_part)) \<Rightarrow>
         Some (Ok (if current_part \<noteq> [] then parts @ [\<lparr>ks_ranges = current_part\<rparr>] else parts)))"

section \<open>Accumulators\<close>

record key_space_accum =
  ka_accum :: "key_range option"
  ka_ranges :: "key_range list"
  ka_size :: u64

definition accum_new :: key_space_accum where
  "accum_new = \<lparr>ka_accum = None, ka_ranges = [], ka_size = 0\<rparr>"

definition accum_add_range :: "key_range \<Rightarrow> (key_space_accum, unit, unit) rust" where
  "accum_add_range rng =
     andthen (update (\<lambda>s. s\<lparr>ka_size := ka_size s + ucast (key_range_size rng)\<rparr>)) (\<lambda>_.
     andthen (read ka_accum) (\<lambda>a. case a of
         Some accum \<Rightarrow>
           if fst rng = snd accum then update (\<lambda>s. s\<lparr>ka_accum := Some (fst accum, snd rng)\<rparr>)
           else andthen (assert_that (\<lambda>_. fst rng > snd accum)) (\<lambda>_.
             update (\<lambda>s. s\<lparr>ka_ranges := ka_ranges s @ [accum], ka_accum := Some rng\<rparr>))
       | None \<Rightarrow> update (\<lambda>s. s\<lparr>ka_accum := Some rng\<rparr>)))"

definition accum_add_key :: "key \<Rightarrow> (key_space_accum, unit, unit) rust" where
  "accum_add_key k = andthen (unwrap (\<lambda>_. singleton_range k)) accum_add_range"

definition accum_to_keyspace :: "key_space_accum \<Rightarrow> key_space" where
  "accum_to_keyspace s = \<lparr>ks_ranges = ka_ranges s @ (case ka_accum s of Some a \<Rightarrow> [a] | None \<Rightarrow> [])\<rparr>"

definition accum_consume_keyspace :: "(key_space_accum, unit, key_space) rust" where
  "accum_consume_keyspace = andthen (read accum_to_keyspace) (\<lambda>ks. andthen (update (\<lambda>_. accum_new)) (\<lambda>_. ret ks))"

text \<open>\<open>KeySpaceRandomAccum\<close>: its state is the list of ranges; \<open>sort_by_key\<close> is a stable sort.\<close>

definition random_new :: "key_range list" where
  "random_new = []"

definition random_add_range :: "key_range \<Rightarrow> key_range list \<Rightarrow> key_range list" where
  "random_add_range rng ranges = ranges @ [rng]"

definition random_add_key :: "key \<Rightarrow> key_range list \<Rightarrow> key_range list option" where
  "random_add_key k ranges = map_option (\<lambda>r. random_add_range r ranges) (singleton_range k)"

fun random_merge :: "key_range list \<Rightarrow> key_range list \<Rightarrow> key \<Rightarrow> key \<Rightarrow> (unit, key_range list) outcome" where
  "random_merge [] ranges start stop = Ok (ranges @ [(start, stop)])"
| "random_merge (r # rs) ranges start stop =
     (if \<not> fst r \<ge> start then Panic
      else if fst r > stop then random_merge rs (ranges @ [(start, stop)]) (fst r) (snd r)
      else if snd r > stop then random_merge rs ranges start (snd r)
      else random_merge rs ranges start stop)"

definition random_to_keyspace :: "key_range list \<Rightarrow> (unit, key_space) outcome" where
  "random_to_keyspace ranges =
     (case sort_key fst ranges of
        [] \<Rightarrow> Ok \<lparr>ks_ranges = []\<rparr>
      | r # rs \<Rightarrow> (case random_merge (r # rs) [] (fst r) (snd r) of
            Ok out \<Rightarrow> Ok \<lparr>ks_ranges = out\<rparr> | Err e \<Rightarrow> Err e | Panic \<Rightarrow> Panic))"

definition random_consume_keyspace :: "(key_range list, unit, key_space) rust" where
  "random_consume_keyspace = andthen (read (\<lambda>ranges. ranges)) (\<lambda>prev_accum.
     andthen (update (\<lambda>_. random_new)) (\<lambda>_ s. (random_to_keyspace prev_accum, s)))"

section \<open>Merging\<close>

text \<open>\<open>merge_by\<close> of the \<open>itertools\<close> crate is an argument.\<close>

type_synonym merger = "(key_range \<Rightarrow> key_range \<Rightarrow> bool) \<Rightarrow> key_range list \<Rightarrow> key_range list \<Rightarrow> key_range list"

fun merge_ranges :: "key_range list \<Rightarrow> key_range option \<Rightarrow> (key_space_accum, unit, unit) rust" where
  "merge_ranges [] prev = ret ()"
| "merge_ranges (rng # ranges) prev =
     andthen (case prev of
         Some p \<Rightarrow> assert_that (\<lambda>_. \<not> max (fst rng) (fst p) < min (snd rng) (snd p))
       | None \<Rightarrow> ret ()) (\<lambda>_.
     andthen (accum_add_range rng) (\<lambda>_.
     merge_ranges ranges (Some rng)))"

definition ks_merge :: "merger \<Rightarrow> key_space \<Rightarrow> key_space \<Rightarrow> (unit, key_space) outcome" where
  "ks_merge merge_by self other =
     (case merge_ranges (merge_by (\<lambda>lhs rhs. fst lhs < fst rhs) (ks_ranges self) (ks_ranges other)) None accum_new of
        (Ok _, accum) \<Rightarrow> Ok (accum_to_keyspace accum)
      | (Err e, _) \<Rightarrow> Err e
      | (Panic, _) \<Rightarrow> Panic)"

section \<open>Vocabulary of the properties\<close>

definition keys_of :: "key_range list \<Rightarrow> key set" where
  "keys_of rs = {k. \<exists>r \<in> set rs. in_range k r}"

text \<open>In key order, not empty, and with no overlap.\<close>

definition wf_ranges :: "key_range list \<Rightarrow> bool" where
  "wf_ranges rs \<longleftrightarrow> (\<forall>r \<in> set rs. fst r < snd r) \<and> sorted_wrt (\<lambda>a b. snd a \<le> fst b) rs"

lemma keys_of_simps [simp]:
  "keys_of [] = {}" "keys_of (r # rs) = {k. in_range k r} \<union> keys_of rs" "keys_of (xs @ ys) = keys_of xs \<union> keys_of ys"
  by (auto simp: keys_of_def)

lemma wf_ranges_append:
  "wf_ranges (xs @ ys) \<longleftrightarrow> wf_ranges xs \<and> wf_ranges ys \<and> (\<forall>x \<in> set xs. \<forall>y \<in> set ys. snd x \<le> fst y)"
  by (auto simp: wf_ranges_def sorted_wrt_append)

lemma wf_ranges_simps [simp]:
  "wf_ranges []" "wf_ranges (r # rs) \<longleftrightarrow> fst r < snd r \<and> (\<forall>x \<in> set rs. snd r \<le> fst x) \<and> wf_ranges rs"
  by (auto simp: wf_ranges_def)

lemma wf_ranges_starts: "wf_ranges rs \<Longrightarrow> sorted_wrt (\<lambda>a b. fst a < fst b) rs"
  by (induction rs) (fastforce intro: less_le_trans)+

lemma wf_ranges_last: "wf_ranges rs \<Longrightarrow> x \<in> set rs \<Longrightarrow> snd x \<le> snd (last rs)"
proof (induction rs)
  case (Cons r rs)
  show ?case
  proof (cases "x = r \<and> rs \<noteq> []")
    case True
    then have "last rs \<in> set rs" by simp
    with True Cons.prems(1) have "snd r \<le> fst (last rs)" "fst (last rs) < snd (last rs)" by (auto simp: wf_ranges_def)
    with True show ?thesis by simp
  next
    case False
    with Cons show ?thesis by (cases rs) auto
  qed
qed simp

section \<open>Overlaps\<close>

lemma overlaps_at_cases:
  assumes "wf_ranges rs"
  shows "case overlaps_at rs r of
      Some i \<Rightarrow> i < length rs \<and> fst (rs ! i) < snd r \<and> fst r < snd (rs ! i)
    | None \<Rightarrow> (\<forall>x \<in> set rs. snd x \<le> fst r \<or> snd r \<le> fst x)"
proof -
  obtain i where i: "i \<le> length rs" "binary_search_by_key (snd r) fst rs = Inl i \<or> binary_search_by_key (snd r) fst rs = Inr i"
      "\<forall>j < i. fst (rs ! j) < snd r" "\<forall>j. i \<le> j \<and> j < length rs \<longrightarrow> snd r \<le> fst (rs ! j)"
    using binary_search_index [OF wf_ranges_starts [OF assms]] by blast
  have at: "overlaps_at rs r = (if i \<noteq> 0 \<and> snd (rs ! (i - 1)) > fst r then Some (i - 1) else None)"
    using i(2) by (auto simp: overlaps_at_def)
  show ?thesis
  proof (cases "i \<noteq> 0 \<and> snd (rs ! (i - 1)) > fst r")
    case True
    with i(1) i(3) [rule_format, of "i - 1"] show ?thesis by (auto simp: at)
  next
    case False
    have "snd x \<le> fst r \<or> snd r \<le> fst x" if x: "x \<in> set rs" for x
    proof -
      obtain j where j: "j < length rs" "x = rs ! j" using x by (auto simp: in_set_conv_nth)
      show ?thesis
      proof (cases "i \<le> j")
        case True
        with i(4) j show ?thesis by auto
      next
        case no: False
        then have "snd (rs ! j) \<le> snd (rs ! (i - 1))"
        proof (cases "j = i - 1")
          case False
          then have "j < i - 1" using no by simp
          then have "snd (rs ! j) \<le> fst (rs ! (i - 1))" "fst (rs ! (i - 1)) < snd (rs ! (i - 1))"
            using assms i(1) by (auto simp: wf_ranges_def sorted_wrt_iff_nth_less)
          then show ?thesis by simp
        qed simp
        with False no j show ?thesis by auto
      qed
    qed
    with False show ?thesis by (auto simp: at)
  qed
qed

section \<open>Removal\<close>

text \<open>What is left of a range.\<close>

definition range_minus :: "key_range \<Rightarrow> key_range \<Rightarrow> key_range list" where
  "range_minus x r = (if fst x < fst r then [(fst x, fst r)] else []) @ (if snd r < snd x then [(snd r, snd x)] else [])"

lemma cut_at_split: "cut_at r (length pre) (pre @ x # post) = pre @ range_minus x r @ post"
  by (auto simp: cut_at_def range_minus_def Let_def nth_append list_update_append)

lemma wf_range_minus:
  assumes "fst r < snd r" "fst x < snd x" "fst x < snd r" "fst r < snd x"
  shows "wf_ranges (range_minus x r)"
    and "p \<in> set (range_minus x r) \<Longrightarrow> fst x \<le> fst p \<and> snd p \<le> snd x \<and> (snd p \<le> fst r \<or> snd r \<le> fst p)"
  using assms by (cases x; cases r; auto simp: range_minus_def split: if_splits)+

lemma keys_range_minus:
  assumes "fst x < snd r" "fst r < snd x"
  shows "keys_of (range_minus x r) = {k. in_range k x} - {k. in_range k r}"
  using assms by (cases x; cases r) (auto simp: range_minus_def in_range_def)

definition overlapping :: "key_range \<Rightarrow> key_range \<Rightarrow> bool" where
  "overlapping r x \<longleftrightarrow> fst x < snd r \<and> fst r < snd x"

lemma remove_range_total:
  assumes "fst r < snd r"
  shows "wf_ranges rs \<Longrightarrow> \<exists>rs'. remove_range r rs = Some rs' \<and> wf_ranges rs' \<and> keys_of rs' = keys_of rs - {k. in_range k r}"
proof (induction "length (filter (overlapping r) rs)" arbitrary: rs rule: less_induct)
  case less
  show ?case
  proof (cases "overlaps_at rs r")
    case None
    with overlaps_at_cases [OF less.prems, of r] have "\<forall>x \<in> set rs. snd x \<le> fst r \<or> snd r \<le> fst x" by simp
    then have "keys_of rs \<inter> {k. in_range k r} = {}" by (fastforce simp: keys_of_def in_range_def)
    with None less.prems show ?thesis by (auto simp: remove_range.simps)
  next
    case (Some i)
    with overlaps_at_cases [OF less.prems, of r] have i: "i < length rs" "fst (rs ! i) < snd r" "fst r < snd (rs ! i)" by auto
    define pre post x where "pre = take i rs" and "post = drop (Suc i) rs" and "x = rs ! i"
    have rs: "rs = pre @ x # post" "length pre = i" using i(1) by (simp_all add: pre_def post_def x_def id_take_nth_drop)
    have x: "fst x < snd r" "fst r < snd x" "fst x < snd x" using i less.prems by (auto simp: x_def wf_ranges_def)
    let ?rs = "pre @ range_minus x r @ post"
    have step: "remove_range r rs = remove_range r ?rs"
      using Some cut_at_split [of r pre x post] rs by (subst remove_range.simps) simp
    have "wf_ranges ?rs"
      using less.prems wf_range_minus [OF assms x(3) x(1,2)] unfolding rs(1) by (auto simp: wf_ranges_append intro: order_trans)
    moreover have "keys_of ?rs = keys_of pre \<union> ({k. in_range k x} - {k. in_range k r}) \<union> keys_of post"
      using keys_range_minus [OF x(1,2)] by auto
    moreover have "length (filter (overlapping r) ?rs) < length (filter (overlapping r) rs)"
    proof -
      have "filter (overlapping r) (range_minus x r) = []"
        using wf_range_minus(2) [OF assms x(3) x(1,2)] unfolding filter_empty_conv overlapping_def by (meson leD)
      moreover have "overlapping r x" using x by (simp add: overlapping_def)
      ultimately show ?thesis by (simp add: rs(1))
    qed
    ultimately obtain rs' where "remove_range r ?rs = Some rs'" "wf_ranges rs'" "keys_of rs' = keys_of ?rs - {k. in_range k r}"
      using less.hyps by blast
    moreover have "keys_of ?rs - {k. in_range k r} = keys_of rs - {k. in_range k r}"
      using keys_range_minus [OF x(1,2)] by (auto simp: rs(1))
    ultimately show ?thesis using step by auto
  qed
qed

lemma remove_ranges_total:
  "wf_ranges rs \<Longrightarrow> \<forall>r \<in> set os. fst r < snd r \<Longrightarrow>
     \<exists>rs'. remove_ranges os rs = Some rs' \<and> wf_ranges rs' \<and> keys_of rs' = keys_of rs - keys_of os"
proof (induction os arbitrary: rs)
  case (Cons r os)
  then obtain rs1 where "remove_range r rs = Some rs1" "wf_ranges rs1" "keys_of rs1 = keys_of rs - {k. in_range k r}"
    using remove_range_total [of r rs] by auto
  with Cons.IH [of rs1] Cons.prems(2) show ?case by auto
qed simp

text \<open>The ranges that are skipped do not meet the key space.\<close>

lemma skipped_ranges:
  assumes "wf_ranges os" and "\<And>k. k \<in> K \<Longrightarrow> lo \<le> k \<and> k < hi"
  shows "K - keys_of (takeWhile (\<lambda>r. hi > fst r) (dropWhile (\<lambda>r. lo \<ge> snd r) os)) = K - keys_of os"
proof -
  have sub: "r \<in> set (takeWhile (\<lambda>r. hi > fst r) (dropWhile (\<lambda>r. lo \<ge> snd r) os))"
    if k: "lo \<le> k" "k < hi" and r: "r \<in> set os" "in_range k r" for k r
    using assms(1) r
  proof (induction os)
    case (Cons a os)
    show ?case
    proof (cases "snd a \<le> lo")
      case True
      then have "r \<noteq> a" using k Cons.prems(3) by (auto simp: in_range_def)
      with True Cons show ?thesis by auto
    next
      case no: False
      have "r \<in> set (takeWhile (\<lambda>r. hi > fst r) (a # os))"
        using Cons.prems
      proof (induction "a # os" arbitrary: a os)
        case (Cons b bs)
        then have "fst b \<le> fst r" by (auto intro: order_trans [OF less_imp_le])
        then have "fst b < hi" using k Cons.prems(3) by (auto simp: in_range_def)
        with Cons show ?case by (cases bs) auto
      qed
      with no show ?thesis by simp
    qed
  qed simp
  have "set (takeWhile (\<lambda>r. hi > fst r) (dropWhile (\<lambda>r. lo \<ge> snd r) os)) \<subseteq> set os"
    using set_takeWhileD set_dropWhileD by fast
  then show ?thesis using sub assms(2) unfolding keys_of_def by blast
qed

lemma remove_overlapping_total:
  assumes "wf_ranges (ks_ranges self)" and "wf_ranges (ks_ranges other)"
  shows "\<exists>ks. remove_overlapping_with self other = Some ks \<and> wf_ranges (ks_ranges ks) \<and>
    keys_of (ks_ranges ks) = keys_of (ks_ranges self) - keys_of (ks_ranges other)"
proof (cases "ks_ranges self")
  case Nil
  then show ?thesis by (simp add: remove_overlapping_with_def ks_start_def)
next
  case (Cons r rs)
  let ?lo = "fst r" and ?hi = "snd (last (r # rs))"
  let ?os = "takeWhile (\<lambda>r. ?hi > fst r) (dropWhile (\<lambda>r. ?lo \<ge> snd r) (ks_ranges other))"
  have lo: "?lo \<le> k \<and> k < ?hi" if k: "k \<in> keys_of (r # rs)" for k
  proof -
    obtain x where x: "x \<in> set (r # rs)" "fst x \<le> k" "k < snd x" using k unfolding keys_of_def in_range_def mem_Collect_eq by blast
    have "fst r \<le> fst x" using assms(1) x(1) Cons by (auto intro: order_trans [OF less_imp_le])
    moreover have "snd x \<le> ?hi" using wf_ranges_last [OF _ x(1)] assms(1) Cons by simp
    ultimately show ?thesis using x by (auto intro: order_trans less_le_trans)
  qed
  have "\<forall>r \<in> set ?os. fst r < snd r"
    using assms(2) by (auto simp: wf_ranges_def dest!: set_takeWhileD set_dropWhileD)
  with remove_ranges_total [OF assms(1), of ?os] obtain rs' where "remove_ranges ?os (ks_ranges self) = Some rs'" "wf_ranges rs'"
      "keys_of rs' = keys_of (ks_ranges self) - keys_of ?os" by blast
  moreover have "keys_of (ks_ranges self) - keys_of ?os = keys_of (ks_ranges self) - keys_of (ks_ranges other)"
    using skipped_ranges [OF assms(2) lo] by (simp only: Cons)
  ultimately show ?thesis
    using Cons by (simp add: remove_overlapping_with_def ks_start_def ks_end_def)
qed

section \<open>Building a key space\<close>

lemma random_merge_result:
  assumes "sorted (map fst rs)" and "\<forall>r \<in> set rs. start \<le> fst r"
    and "sorted_wrt (\<lambda>a b. snd a < fst b) out" and "\<forall>a \<in> set out. snd a < start"
  shows "\<exists>out'. random_merge rs out start stop = Ok out' \<and> sorted_wrt (\<lambda>a b. snd a < fst b) out' \<and>
    keys_of out' = keys_of out \<union> {k. in_range k (start, stop)} \<union> keys_of rs"
  using assms
proof (induction rs arbitrary: out start stop)
  case Nil
  then show ?case by (auto simp: sorted_wrt_append)
next
  case (Cons r rs)
  then have r: "start \<le> fst r" "\<forall>x \<in> set rs. fst r \<le> fst x" "sorted (map fst rs)" "\<forall>x \<in> set rs. start \<le> fst x" by auto
  show ?case
  proof (cases "stop < fst r")
    case True
    have "sorted_wrt (\<lambda>a b. snd a < fst b) (out @ [(start, stop)])" "\<forall>a \<in> set (out @ [(start, stop)]). snd a < fst r"
      using Cons.prems(3,4) r(1) True by (auto simp: sorted_wrt_append intro: less_le_trans)
    from Cons.IH [OF r(3,2) this, of "snd r"] True r(1) show ?thesis by auto
  next
    case False
    show ?thesis
    proof (cases "stop < snd r")
      case True
      then have "{k. in_range k (start, stop)} \<union> {k. in_range k r} = {k. in_range k (start, snd r)}"
        using r(1) False by (auto simp: in_range_def)
      with Cons.IH [OF r(3,4) Cons.prems(3,4), of "snd r"] True False r(1) show ?thesis by auto
    next
      case no: False
      then have "{k. in_range k r} \<subseteq> {k. in_range k (start, stop)}"
        using r(1) by (auto simp: in_range_def intro: order_trans less_le_trans)
      with Cons.IH [OF r(3,4) Cons.prems(3,4), of stop] no False r(1) show ?thesis by auto
    qed
  qed
qed

lemma keys_of_cong: "set xs = set ys \<Longrightarrow> keys_of xs = keys_of ys"
  by (simp add: keys_of_def)

lemma random_keyspace_result:
  "\<exists>ks. random_to_keyspace ranges = Ok ks \<and> sorted_wrt (\<lambda>a b. snd a < fst b) (ks_ranges ks) \<and>
     keys_of (ks_ranges ks) = keys_of ranges"
proof (cases "sort_key fst ranges")
  case Nil
  then have "ranges = []" by (metis length_0_conv length_sort)
  then show ?thesis by (simp add: random_to_keyspace_def)
next
  case (Cons r rs)
  have sorted: "sorted (map fst (r # rs))" using sorted_sort_key [of fst ranges] Cons by simp
  then obtain out where "random_merge (r # rs) [] (fst r) (snd r) = Ok out" "sorted_wrt (\<lambda>a b. snd a < fst b) out"
      "keys_of out = {k. in_range k (fst r, snd r)} \<union> keys_of (r # rs)"
    using random_merge_result [of "r # rs" "fst r" "[]" "snd r"] by auto
  moreover have "keys_of (r # rs) = keys_of ranges"
    by (rule keys_of_cong) (metis Cons set_sort)
  ultimately show ?thesis using Cons by (auto simp: random_to_keyspace_def)
qed

section \<open>Merging\<close>

text \<open>What the \<open>itertools\<close> crate documents of \<open>merge_by\<close>.\<close>

definition merge_by_ok :: "merger \<Rightarrow> bool" where
  "merge_by_ok merge_by \<longleftrightarrow>
     (\<forall>is_first ys. merge_by is_first [] ys = ys) \<and> (\<forall>is_first xs. merge_by is_first xs [] = xs) \<and>
     (\<forall>is_first x xs y ys. merge_by is_first (x # xs) (y # ys) =
        (if is_first x y then x # merge_by is_first xs (y # ys) else y # merge_by is_first (x # xs) ys))"

fun merge_with :: "merger" where
  "merge_with is_first [] ys = ys"
| "merge_with is_first xs [] = xs"
| "merge_with is_first (x # xs) (y # ys) =
     (if is_first x y then x # merge_with is_first xs (y # ys) else y # merge_with is_first (x # xs) ys)"

lemma merge_with_Nil [simp]: "merge_with is_first xs [] = xs"
  by (cases xs) simp_all

lemma merge_with_ok: "merge_by_ok merge_with"
  by (simp add: merge_by_ok_def)

lemma merge_by_unique: "merge_by_ok merge_by \<Longrightarrow> merge_by is_first xs ys = merge_with is_first xs ys"
proof (induction is_first xs ys rule: merge_with.induct)
  case (3 is_first x xs y ys)
  then have "merge_by is_first (x # xs) (y # ys) =
      (if is_first x y then x # merge_by is_first xs (y # ys) else y # merge_by is_first (x # xs) ys)"
    unfolding merge_by_ok_def by blast
  with 3 show ?case by simp
qed (simp_all add: merge_by_ok_def)

lemma set_merge_with [simp]: "set (merge_with is_first xs ys) = set xs \<union> set ys"
  by (induction is_first xs ys rule: merge_with.induct) auto

definition apart :: "key_range list \<Rightarrow> key_range list \<Rightarrow> bool" where
  "apart xs ys \<longleftrightarrow> (\<forall>x \<in> set xs. \<forall>y \<in> set ys. snd x \<le> fst y \<or> snd y \<le> fst x)"

lemma apart_disjoint:
  assumes "wf_ranges xs" and "wf_ranges ys"
  shows "apart xs ys \<longleftrightarrow> keys_of xs \<inter> keys_of ys = {}"
proof
  assume "apart xs ys"
  then show "keys_of xs \<inter> keys_of ys = {}" by (fastforce simp: apart_def keys_of_def in_range_def)
next
  assume disj: "keys_of xs \<inter> keys_of ys = {}"
  show "apart xs ys"
    unfolding apart_def
  proof (intro ballI, rule ccontr)
    fix x y
    assume x: "x \<in> set xs" and y: "y \<in> set ys" and n: "\<not> (snd x \<le> fst y \<or> snd y \<le> fst x)"
    have "fst x < snd x" "fst y < snd y" using x y assms by (auto simp: wf_ranges_def)
    with n have "in_range (max (fst x) (fst y)) x" "in_range (max (fst x) (fst y)) y" by (auto simp: in_range_def max_def)
    with x y disj show False by (auto simp: keys_of_def)
  qed
qed

abbreviation by_start :: "key_range \<Rightarrow> key_range \<Rightarrow> bool" where
  "by_start lhs rhs \<equiv> fst lhs < fst rhs"

lemma wf_ranges_hd: "wf_ranges (y # ys) \<Longrightarrow> z \<in> set (y # ys) \<Longrightarrow> fst y \<le> fst z"
  by (auto intro: order_trans [OF less_imp_le])

lemma wf_ranges_nonempty: "wf_ranges ys \<Longrightarrow> z \<in> set ys \<Longrightarrow> fst z < snd z"
  by (simp add: wf_ranges_def)

lemma wf_ranges_after:
  assumes "wf_ranges (y # ys)" and "z \<in> set (y # ys)" and "k \<le> fst y"
  shows "\<not> snd z \<le> k" and "k \<le> fst z"
proof -
  show "k \<le> fst z" using wf_ranges_hd [OF assms(1,2)] assms(3) by order
  with wf_ranges_nonempty [OF assms(1,2)] show "\<not> snd z \<le> k" by order
qed

lemma wf_merge_with:
  "wf_ranges xs \<Longrightarrow> wf_ranges ys \<Longrightarrow> wf_ranges (merge_with by_start xs ys) \<longleftrightarrow> apart xs ys"
proof (induction by_start xs ys rule: merge_with.induct)
  case (3 x xs y ys)
  show ?case
  proof (cases "fst x < fst y")
    case True
    then have "(\<forall>z \<in> set (y # ys). snd x \<le> fst z) \<longleftrightarrow> (\<forall>z \<in> set (y # ys). snd x \<le> fst z \<or> snd z \<le> fst x)"
      using wf_ranges_after(1) [OF "3.prems"(2) _ less_imp_le] by blast
    with True 3 show ?thesis by (auto simp: apart_def)
  next
    case False
    then have "fst y \<le> fst x" by simp
    then have "(\<forall>z \<in> set (x # xs). snd y \<le> fst z) \<longleftrightarrow> (\<forall>z \<in> set (x # xs). snd z \<le> fst y \<or> snd y \<le> fst z)"
      using wf_ranges_after(1) [OF "3.prems"(1)] by blast
    with False 3 show ?thesis by (auto simp: apart_def)
  qed
qed (auto simp: apart_def)

lemma sorted_merge_with:
  "wf_ranges xs \<Longrightarrow> wf_ranges ys \<Longrightarrow> sorted_wrt (\<lambda>a b. fst a \<le> fst b) (merge_with by_start xs ys)"
proof (induction by_start xs ys rule: merge_with.induct)
  case (3 x xs y ys)
  show ?case
  proof (cases "fst x < fst y")
    case True
    then have "\<forall>z \<in> set (y # ys). fst x \<le> fst z" "\<forall>z \<in> set xs. fst x \<le> fst z"
      using wf_ranges_after(2) [OF "3.prems"(2) _ less_imp_le] wf_ranges_hd [OF "3.prems"(1)] by auto
    with True 3 show ?thesis by auto
  next
    case False
    then have "fst y \<le> fst x" by simp
    then have "\<forall>z \<in> set (x # xs). fst y \<le> fst z" "\<forall>z \<in> set ys. fst y \<le> fst z"
      using wf_ranges_after(2) [OF "3.prems"(1)] wf_ranges_hd [OF "3.prems"(2)] by auto
    with False 3 show ?thesis by auto
  qed
qed (auto dest: wf_ranges_starts intro: sorted_wrt_mono_rel [rotated] less_imp_le)

text \<open>The accumulator, once it has a range, on a list of ranges that follow each other.\<close>

lemma add_range_step:
  assumes acc: "ka_accum s = Some (a, e)" and wf: "wf_ranges (ka_ranges s @ [(a, e)])" and r: "e \<le> fst r" "fst r < snd r"
  shows "\<exists>s' a'. accum_add_range r s = (Ok (), s') \<and> ka_accum s' = Some (a', snd r) \<and> wf_ranges (ka_ranges s' @ [(a', snd r)]) \<and>
    keys_of (ks_ranges (accum_to_keyspace s')) = keys_of (ks_ranges (accum_to_keyspace s)) \<union> {k. in_range k r}"
proof (cases "fst r = e")
  case True
  have "{k. in_range k (a, e)} \<union> {k. in_range k r} = {k. in_range k (a, snd r)}"
    using wf r True by (auto simp: in_range_def wf_ranges_append)
  with True acc wf r show ?thesis
    by (auto simp: accum_add_range_def andthen_def update_def read_def accum_to_keyspace_def wf_ranges_append)
next
  case False
  with r(1) have "e < fst r" by simp
  with acc wf r show ?thesis
    by (cases r) (auto simp: accum_add_range_def andthen_def update_def read_def assert_that_def accum_to_keyspace_def wf_ranges_append
        intro: order_trans)
qed

lemma merge_ranges_result:
  assumes "sorted_wrt (\<lambda>a b. fst a \<le> fst b) (p # rs)" and "\<forall>r \<in> set (p # rs). fst r < snd r"
    and "ka_accum s = Some (a, snd p)" and "wf_ranges (ka_ranges s @ [(a, snd p)])"
  shows "if wf_ranges (p # rs)
    then \<exists>s'. merge_ranges rs (Some p) s = (Ok (), s') \<and> wf_ranges (ks_ranges (accum_to_keyspace s')) \<and>
      keys_of (ks_ranges (accum_to_keyspace s')) = keys_of (ks_ranges (accum_to_keyspace s)) \<union> keys_of rs
    else fst (merge_ranges rs (Some p) s) = Panic"
  using assms
proof (induction rs arbitrary: p s a)
  case Nil
  then show ?case by (simp add: accum_to_keyspace_def ret_def)
next
  case (Cons r rs)
  have r: "fst p \<le> fst r" "fst r < snd r" "fst p < snd p" using Cons.prems(1,2) by auto
  show ?case
  proof (cases "snd p \<le> fst r")
    case True
    then have guard: "\<not> max (fst r) (fst p) < min (snd r) (snd p)" using r by (auto simp: max_def min_def)
    obtain s' a' where s': "accum_add_range r s = (Ok (), s')" "ka_accum s' = Some (a', snd r)" "wf_ranges (ka_ranges s' @ [(a', snd r)])"
        "keys_of (ks_ranges (accum_to_keyspace s')) = keys_of (ks_ranges (accum_to_keyspace s)) \<union> {k. in_range k r}"
      using add_range_step [OF Cons.prems(3,4) True r(2)] by blast
    have step: "merge_ranges (r # rs) (Some p) s = merge_ranges rs (Some r) s'"
      using guard s'(1) by (simp add: andthen_def assert_that_def)
    have iff: "wf_ranges (p # r # rs) \<longleftrightarrow> wf_ranges (r # rs)"
      using True r by (auto intro: order_trans less_imp_le)
    have keys: "keys_of (ks_ranges (accum_to_keyspace s)) \<union> keys_of (r # rs) =
        keys_of (ks_ranges (accum_to_keyspace s')) \<union> keys_of rs"
      using s'(4) by auto
    from Cons.prems(1,2) show ?thesis
      unfolding step iff keys by (intro Cons.IH [OF _ _ s'(2,3)]) auto
  next
    case False
    then have "max (fst r) (fst p) < min (snd r) (snd p)" using r by (auto simp: max_def min_def)
    then have "fst (merge_ranges (r # rs) (Some p) s) = Panic" by (simp add: andthen_def assert_that_def)
    moreover have "\<not> wf_ranges (p # r # rs)" using False by simp
    ultimately show ?thesis by (simp only: if_False)
  qed
qed

lemma ks_merge_result:
  assumes m: "merge_by_ok merge_by" and wf: "wf_ranges (ks_ranges self)" "wf_ranges (ks_ranges other)"
  shows "if keys_of (ks_ranges self) \<inter> keys_of (ks_ranges other) = {}
    then \<exists>ks. ks_merge merge_by self other = Ok ks \<and> wf_ranges (ks_ranges ks) \<and>
      keys_of (ks_ranges ks) = keys_of (ks_ranges self) \<union> keys_of (ks_ranges other)
    else ks_merge merge_by self other = Panic"
proof -
  let ?all = "merge_with by_start (ks_ranges self) (ks_ranges other)"
  have all: "merge_by by_start (ks_ranges self) (ks_ranges other) = ?all" by (rule merge_by_unique [OF m])
  have keys: "keys_of ?all = keys_of (ks_ranges self) \<union> keys_of (ks_ranges other)" by (auto simp: keys_of_def)
  have iff: "wf_ranges ?all \<longleftrightarrow> keys_of (ks_ranges self) \<inter> keys_of (ks_ranges other) = {}"
    using wf_merge_with [OF wf] apart_disjoint [OF wf] by simp
  show ?thesis
  proof (cases ?all)
    case Nil
    then have "ks_ranges self = []" "ks_ranges other = []" by (metis Un_empty set_empty set_merge_with)+
    moreover have "ks_merge merge_by self other = Ok \<lparr>ks_ranges = []\<rparr>"
      unfolding ks_merge_def all Nil by (simp add: ret_def accum_to_keyspace_def accum_new_def)
    ultimately show ?thesis by simp
  next
    case (Cons r rs)
    let ?s = "accum_new\<lparr>ka_size := ka_size accum_new + ucast (key_range_size r), ka_accum := Some r\<rparr>"
    have step: "merge_ranges ?all None accum_new = merge_ranges rs (Some r) ?s"
      by (simp add: Cons andthen_def ret_def accum_add_range_def update_def read_def accum_new_def)
    have "sorted_wrt (\<lambda>a b. fst a \<le> fst b) (r # rs)" using sorted_merge_with [OF wf] Cons by simp
    moreover have "\<forall>x \<in> set (r # rs). fst x < snd x"
      using wf set_merge_with [of by_start "ks_ranges self" "ks_ranges other"] unfolding Cons wf_ranges_def by blast
    moreover have "ka_accum ?s = Some (fst r, snd r)" "wf_ranges (ka_ranges ?s @ [(fst r, snd r)])"
      using calculation(2) by (simp_all add: accum_new_def)
    ultimately have *: "if wf_ranges (r # rs)
      then \<exists>s'. merge_ranges rs (Some r) ?s = (Ok (), s') \<and> wf_ranges (ks_ranges (accum_to_keyspace s')) \<and>
        keys_of (ks_ranges (accum_to_keyspace s')) = keys_of (ks_ranges (accum_to_keyspace ?s)) \<union> keys_of rs
      else fst (merge_ranges rs (Some r) ?s) = Panic" by (rule merge_ranges_result)
    show ?thesis
    proof (cases "wf_ranges ?all")
      case True
      with * Cons obtain s' where s': "merge_ranges rs (Some r) ?s = (Ok (), s')" "wf_ranges (ks_ranges (accum_to_keyspace s'))"
          "keys_of (ks_ranges (accum_to_keyspace s')) = keys_of (ks_ranges (accum_to_keyspace ?s)) \<union> keys_of rs" by auto
      have "keys_of (ks_ranges (accum_to_keyspace ?s)) \<union> keys_of rs = keys_of ?all"
        by (simp add: Cons accum_to_keyspace_def accum_new_def)
      with s' True iff keys show ?thesis by (simp add: ks_merge_def all step)
    next
      case False
      with * Cons have "fst (merge_ranges rs (Some r) ?s) = Panic" by auto
      with False iff show ?thesis by (cases "merge_ranges rs (Some r) ?s") (simp add: ks_merge_def all step)
    qed
  qed
qed

section \<open>Partitioning\<close>

definition span :: "key_range \<Rightarrow> nat" where
  "span r = key_num (snd r) - key_num (fst r)"

lemma unat_cast: "unat (ucast (x :: 'a::len word) :: 'b::len word) = unat x mod 2 ^ LENGTH('b)"
  by (simp add: unsigned_ucast_eq unsigned_take_bit_eq take_bit_eq_mod)

lemma unat_key_low: "unat (key_low k) = unat (field5 k) * 2 ^ 32 + unat (field6 k)"
proof -
  have low: "unat (ucast (field6 k) :: u64) = unat (field6 k)" "unat (ucast (field5 k) :: u64) = unat (field5 k)"
    using unat_u32_less [of "field6 k"] unat_u8_less [of "field5 k"] by (simp_all add: unat_cast)
  have "push_bit 32 (ucast (field5 k) :: u64) AND ucast (field6 k) = 0"
    by (rule bit_word_eqI) (auto simp: bit_simps dest: bit_imp_le_length)
  then have "key_low k = push_bit 32 (ucast (field5 k)) + ucast (field6 k)"
    unfolding key_low_def by (rule disjunctive_add_eq_or [symmetric])
  also have "push_bit 32 (ucast (field5 k) :: u64) = ucast (field5 k) * 2 ^ 32" by (simp add: push_bit_eq_mult)
  finally show ?thesis
    using low unat_u32_less [of "field6 k"] unat_u8_less [of "field5 k"] by (simp add: unat_word_ariths)
qed

lemma key_range_size_exact:
  assumes "fst r < snd r" and "key_range_size r \<noteq> 0xffffffff"
  shows "key_num (snd r) = key_num (fst r) + unat (key_range_size r)" and "span r = unat (key_range_size r)"
proof -
  let ?d = "key_low (snd r) - key_low (fst r)"
  have same: "field1 (snd r) = field1 (fst r)" "field2 (snd r) = field2 (fst r)" "field3 (snd r) = field3 (fst r)"
      "field4 (snd r) = field4 (fst r)"
    and size: "\<not> ?d > 0xffffffff" "key_range_size r = ucast ?d"
    using assms(2) by (auto simp: key_range_size_def Let_def split: if_splits)
  have lt: "key_num (fst r) < key_num (snd r)" using assms(1) by (simp add: key_num_less)
  then have "unat (key_low (fst r)) < unat (key_low (snd r))" by (simp add: key_num_def same unat_key_low)
  then have "unat ?d = unat (key_low (snd r)) - unat (key_low (fst r))" by (simp add: unat_sub_if')
  moreover have "unat (key_range_size r) = unat ?d"
    using size by (simp add: unat_cast word_less_nat_alt)
  ultimately show "key_num (snd r) = key_num (fst r) + unat (key_range_size r)"
    using lt by (simp add: key_num_def same unat_key_low)
  then show "span r = unat (key_range_size r)" by (simp add: span_def)
qed

lemma wf_ranges_replace:
  assumes "wf_ranges (xs @ r # ys)" and "wf_ranges zs" and "\<forall>z \<in> set zs. fst r \<le> fst z \<and> snd z \<le> snd r"
  shows "wf_ranges (xs @ zs @ ys)"
  using assms by (auto simp: wf_ranges_append intro: order_trans)

text \<open>The chunks that are split off a range are as long as the target; together with the rest they are the range.\<close>

abbreviation part_ranges :: "key_space list \<Rightarrow> key_range list" where
  "part_ranges parts \<equiv> concat (map ks_ranges parts)"

definition part_ok :: "nat \<Rightarrow> key_space \<Rightarrow> bool" where
  "part_ok n p \<longleftrightarrow> ks_ranges p \<noteq> [] \<and> sum_list (map span (ks_ranges p)) \<le> n"

lemma split_range_result:
  assumes "0 < t" and "0 < remain" and "unat remain < 2 ^ 32" and "key_num stop = key_num start + unat remain"
  shows "\<exists>chunks start' remain'. split_range t remain start parts = Some (Ok (parts @ chunks, start', remain')) \<and>
    0 < remain' \<and> remain' \<le> t \<and> key_num stop = key_num start' + unat remain' \<and>
    (if remain \<le> t then chunks = [] \<and> start' = start \<and> remain' = remain else chunks \<noteq> []) \<and>
    wf_ranges (part_ranges chunks @ [(start', stop)]) \<and>
    (\<forall>z \<in> set (part_ranges chunks @ [(start', stop)]). start \<le> fst z \<and> snd z \<le> stop) \<and>
    keys_of (part_ranges chunks @ [(start', stop)]) = {k. in_range k (start, stop)} \<and> (\<forall>c \<in> set chunks. part_ok (unat t) c)"
  using assms(2-)
proof (induction "unat remain" arbitrary: remain start parts rule: less_induct)
  case less
  show ?case
  proof (cases "remain \<le> t")
    case True
    have "0 < unat remain" using less.prems(1) by (simp add: word_less_nat_alt)
    then have "start < stop" using less.prems(3) by (simp add: key_num_less [symmetric])
    with True less.prems show ?thesis by (subst split_range.simps) auto
  next
    case False
    then have "t < remain" by simp
    then have tr: "t < remain" "unat t < unat remain" by (simp_all add: word_less_nat_alt)
    then have ut: "unat (ucast t :: u32) = unat t" using less.prems(2) by (simp add: unat_cast)
    obtain nxt where nxt: "key_add start (ucast t) = Some nxt" "key_num nxt = key_num start + unat t"
      using key_add_num [of start "ucast t"] ut key_num_bound [of stop] less.prems(3) tr(2) by (cases "key_add start (ucast t)") auto
    have rem: "unat (remain - t) = unat remain - unat t" using tr by (simp add: unat_sub)
    have t0: "0 < unat t" using assms(1) by (simp add: word_less_nat_alt)
    have lt: "start < nxt" "nxt < stop" using nxt(2) t0 tr(2) less.prems(3) by (simp_all add: key_num_less [symmetric])
    let ?c = "\<lparr>ks_ranges = [(start, nxt)]\<rparr>"
    have "\<exists>chunks start' remain'. split_range t (remain - t) nxt (parts @ [?c]) = Some (Ok ((parts @ [?c]) @ chunks, start', remain')) \<and>
      0 < remain' \<and> remain' \<le> t \<and> key_num stop = key_num start' + unat remain' \<and>
      (if remain - t \<le> t then chunks = [] \<and> start' = nxt \<and> remain' = remain - t else chunks \<noteq> []) \<and>
      wf_ranges (part_ranges chunks @ [(start', stop)]) \<and>
      (\<forall>z \<in> set (part_ranges chunks @ [(start', stop)]). nxt \<le> fst z \<and> snd z \<le> stop) \<and>
      keys_of (part_ranges chunks @ [(start', stop)]) = {k. in_range k (nxt, stop)} \<and> (\<forall>c \<in> set chunks. part_ok (unat t) c)"
      by (rule less.hyps) (use rem tr t0 less.prems nxt(2) in \<open>auto simp: word_less_nat_alt\<close>)
    then obtain chunks start' remain' where
        ih: "split_range t (remain - t) nxt (parts @ [?c]) = Some (Ok ((parts @ [?c]) @ chunks, start', remain'))"
        "0 < remain'" "remain' \<le> t" "key_num stop = key_num start' + unat remain'" "wf_ranges (part_ranges chunks @ [(start', stop)])"
        "\<forall>z \<in> set (part_ranges chunks @ [(start', stop)]). nxt \<le> fst z \<and> snd z \<le> stop"
        "keys_of (part_ranges chunks @ [(start', stop)]) = {k. in_range k (nxt, stop)}" "\<forall>c \<in> set chunks. part_ok (unat t) c"
      by blast
    have "split_range t remain start parts = Some (Ok (parts @ (?c # chunks), start', remain'))"
      using tr(1) nxt(1) ih(1) by (subst split_range.simps) simp
    moreover have "wf_ranges (part_ranges (?c # chunks) @ [(start', stop)])" using ih(5,6) lt by auto
    moreover have "\<forall>z \<in> set (part_ranges (?c # chunks) @ [(start', stop)]). start \<le> fst z \<and> snd z \<le> stop"
    proof
      fix z
      assume "z \<in> set (part_ranges (?c # chunks) @ [(start', stop)])"
      then consider "z = (start, nxt)" | "z \<in> set (part_ranges chunks @ [(start', stop)])" by auto
      then show "start \<le> fst z \<and> snd z \<le> stop"
      proof cases
        case 2
        with ih(6) have "nxt \<le> fst z" "snd z \<le> stop" by blast+
        with lt(1) show ?thesis by simp
      qed (use lt in simp)
    qed
    moreover have "keys_of (part_ranges (?c # chunks) @ [(start', stop)]) = {k. in_range k (start, stop)}"
    proof -
      have "{k. in_range k (start, nxt)} \<union> {k. in_range k (nxt, stop)} = {k. in_range k (start, stop)}"
        using lt by (auto simp: in_range_def)
      with ih(7) show ?thesis by simp
    qed
    moreover have "part_ok (unat t) ?c" using nxt(2) by (simp add: part_ok_def span_def)
    ultimately show ?thesis using ih(2-4,8) False by (intro exI [of _ "?c # chunks"] exI [of _ start'] exI [of _ remain']) auto
  qed
qed

lemma partition_ranges_result:
  assumes t: "0 < t" "unat t < 2 ^ 52"
  shows "wf_ranges (part_ranges parts @ cur @ ranges) \<Longrightarrow> \<forall>r \<in> set ranges. key_range_size r \<noteq> 0xffffffff \<Longrightarrow>
    sum_list (map span cur) = unat sz \<Longrightarrow> sz \<le> t \<Longrightarrow> \<forall>p \<in> set parts. part_ok (unat t) p \<Longrightarrow>
    \<exists>parts' cur'. partition_ranges t ranges parts cur sz = Some (Ok (parts', cur')) \<and>
      wf_ranges (part_ranges parts' @ cur') \<and> keys_of (part_ranges parts' @ cur') = keys_of (part_ranges parts @ cur @ ranges) \<and>
      sum_list (map span cur') \<le> unat t \<and> (\<forall>p \<in> set parts'. part_ok (unat t) p)"
proof (induction ranges arbitrary: parts cur sz)
  case Nil
  then show ?case by (auto simp: word_le_nat_alt)
next
  case (Cons r rs)
  define this_size where "this_size = (ucast (key_range_size r) :: u64)"
  define full where "full \<longleftrightarrow> sz + this_size > t \<and> cur \<noteq> []"
  define parts1 where "parts1 = (if full then parts @ [\<lparr>ks_ranges = cur\<rparr>] else parts)"
  define cur1 where "cur1 = (if full then [] else cur)"
  define size1 where "size1 = (if full then 0 else sz)"
  have r: "fst r < snd r" using Cons.prems(1) by (simp add: wf_ranges_append)
  note exact = key_range_size_exact [OF r]
  have th: "unat this_size = span r" "unat this_size < 2 ^ 32" "0 < this_size" "key_num (snd r) = key_num (fst r) + unat this_size"
    using exact Cons.prems(2) unat_u32_less [of "key_range_size r"] r
    by (auto simp: this_size_def unat_cast word_less_nat_alt key_num_less [symmetric] intro: gr0I)
  have sum: "unat (sz + this_size) = unat sz + unat this_size"
    using t(2) Cons.prems(4) th(2) by (simp add: unat_word_ariths word_le_nat_alt)
  have flat: "part_ranges parts1 @ cur1 = part_ranges parts @ cur" by (simp add: parts1_def cur1_def)
  have cur1: "sum_list (map span cur1) = unat size1" "size1 \<le> t" "cur1 = [] \<or> unat size1 + unat this_size \<le> unat t"
    using Cons.prems(3,4) sum by (auto simp: cur1_def size1_def full_def word_less_nat_alt)
  have ok1: "\<forall>p \<in> set parts1. part_ok (unat t) p"
    using Cons.prems(3-5) by (auto simp: parts1_def full_def part_ok_def word_le_nat_alt)
  obtain chunks start' remain' where sp: "split_range t this_size (fst r) parts1 = Some (Ok (parts1 @ chunks, start', remain'))"
      "0 < remain'" "remain' \<le> t" "key_num (snd r) = key_num start' + unat remain'"
      "if this_size \<le> t then chunks = [] \<and> start' = fst r \<and> remain' = this_size else chunks \<noteq> []"
      "wf_ranges (part_ranges chunks @ [(start', snd r)])"
      "\<forall>z \<in> set (part_ranges chunks @ [(start', snd r)]). fst r \<le> fst z \<and> snd z \<le> snd r"
      "keys_of (part_ranges chunks @ [(start', snd r)]) = {k. in_range k (fst r, snd r)}" "\<forall>c \<in> set chunks. part_ok (unat t) c"
    using split_range_result [OF t(1) th(3,2,4), of parts1] by blast
  have one: "cur1 = [] \<or> chunks = [] \<and> remain' = this_size"
    using cur1(3) sp(5) by (auto simp: word_le_nat_alt split: if_splits)
  have list: "part_ranges (parts1 @ chunks) @ (cur1 @ [(start', snd r)]) @ rs =
      (part_ranges parts @ cur) @ (part_ranges chunks @ [(start', snd r)]) @ rs"
    using one flat by auto
  have size': "unat (size1 + remain') = unat size1 + unat remain'" "unat size1 + unat remain' \<le> unat t"
  proof -
    show "unat size1 + unat remain' \<le> unat t"
      using one cur1 sp(3) by (auto simp: word_le_nat_alt)
    then show "unat (size1 + remain') = unat size1 + unat remain'" using t(2) by (simp add: unat_word_ariths)
  qed
  have "wf_ranges (part_ranges (parts1 @ chunks) @ (cur1 @ [(start', snd r)]) @ rs)"
    unfolding list by (rule wf_ranges_replace [OF _ sp(6,7)]) (use Cons.prems(1) in simp)
  moreover have "sum_list (map span (cur1 @ [(start', snd r)])) = unat (size1 + remain')"
    using cur1(1) sp(4) size'(1) by (simp add: span_def)
  ultimately obtain parts' cur' where
      "partition_ranges t rs (parts1 @ chunks) (cur1 @ [(start', snd r)]) (size1 + remain') = Some (Ok (parts', cur'))"
      "wf_ranges (part_ranges parts' @ cur')"
      "keys_of (part_ranges parts' @ cur') = keys_of (part_ranges (parts1 @ chunks) @ (cur1 @ [(start', snd r)]) @ rs)"
      "sum_list (map span cur') \<le> unat t" "\<forall>p \<in> set parts'. part_ok (unat t) p"
    using Cons.IH [of "parts1 @ chunks" "cur1 @ [(start', snd r)]" "size1 + remain'"] Cons.prems(2) size' ok1 sp(9)
    by (auto simp: word_le_nat_alt)
  moreover have "partition_ranges t (r # rs) parts cur sz =
      partition_ranges t rs (parts1 @ chunks) (cur1 @ [(start', snd r)]) (size1 + remain')"
    using sp(1) by (simp add: Let_def this_size_def [symmetric] full_def [symmetric] parts1_def [symmetric] cur1_def [symmetric]
        size1_def [symmetric])
  moreover have "keys_of (part_ranges (parts1 @ chunks) @ (cur1 @ [(start', snd r)]) @ rs) = keys_of (part_ranges parts @ cur @ r # rs)"
    unfolding list using sp(8) by auto
  ultimately show ?case by auto
qed

lemma ks_partition_result:
  assumes "wf_ranges (ks_ranges ks)" and "\<forall>r \<in> set (ks_ranges ks). key_range_size r \<noteq> 0xffffffff" and "8192 \<le> target_bytes"
  shows "\<exists>parts. ks_partition ks target_bytes = Some (Ok parts) \<and> wf_ranges (part_ranges parts) \<and>
    keys_of (part_ranges parts) = keys_of (ks_ranges ks) \<and> (\<forall>p \<in> set parts. part_ok (unat (target_bytes div 8192)) p)"
proof -
  let ?t = "target_bytes div 8192"
  have "unat ?t = unat target_bytes div 8192" by (simp add: unat_div)
  then have t: "0 < ?t" "unat ?t < 2 ^ 52"
    using assms(3) unsigned_less [of target_bytes, where 'a = nat]
    by (auto simp: word_less_nat_alt word_le_nat_alt div_greater_zero_iff less_mult_imp_div_less)
  obtain parts cur where "partition_ranges ?t (ks_ranges ks) [] [] 0 = Some (Ok (parts, cur))" "wf_ranges (part_ranges parts @ cur)"
      "keys_of (part_ranges parts @ cur) = keys_of (ks_ranges ks)" "sum_list (map span cur) \<le> unat ?t"
      "\<forall>p \<in> set parts. part_ok (unat ?t) p"
    using partition_ranges_result [OF t, of "[]" "[]" "ks_ranges ks" 0] assms(1,2) by auto
  then show ?thesis by (auto simp: ks_partition_def part_ok_def)
qed

text \<open>With a target of no blocks, the loop pushes empty chunks forever.\<close>

lemma key_add_0 [simp]: "key_add k 0 = Some k"
  using unat_u32_less [of "field6 k"] by (cases k) (simp add: key_add_def overflowing_add_def)

lemma split_range_diverges: "0 < remain \<Longrightarrow> split_range 0 remain start parts = None"
proof (rule ccontr)
  assume "0 < remain" "split_range 0 remain start parts \<noteq> None"
  then obtain y where "split_range 0 remain start parts = Some y" by auto
  then have "(0 :: u64) = 0 \<longrightarrow> remain = 0"
    by (rule split_range.raw_induct [where P = "\<lambda>t n _ _ _. t = 0 \<longrightarrow> n = 0", rotated])
      (auto simp: word_gt_0 split: if_splits option.splits)
  with \<open>0 < remain\<close> show False by simp
qed

lemma ks_partition_diverges:
  assumes "ks_ranges ks = r # rs" and "fst r < snd r" and "key_range_size r \<noteq> 0xffffffff" and "target_bytes < 8192"
  shows "ks_partition ks target_bytes = None"
proof -
  have "target_bytes div 8192 = 0" using assms(4) by (simp add: word_less_nat_alt word_unat_eq_iff unat_div)
  moreover have "0 < (ucast (key_range_size r) :: u64)"
    using key_range_size_exact(1) [OF assms(2,3)] assms(2) unat_u32_less [of "key_range_size r"]
    by (auto simp: word_less_nat_alt unat_cast key_num_less [symmetric] intro: gr0I)
  ultimately show ?thesis by (simp add: ks_partition_def assms(1) split_range_diverges)
qed

section \<open>Properties\<close>

text \<open>
  C37. Removing a key space from another terminates, and leaves exactly the keys that are not in
  the other, as a well-formed key space. The loop that looks for the next overlap ends although
  it splits ranges, and what the skipping of ranges leaves out does not matter.
\<close>

theorem remove_overlapping_is_difference:
  assumes "wf_ranges (ks_ranges self)" and "wf_ranges (ks_ranges other)"
  shows "\<exists>ks. remove_overlapping_with self other = Some ks \<and> wf_ranges (ks_ranges ks) \<and>
    keys_of (ks_ranges ks) = keys_of (ks_ranges self) - keys_of (ks_ranges other)"
  by (rule remove_overlapping_total [OF assms])

definition example_range :: "u32 \<Rightarrow> u32 \<Rightarrow> key_range" where
  "example_range a b = (Key 0 1663 5 16384 0 a, Key 0 1663 5 16384 0 b)"

lemma example_range_less: "a < b \<Longrightarrow> fst (example_range a b) < snd (example_range a b)"
  by (simp add: example_range_def less_key_def)

theorem remove_overlapping_is_difference_witness:
  "\<exists>ks. remove_overlapping_with \<lparr>ks_ranges = [example_range 0 100]\<rparr> \<lparr>ks_ranges = [example_range 10 20]\<rparr> = Some ks \<and>
     keys_of (ks_ranges ks) = keys_of [example_range 0 100] - keys_of [example_range 10 20]"
  using remove_overlapping_is_difference [of "\<lparr>ks_ranges = [example_range 0 100]\<rparr>" "\<lparr>ks_ranges = [example_range 10 20]\<rparr>"]
  by (simp add: example_range_less) blast

text \<open>
  C38. Partitioning, of ranges whose size is known exactly, returns exactly when the target is at
  least one block. Then the parts, in order, are a well-formed key space with the same keys, and
  each part has at least one range and at most the target number of blocks. Ranges that span
  several relations, whose size is only an estimate, are excluded.
\<close>

theorem partition_covers:
  assumes "wf_ranges (ks_ranges ks)" and "\<forall>r \<in> set (ks_ranges ks). key_range_size r \<noteq> 0xffffffff" and "ks_ranges ks \<noteq> []"
  shows "if 8192 \<le> target_bytes
    then \<exists>parts. ks_partition ks target_bytes = Some (Ok parts) \<and> wf_ranges (part_ranges parts) \<and>
      keys_of (part_ranges parts) = keys_of (ks_ranges ks) \<and>
      (\<forall>p \<in> set parts. ks_ranges p \<noteq> [] \<and> sum_list (map span (ks_ranges p)) \<le> unat (target_bytes div 8192))
    else ks_partition ks target_bytes = None"
proof (cases "8192 \<le> target_bytes")
  case True
  with ks_partition_result [OF assms(1,2)] show ?thesis by (simp only: part_ok_def if_True)
next
  case False
  obtain r rs where "ks_ranges ks = r # rs" using assms(3) by (cases "ks_ranges ks") auto
  moreover from this assms(1,2) have "fst r < snd r" "key_range_size r \<noteq> 0xffffffff" by simp_all
  ultimately have "ks_partition ks target_bytes = None" using ks_partition_diverges [of ks r rs target_bytes] False by simp
  with False show ?thesis by (simp only: if_False)
qed

theorem partition_covers_witness:
  "(\<exists>parts. ks_partition \<lparr>ks_ranges = [example_range 0 100]\<rparr> 81920 = Some (Ok parts) \<and>
     keys_of (part_ranges parts) = keys_of [example_range 0 100]) \<and>
   ks_partition \<lparr>ks_ranges = [example_range 0 100]\<rparr> 4096 = None"
proof -
  have "key_range_size (example_range 0 100) \<noteq> 0xffffffff"
    by (simp add: key_range_size_def example_range_def key_low_def)
  then show ?thesis
    using partition_covers [of "\<lparr>ks_ranges = [example_range 0 100]\<rparr>" 81920]
      partition_covers [of "\<lparr>ks_ranges = [example_range 0 100]\<rparr>" 4096] by (auto simp: example_range_less)
qed

text \<open>
  C39. Merging two key spaces gives the union of their keys, well-formed, and fails its assertion
  exactly when they have a key in common. The hypothesis is what the iterator library
  documents of \<open>merge_by\<close>.
\<close>

theorem merge_is_union:
  assumes "merge_by_ok merge_by" and "wf_ranges (ks_ranges self)" and "wf_ranges (ks_ranges other)"
  shows "if keys_of (ks_ranges self) \<inter> keys_of (ks_ranges other) = {}
    then \<exists>ks. ks_merge merge_by self other = Ok ks \<and> wf_ranges (ks_ranges ks) \<and>
      keys_of (ks_ranges ks) = keys_of (ks_ranges self) \<union> keys_of (ks_ranges other)
    else ks_merge merge_by self other = Panic"
  by (rule ks_merge_result [OF assms])

theorem merge_is_union_witness:
  "ks_merge merge_with \<lparr>ks_ranges = [example_range 0 10]\<rparr> \<lparr>ks_ranges = [example_range 5 20]\<rparr> = Panic"
proof -
  have "in_range (fst (example_range 5 20)) (example_range 0 10)" "in_range (fst (example_range 5 20)) (example_range 5 20)"
    by (simp_all add: in_range_def example_range_def less_key_def less_eq_key_def)
  then have "keys_of [example_range 0 10] \<inter> keys_of [example_range 5 20] \<noteq> {}" by auto
  with merge_is_union [OF merge_with_ok, of "\<lparr>ks_ranges = [example_range 0 10]\<rparr>" "\<lparr>ks_ranges = [example_range 5 20]\<rparr>"]
  show ?thesis by (simp add: example_range_less)
qed

text \<open>
  C40. Ranges added in any order, overlapping, empty or reversed, are collected without a failed
  assertion into a key space with exactly their keys, whose ranges are in order with gaps
  between them. Consuming the accumulator gives the same key space and leaves it empty.
\<close>

theorem random_accum_collects:
  "\<exists>ks. random_to_keyspace ranges = Ok ks \<and> random_consume_keyspace ranges = (Ok ks, random_new) \<and>
     sorted_wrt (\<lambda>a b. snd a < fst b) (ks_ranges ks) \<and> keys_of (ks_ranges ks) = keys_of ranges"
proof -
  obtain ks where ks: "random_to_keyspace ranges = Ok ks" "sorted_wrt (\<lambda>a b. snd a < fst b) (ks_ranges ks)"
      "keys_of (ks_ranges ks) = keys_of ranges"
    using random_keyspace_result [of ranges] by blast
  then have "random_consume_keyspace ranges = (Ok ks, random_new)"
    by (simp add: random_consume_keyspace_def andthen_def read_def update_def)
  with ks show ?thesis by blast
qed

end
