(* ===== verification/Layer_Coverage.thy ===== *)
theory Layer_Coverage
  imports Rust_Std Rust_Collections "HOL-Library.RBT"
begin

text \<open>
  \<open>pageserver/src/tenant/layer_map/layer_coverage.rs\<close>: which layer is the latest, by the end of
  its LSN range, at each key. The coverage is a step function over the keys, kept as the map of
  its steps. The persistent search tree of the \<open>rpds\<close> crate is the argument \<open>R\<close>; the locale
  \<open>rpds_map\<close> has what its documentation says of it. A key is an \<open>i128\<close>, of which only the
  order matters here, and is an \<open>int\<close>.
\<close>

section \<open>The search tree\<close>

record ('m, 'v) rpds =
  rp_default :: 'm
  rp_insert_mut :: "int \<Rightarrow> 'v \<Rightarrow> 'm \<Rightarrow> 'm"
  rp_remove_mut :: "int \<Rightarrow> 'm \<Rightarrow> 'm"
  rp_range :: "int bound \<times> int bound \<Rightarrow> 'm \<Rightarrow> (int \<times> 'v) list"

type_synonym 'v node = "(u64 \<times> 'v) option"

definition not_reversed :: "int bound \<times> int bound \<Rightarrow> bool" where
  "not_reversed b = (case b of (Included a, Excluded c) \<Rightarrow> a \<le> c | (Included a, Included c) \<Rightarrow> a \<le> c
     | (Excluded a, Included c) \<Rightarrow> a \<le> c | (Excluded a, Excluded c) \<Rightarrow> a < c | _ \<Rightarrow> True)"

locale rpds_map =
  fixes R :: "('m, 'v) rpds"
  assumes keys_ordered: "ordered (rp_range R (Unbounded, Unbounded) m)"
    and range_entries: "not_reversed b \<Longrightarrow> rp_range R b m = bt_range b (rp_range R (Unbounded, Unbounded) m)"
    and default_entries: "rp_range R (Unbounded, Unbounded) (rp_default R) = []"
    and insert_entries:
      "rp_range R (Unbounded, Unbounded) (rp_insert_mut R k v m) = bt_insert k v (rp_range R (Unbounded, Unbounded) m)"
    and remove_entries:
      "rp_range R (Unbounded, Unbounded) (rp_remove_mut R k m) = bt_remove k (rp_range R (Unbounded, Unbounded) m)"

section \<open>Coverage\<close>

record 'm layer_coverage =
  nodes :: 'm

definition coverage_new :: "('m, 'v node) rpds \<Rightarrow> 'm layer_coverage" where
  "coverage_new R = \<lparr>nodes = rp_default R\<rparr>"

definition add_node :: "('m, 'v node) rpds \<Rightarrow> int \<Rightarrow> 'm layer_coverage \<Rightarrow> 'm layer_coverage" where
  "add_node R key c =
     (let val = (case next_back (rp_range R (Unbounded, Included key) (nodes c)) of
            Some (_, Some v) \<Rightarrow> Some v
          | Some (_, None) \<Rightarrow> None
          | None \<Rightarrow> None)
      in c\<lparr>nodes := rp_insert_mut R key val (nodes c)\<rparr>)"

definition needs_cover :: "u64 \<Rightarrow> 'v node \<Rightarrow> bool" where
  "needs_cover lsn_end node = (case node of None \<Rightarrow> True | Some (h, _) \<Rightarrow> h < lsn_end)"

text \<open>The loop over the nodes in the range: which of them to update and which to remove.\<close>

fun sweep :: "u64 \<Rightarrow> (int \<times> 'v node) list \<Rightarrow> bool \<Rightarrow> int list \<Rightarrow> int list \<Rightarrow> int list \<times> int list" where
  "sweep lsn_end [] prev_covered to_update to_remove = (to_update, to_remove)"
| "sweep lsn_end ((k, node) # ns) prev_covered to_update to_remove =
     (if needs_cover lsn_end node then
        (if prev_covered then sweep lsn_end ns True to_update (to_remove @ [k])
         else sweep lsn_end ns True (to_update @ [k]) to_remove)
      else sweep lsn_end ns False to_update to_remove)"

definition coverage_insert ::
    "('m, 'v node) rpds \<Rightarrow> int \<times> int \<Rightarrow> u64 \<times> u64 \<Rightarrow> 'v \<Rightarrow> 'm layer_coverage \<Rightarrow> 'm layer_coverage" where
  "coverage_insert R key lsn val c0 =
     (let c = add_node R (snd key) (add_node R (fst key) c0);
          (to_update, to_remove) =
            sweep (snd lsn) (rp_range R (Included (fst key), Excluded (snd key)) (nodes c)) False [] [];
          updated = fold (\<lambda>k. rp_insert_mut R k (Some (snd lsn, val))) to_update (nodes c)
      in c\<lparr>nodes := fold (rp_remove_mut R) to_remove updated\<rparr>)"

definition coverage_query :: "('m, 'v node) rpds \<Rightarrow> int \<Rightarrow> 'm layer_coverage \<Rightarrow> 'v option" where
  "coverage_query R key c = (case next_back (rp_range R (Unbounded, Included key) (nodes c)) of
       None \<Rightarrow> None
     | Some (_, node) \<Rightarrow> map_option snd node)"

definition coverage_range :: "('m, 'v node) rpds \<Rightarrow> int \<times> int \<Rightarrow> 'm layer_coverage \<Rightarrow> (int \<times> 'v option) list" where
  "coverage_range R key c =
     map (\<lambda>(k, v). (k, map_option snd v)) (rp_range R (Included (fst key), Excluded (snd key)) (nodes c))"

definition range_overlaps :: "('m, 'v node) rpds \<Rightarrow> int \<times> int \<Rightarrow> 'm layer_coverage \<Rightarrow> (int \<times> 'v option) list" where
  "range_overlaps R key_range c = (case coverage_query R (fst key_range) c of
       Some change \<Rightarrow>
         (let range_coverage = coverage_range R key_range c;
              rest = (case range_coverage of
                  c1 # cs \<Rightarrow> if snd c1 = Some change then cs else range_coverage
                | [] \<Rightarrow> range_coverage)
          in (fst key_range, Some change) # rest)
     | None \<Rightarrow> coverage_range R key_range c)"

record 'm coverage_tuple =
  image_coverage :: "'m layer_coverage"
  delta_coverage :: "'m layer_coverage"

definition tuple_default :: "('m, 'v node) rpds \<Rightarrow> 'm coverage_tuple" where
  "tuple_default R = \<lparr>image_coverage = coverage_new R, delta_coverage = coverage_new R\<rparr>"

section \<open>The step function of a list of nodes\<close>

text \<open>The node in force at a key: the last one that does not start after it.\<close>

fun node_at :: "'n \<Rightarrow> (int \<times> 'n) list \<Rightarrow> int \<Rightarrow> 'n" where
  "node_at d [] k = d"
| "node_at d (e # es) k = (if fst e \<le> k then node_at (snd e) es k else d)"

definition cover :: "u64 \<Rightarrow> 'v \<Rightarrow> 'v node \<Rightarrow> 'v node" where
  "cover lsn_end val node = (if needs_cover lsn_end node then Some (lsn_end, val) else node)"

lemma node_at_before: "(\<And>e. e \<in> set es \<Longrightarrow> k < fst e) \<Longrightarrow> node_at d es k = d"
  by (cases es) force+

lemma node_at_append:
  "ordered (xs @ ys) \<Longrightarrow> node_at d (xs @ ys) k = node_at (node_at d xs k) ys k"
proof (induction xs arbitrary: d)
  case (Cons x xs)
  show ?case
  proof (cases "fst x \<le> k")
    case False
    have "fst x < fst e" if "e \<in> set ys" for e using that Cons.prems by simp
    with False have "k < fst e" if "e \<in> set ys" for e using that by (meson less_trans not_le)
    then show ?thesis using False by (simp add: node_at_before)
  qed (use Cons in simp)
qed simp

lemma node_at_last:
  "ordered es \<Longrightarrow> node_at d es k = (case next_back (filter (\<lambda>e. fst e \<le> k) es) of None \<Rightarrow> d | Some e \<Rightarrow> snd e)"
proof (induction es arbitrary: d)
  case (Cons e es)
  show ?case
  proof (cases "fst e \<le> k")
    case True
    with Cons show ?thesis by (auto simp: next_back_def)
  next
    case False
    then have "filter (\<lambda>e. fst e \<le> k) es = []" using Cons.prems by (force simp: filter_empty_conv)
    with False show ?thesis by (simp add: next_back_def)
  qed
qed (simp add: next_back_def)

lemma node_at_insert_same:
  "ordered es \<Longrightarrow> node_at d (bt_insert k0 (node_at d es k0) es) k = node_at d es k"
  by (induction es arbitrary: d) (auto simp: node_at_before)


section \<open>The nodes after an insertion\<close>

fun raised :: "u64 \<Rightarrow> 'v \<Rightarrow> bool \<Rightarrow> (int \<times> 'v node) list \<Rightarrow> (int \<times> 'v node) list" where
  "raised h v prev [] = []"
| "raised h v prev (e # es) =
     (if needs_cover h (snd e) then (if prev then raised h v True es else (fst e, Some (h, v)) # raised h v True es)
      else e # raised h v False es)"

lemma sweep_acc: "sweep h es p u r = (u @ fst (sweep h es p [] []), r @ snd (sweep h es p [] []))"
proof (induction es arbitrary: p u r)
  case (Cons e es)
  show ?case
    using Cons.IH [of True u "r @ [fst e]"] Cons.IH [of True "[]" "[fst e]"] Cons.IH [of True "u @ [fst e]" r]
      Cons.IH [of True "[fst e]" "[]"] Cons.IH [of False u r]
    by (cases e) simp
qed simp

lemma raised_keys: "e \<in> set (raised h v p es) \<Longrightarrow> fst e \<in> fst ` set es"
  by (induction es arbitrary: p) (auto split: if_splits)

lemma raised_node_at:
  assumes "ordered es" and "d' = cover h v d" and "p \<longrightarrow> needs_cover h d"
  shows "node_at d' (raised h v p es) k = cover h v (node_at d es k)"
  using assms
proof (induction es arbitrary: d d' p)
  case (Cons e es)
  show ?case
  proof (cases "fst e \<le> k")
    case True
    have "node_at (cover h v (snd e)) (raised h v (needs_cover h (snd e)) es) k = cover h v (node_at (snd e) es k)"
      using Cons.prems(1) by (intro Cons.IH) simp_all
    with True Cons.prems(2,3) show ?thesis by (cases p; cases "needs_cover h (snd e)") (simp_all add: cover_def)
  next
    case False
    then have "k < fst x" if "x \<in> set (raised h v q es)" for x q
      using Cons.prems(1) raised_keys [OF that] by force
    with False Cons.prems show ?thesis by (auto simp: node_at_before)
  qed
qed simp

lemma remove_append: "bt_remove k (xs @ ys) = bt_remove k xs @ bt_remove k ys"
  by (simp add: bt_remove_def)

lemma remove_head: "bt_remove k ((k, n) # m) = bt_remove k m"
  by (simp add: bt_remove_def)

lemma remove_absent: "k \<notin> fst ` set m \<Longrightarrow> bt_remove k m = m"
  by (auto simp: bt_remove_def filter_id_conv)

lemma remove_commute: "fold bt_remove ks (bt_remove k m) = bt_remove k (fold bt_remove ks m)"
proof (induction ks arbitrary: m)
  case (Cons a ks)
  have "bt_remove a (bt_remove k m) = bt_remove k (bt_remove a m)" by (simp add: bt_remove_def conj_commute)
  with Cons show ?case by simp
qed simp

lemma sweep_raised:
  assumes "ordered (pre @ mid @ post)" and "sweep h mid p [] [] = (us, rs)"
  shows "fold bt_remove rs (fold (\<lambda>k. bt_insert k (Some (h, v))) us (pre @ mid @ post)) = pre @ raised h v p mid @ post"
  using assms
proof (induction mid arbitrary: pre p us rs)
  case (Cons e mid)
  obtain k n where e: "e = (k, n)" by (cases e)
  obtain us' rs' where T: "sweep h mid True [] [] = (us', rs')" by (cases "sweep h mid True [] []")
  have ord: "ordered ((pre @ [(k, x)]) @ mid @ post)" for x using Cons.prems(1) e by (auto simp: ordered_append)
  show ?case
  proof (cases "needs_cover h n")
    case False
    with Cons.IH [of "pre @ [(k, n)]" False us rs] ord [of n] Cons.prems(2) e show ?thesis by simp
  next
    case need: True
    show ?thesis
    proof (cases p)
      case True
      then have sw: "us = us'" "rs = k # rs'" using Cons.prems(2) need e T sweep_acc [of h mid True "[]" "[k]"] by auto
      have "k \<notin> fst ` set pre" "k \<notin> fst ` set mid" "k \<notin> fst ` set post" using ord [of n] by (auto simp: ordered_append)
      moreover from this(2) have "k \<notin> fst ` set (raised h v True mid)" using raised_keys by fastforce
      ultimately have "bt_remove k (pre @ (k, n) # raised h v True mid @ post) = pre @ raised h v True mid @ post"
        by (simp add: remove_append remove_absent remove_head)
      with Cons.IH [of "pre @ [(k, n)]" True us' rs'] ord [of n] T sw need True e show ?thesis by (simp add: remove_commute)
    next
      case False
      then have sw: "us = k # us'" "rs = rs'" using Cons.prems(2) need e T sweep_acc [of h mid True "[k]" "[]"] by auto
      have "bt_insert k (Some (h, v)) (pre @ (k, n) # mid @ post) = pre @ (k, Some (h, v)) # mid @ post"
        using Cons.prems(1) e by (subst bt_insert_append) (auto simp: ordered_append)
      with Cons.IH [of "pre @ [(k, Some (h, v))]" True us' rs'] ord [of "Some (h, v)"] T sw need False e show ?thesis by simp
    qed
  qed
qed simp

lemma ordered_split:
  assumes "ordered es" and "s \<le> t"
  shows "es = filter (\<lambda>e. fst e < s) es @ filter (\<lambda>e. s \<le> fst e \<and> fst e < t) es @ filter (\<lambda>e. t \<le> fst e) es"
  using assms(1)
proof (induction es)
  case (Cons e es)
  have "filter (\<lambda>x. fst x < fst e) es = []" "s \<le> fst e \<Longrightarrow> filter (\<lambda>x. fst x < s) es = []"
      "t \<le> fst e \<Longrightarrow> filter (\<lambda>x. fst x < s) es = []" "t \<le> fst e \<Longrightarrow> filter (\<lambda>x. s \<le> fst x \<and> fst x < t) es = []"
    using Cons.prems assms(2) by (force simp: filter_empty_conv)+
  with Cons assms(2) show ?case by auto
qed simp


section \<open>What the operations do to the coverage\<close>

context rpds_map begin

lemma range_upto: "rp_range R (Unbounded, Included k) m = filter (\<lambda>e. fst e \<le> k) (rp_range R (Unbounded, Unbounded) m)"
  by (simp add: range_entries [of "(Unbounded, Included k)"] not_reversed_def bt_range_def within_def)

lemma range_from_to:
  "s \<le> t \<Longrightarrow> rp_range R (Included s, Excluded t) m =
     filter (\<lambda>e. s \<le> fst e \<and> fst e < t) (rp_range R (Unbounded, Unbounded) m)"
  by (simp add: range_entries [of "(Included s, Excluded t)"] not_reversed_def bt_range_def within_def)

lemma fold_insert_entries:
  "rp_range R (Unbounded, Unbounded) (fold (\<lambda>k. rp_insert_mut R k v) ks m) =
     fold (\<lambda>k. bt_insert k v) ks (rp_range R (Unbounded, Unbounded) m)"
  by (induction ks arbitrary: m) (simp_all add: insert_entries)

lemma fold_remove_entries:
  "rp_range R (Unbounded, Unbounded) (fold (rp_remove_mut R) ks m) = fold bt_remove ks (rp_range R (Unbounded, Unbounded) m)"
  by (induction ks arbitrary: m) (simp_all add: remove_entries)

end

definition steps_of :: "('m, 'v node) rpds \<Rightarrow> 'm layer_coverage \<Rightarrow> (int \<times> 'v node) list" where
  "steps_of R c = rp_range R (Unbounded, Unbounded) (nodes c)"

definition covered_by :: "('m, 'v node) rpds \<Rightarrow> 'm layer_coverage \<Rightarrow> int \<Rightarrow> 'v node" where
  "covered_by R c k = node_at None (steps_of R c) k"

lemma query_covered:
  assumes "rpds_map R"
  shows "coverage_query R k c = map_option snd (covered_by R c k)"
  using rpds_map.keys_ordered [OF assms]
  by (simp add: coverage_query_def covered_by_def steps_of_def node_at_last rpds_map.range_upto [OF assms] split: option.split)

lemma covered_new: "rpds_map R \<Longrightarrow> covered_by R (coverage_new R) k = None"
  by (simp add: covered_by_def steps_of_def coverage_new_def rpds_map.default_entries)

lemma add_node_steps:
  assumes "rpds_map R"
  shows "steps_of R (add_node R key c) = bt_insert key (covered_by R c key) (steps_of R c)"
  using rpds_map.keys_ordered [OF assms]
  by (simp add: add_node_def covered_by_def steps_of_def rpds_map.insert_entries [OF assms] node_at_last
      rpds_map.range_upto [OF assms] Let_def split: option.split)

lemma steps_ordered: "rpds_map R \<Longrightarrow> ordered (steps_of R c)"
  by (simp add: steps_of_def rpds_map.keys_ordered)

lemma covered_add_node:
  assumes "rpds_map R"
  shows "covered_by R (add_node R key c) k = covered_by R c k"
  unfolding covered_by_def add_node_steps [OF assms] by (rule node_at_insert_same [OF steps_ordered [OF assms]])

lemma ordered_head:
  assumes "ordered es" and "s \<in> fst ` set es" and "\<And>e. e \<in> set es \<Longrightarrow> s \<le> fst e"
  obtains n es' where "es = (s, n) # es'"
proof (cases es)
  case (Cons e es')
  have "s \<le> fst e" using assms(3) Cons by simp
  moreover have "fst e \<le> s" using assms(1,2) Cons by (auto simp: less_imp_le)
  ultimately show thesis using that [of "snd e" es'] Cons by (simp add: prod_eq_iff)
qed (use assms in simp)

lemma coverage_insert_steps:
  assumes c_def: "c = add_node R (snd key) (add_node R (fst key) c0)"
    and R: "rpds_map R" and le: "fst key \<le> snd key"
  shows "steps_of R (coverage_insert R key lsn v c0) = filter (\<lambda>e. fst e < fst key) (steps_of R c) @
    raised (snd lsn) v False (filter (\<lambda>e. fst key \<le> fst e \<and> fst e < snd key) (steps_of R c)) @
    filter (\<lambda>e. snd key \<le> fst e) (steps_of R c)"
proof -
  let ?mid = "filter (\<lambda>e. fst key \<le> fst e \<and> fst e < snd key) (steps_of R c)"
  obtain us rs where sw: "sweep (snd lsn) ?mid False [] [] = (us, rs)" by (cases "sweep (snd lsn) ?mid False [] []")
  have split: "steps_of R c = filter (\<lambda>e. fst e < fst key) (steps_of R c) @ ?mid @ filter (\<lambda>e. snd key \<le> fst e) (steps_of R c)"
    by (rule ordered_split [OF steps_ordered [OF R] le])
  have "steps_of R (coverage_insert R key lsn v c0) =
      fold bt_remove rs (fold (\<lambda>k. bt_insert k (Some (snd lsn, v))) us (steps_of R c))"
    using sw unfolding coverage_insert_def c_def [symmetric] Let_def
    by (simp add: steps_of_def rpds_map.range_from_to [OF R le] rpds_map.fold_insert_entries [OF R]
        rpds_map.fold_remove_entries [OF R])
  also have "\<dots> = filter (\<lambda>e. fst e < fst key) (steps_of R c) @ raised (snd lsn) v False ?mid @
      filter (\<lambda>e. snd key \<le> fst e) (steps_of R c)"
    using sweep_raised [OF _ sw, of "filter (\<lambda>e. fst e < fst key) (steps_of R c)" "filter (\<lambda>e. snd key \<le> fst e) (steps_of R c)" v]
      steps_ordered [OF R, of c] split by simp
  finally show ?thesis .
qed

lemma covered_insert:
  assumes R: "rpds_map R" and le: "fst key \<le> snd key"
  shows "covered_by R (coverage_insert R key lsn v c0) k =
    (if fst key \<le> k \<and> k < snd key then cover (snd lsn) v (covered_by R c0 k) else covered_by R c0 k)"
proof -
  define c where "c = add_node R (snd key) (add_node R (fst key) c0)"
  define pre where "pre = filter (\<lambda>e. fst e < fst key) (steps_of R c)"
  define mid where "mid = filter (\<lambda>e. fst key \<le> fst e \<and> fst e < snd key) (steps_of R c)"
  define post where "post = filter (\<lambda>e. snd key \<le> fst e) (steps_of R c)"
  have split: "steps_of R c = pre @ mid @ post"
    unfolding pre_def mid_def post_def by (rule ordered_split [OF steps_ordered [OF R] le])
  have new: "steps_of R (coverage_insert R key lsn v c0) = pre @ raised (snd lsn) v False mid @ post"
    unfolding pre_def mid_def post_def by (rule coverage_insert_steps [OF c_def R le])
  have ord: "ordered (pre @ mid @ post)" "ordered (pre @ raised (snd lsn) v False mid @ post)"
    using steps_ordered [OF R] split new by metis+
  have "covered_by R c0 k = covered_by R c k" by (simp add: c_def covered_add_node [OF R])
  also have "\<dots> = node_at (node_at (node_at None pre k) mid k) post k"
    using ord(1) by (simp add: covered_by_def split node_at_append ordered_append)
  finally have old_at: "covered_by R c0 k = node_at (node_at (node_at None pre k) mid k) post k" .
  have new_at: "covered_by R (coverage_insert R key lsn v c0) k =
      node_at (node_at (node_at None pre k) (raised (snd lsn) v False mid) k) post k"
    using ord(2) by (simp add: covered_by_def new node_at_append ordered_append)
  have keys: "fst key \<in> fst ` set (steps_of R c)" "snd key \<in> fst ` set (steps_of R c)"
    using steps_ordered [OF R] by (force simp: c_def add_node_steps [OF R] set_bt_insert)+
  consider "k < fst key" | "snd key \<le> k" | "fst key \<le> k" "k < snd key" by linarith
  then show ?thesis
  proof cases
    case 1
    then have "node_at d mid k = d" "node_at d (raised (snd lsn) v False mid) k = d" for d
      using raised_keys [of _ "snd lsn" v False mid] by (force simp: mid_def intro!: node_at_before)+
    with 1 show ?thesis by (simp add: old_at new_at)
  next
    case 2
    obtain n post' where "post = (snd key, n) # post'"
      using ord(1) keys(2) by (elim ordered_head [of post "snd key", rotated -1]) (auto simp: post_def ordered_append)
    with 2 show ?thesis by (simp add: old_at new_at)
  next
    case 3
    then have "node_at d post k = d" for d by (force simp: post_def intro!: node_at_before)
    moreover obtain n mid' where mid: "mid = (fst key, n) # mid'"
      using ord(1) keys(1) 3 by (elim ordered_head [of mid "fst key", rotated -1]) (auto simp: mid_def ordered_append)
    moreover have "node_at (cover (snd lsn) v n) (raised (snd lsn) v (needs_cover (snd lsn) n) mid') k =
        cover (snd lsn) v (node_at n mid' k)"
      using ord(1) mid by (intro raised_node_at) (auto simp: ordered_append)
    ultimately show ?thesis using 3 by (cases "needs_cover (snd lsn) n") (simp_all add: old_at new_at cover_def)
  qed
qed

section \<open>Reading a range of the coverage\<close>

lemma node_at_map: "node_at (f d) (map (\<lambda>(k, v). (k, f v)) es) k = f (node_at d es k)"
  by (induction es arbitrary: d) auto

lemma node_at_between:
  assumes "ordered es" and "s \<le> k" and "k < t"
  shows "node_at d es k = node_at (node_at d es s) (filter (\<lambda>e. s \<le> fst e \<and> fst e < t) es) k"
  using assms(1)
proof (induction es arbitrary: d)
  case (Cons e es)
  have later: "node_at d' es j = d'" if "j \<le> fst e" for d' j
    using Cons.prems that by (force intro: node_at_before)
  have before: "node_at d' (filter P es) k = d'" if "k < fst e" for d' P
    using Cons.prems that by (force intro: node_at_before)
  have IH: "node_at (snd e) es k = node_at (node_at (snd e) es s) (filter (\<lambda>e. s \<le> fst e \<and> fst e < t) es) k"
    using Cons by simp
  consider "fst e < s" | "s \<le> fst e" "fst e \<le> k" | "k < fst e" by linarith
  then show ?case
  proof cases
    case 2
    then have "fst e \<noteq> s \<Longrightarrow> \<not> fst e \<le> s" by simp
    with 2 IH assms(2,3) later [of s "snd e"] show ?thesis by simp
  qed (use IH assms(2,3) before in simp_all)
qed simp

text \<open>The value at the start of a range and the changes in it give the values of the range.\<close>

lemma query_range:
  assumes R: "rpds_map R" and "s \<le> k" and "k < t"
  shows "coverage_query R k c = node_at (coverage_query R s c) (coverage_range R (s, t) c) k"
proof -
  have "covered_by R c k = node_at (covered_by R c s) (filter (\<lambda>e. s \<le> fst e \<and> fst e < t) (steps_of R c)) k"
    unfolding covered_by_def using steps_ordered [OF R] assms(2,3) by (rule node_at_between)
  with assms show ?thesis
    by (simp add: query_covered [OF R] coverage_range_def rpds_map.range_from_to [OF R] steps_of_def node_at_map)
qed

lemma coverage_range_ordered:
  assumes R: "rpds_map R" and "s \<le> t"
  shows "ordered (coverage_range R (s, t) c)" and "e \<in> set (coverage_range R (s, t) c) \<Longrightarrow> s \<le> fst e \<and> fst e < t"
  using rpds_map.keys_ordered [OF R, of "nodes c"] assms(2)
  by (auto simp: coverage_range_def rpds_map.range_from_to [OF R] ordered_def sorted_wrt_map case_prod_beta sorted_wrt_filter)

text \<open>The changes that overlap a range give its values on their own.\<close>

lemma range_overlaps_covers:
  assumes R: "rpds_map R" and "s \<le> k" and "k < t"
  shows "node_at None (range_overlaps R (s, t) c) k = coverage_query R k c"
proof -
  have "node_at (Some x) cs k = node_at (Some x) (e # cs) k" if "snd e = Some x" "ordered (e # cs)" for x e and cs :: "(int \<times> 'b option) list"
  proof -
    have "k < fst y" if "\<not> fst e \<le> k" "y \<in> set cs" for y using that \<open>ordered (e # cs)\<close> by fastforce
    with that show ?thesis by (auto simp: node_at_before)
  qed
  with coverage_range_ordered(1) [OF R, of s t c] assms show ?thesis
    by (auto simp: query_range [OF assms] range_overlaps_def Let_def split: option.split list.split)
qed

lemma range_overlaps_ordered:
  assumes R: "rpds_map R" and "s < t"
  shows "ordered (range_overlaps R (s, t) c)" and "e \<in> set (range_overlaps R (s, t) c) \<Longrightarrow> s \<le> fst e \<and> fst e < t"
proof -
  let ?cs = "coverage_range R (s, t) c"
  have ord: "ordered ?cs" and keys: "\<And>e. e \<in> set ?cs \<Longrightarrow> s \<le> fst e \<and> fst e < t"
    using coverage_range_ordered [OF R, of s t] assms(2) by auto
  have "s < fst e" if "?cs = e0 # es" "coverage_query R s c = Some x" "snd e0 \<noteq> Some x" "e \<in> set ?cs" for e0 es x e
  proof -
    have "fst e0 \<noteq> s"
    proof
      assume "fst e0 = s"
      moreover have "node_at (snd e0) es s = snd e0" using ord that(1) \<open>fst e0 = s\<close> by (auto intro!: node_at_before)
      ultimately show False using query_range [OF R, of s s t c] assms(2) that(1-3) by simp
    qed
    then show ?thesis using keys [of e0] ord that(1,4) by fastforce
  qed
  note skip = this
  have "ordered (range_overlaps R (s, t) c) \<and> (\<forall>e \<in> set (range_overlaps R (s, t) c). s \<le> fst e \<and> fst e < t)"
  proof (cases "coverage_query R s c")
    case None
    then show ?thesis using ord keys by (simp add: range_overlaps_def)
  next
    case (Some x)
    show ?thesis
    proof (cases ?cs)
      case Nil
      with Some assms(2) show ?thesis by (simp add: range_overlaps_def)
    next
      case (Cons e0 es)
      have "s < fst e" if "e \<in> set es" for e using keys [of e0] ord that Cons by fastforce
      with Some Cons skip ord keys assms(2) show ?thesis by (simp add: range_overlaps_def less_imp_le)
    qed
  qed
  then show "ordered (range_overlaps R (s, t) c)" "e \<in> set (range_overlaps R (s, t) c) \<Longrightarrow> s \<le> fst e \<and> fst e < t" by auto
qed

section \<open>A red-black tree satisfies the contract\<close>

definition rbt_ops :: "((int, 'v) rbt, 'v) rpds" where
  "rbt_ops = \<lparr>rp_default = RBT.empty, rp_insert_mut = RBT.insert, rp_remove_mut = RBT.delete,
     rp_range = (\<lambda>b m. bt_range b (RBT.entries m))\<rparr>"

lemma rbt_entries_ordered: "ordered (RBT.entries t)"
proof -
  have "sorted_wrt (<) (map fst (RBT.entries t))" by (simp add: strict_sorted_iff RBT.distinct_entries RBT.sorted_entries)
  then show ?thesis by (simp add: ordered_def sorted_wrt_map)
qed

lemma ordered_entries_eqI:
  assumes "ordered xs" and "ordered ys" and "map_of xs = map_of ys"
  shows "xs = ys"
proof (rule ordered_unique [OF assms(1,2)])
  have "distinct (map fst zs)" if "ordered zs" for zs :: "('a \<times> 'b) list"
    using that by (induction zs) force+
  then show "set xs = set ys" using assms by (metis map_of_eqI map_of_inject_set)
qed

lemma rbt_entries_empty: "RBT.entries RBT.empty = []"
  by (rule ordered_entries_eqI) (simp_all add: rbt_entries_ordered RBT.map_of_entries)

lemma map_of_bt_insert: "ordered m \<Longrightarrow> map_of (bt_insert k v m) = (map_of m)(k \<mapsto> v)"
  by (induction m) auto

lemma map_of_bt_remove: "map_of (bt_remove k m) = (map_of m)(k := None)"
  by (induction m) (auto simp: bt_remove_def)

lemma bt_range_all [simp]: "bt_range (Unbounded, Unbounded) m = m"
  by (simp add: bt_range_def within_def)

interpretation rbt: rpds_map rbt_ops
proof
  show "rp_range rbt_ops (Unbounded, Unbounded) (rp_insert_mut rbt_ops k v m) =
      bt_insert k v (rp_range rbt_ops (Unbounded, Unbounded) m)" for k v m
    by (rule ordered_entries_eqI) (simp_all add: rbt_ops_def rbt_entries_ordered map_of_bt_insert RBT.map_of_entries)
  show "rp_range rbt_ops (Unbounded, Unbounded) (rp_remove_mut rbt_ops k m) =
      bt_remove k (rp_range rbt_ops (Unbounded, Unbounded) m)" for k m
    by (rule ordered_entries_eqI)
      (simp_all add: rbt_ops_def rbt_entries_ordered map_of_bt_remove RBT.map_of_entries restrict_complement_singleton_eq)
qed (simp_all add: rbt_ops_def rbt_entries_ordered rbt_entries_empty)

end
