(* ===== verification/Spec2Isabelle.thy ===== *)
theory Spec2Isabelle
  imports Xlog_Utils Walproposer_Msgs Timeline_Properties Keyspace Layer_Coverage
begin

text \<open>
  Verification library for Neon, a storage engine for Postgres.

  \<^bold>\<open>The program.\<close> A compute node runs Postgres with the extension \<open>pgxn/neon\<close>, whose
  \<open>walproposer\<close> streams WAL to a group of safekeepers and wins elections among them. A
  safekeeper (\<open>safekeeper/src\<close>) is the acceptor: it votes, stores WAL in segment files and
  its consensus state in a control file.

  \<^bold>\<open>Theories.\<close> \<open>Neon_Prelude\<close> has machine integers and a monad of fallible stateful Rust methods
  with weakest preconditions; \<open>Rust_Std\<close> the standard library on text and bytes.
\<close>

end
